(* ===== verification/GoBase.thy ===== *)
theory GoBase
  imports "HOL-Library.Word" "HOL-Library.Finite_Map"
begin

text \<open>
  The prelude of the development: how Go's machine integers and maps are written, and the
  generic facts about them that the components share.

  A Go \<^verbatim>\<open>int64\<close>, \<^verbatim>\<open>uint64\<close> or \<^verbatim>\<open>int32\<close> is a word of that width, so \<open>+\<close>, \<open>-\<close> and
  unary minus wrap around as they do in Go. A signed value is compared through \<^const>\<open>sint\<close>, an
  unsigned one with the order of the word type. A Go map is a finite map: reading a key that was
  never set gives the zero value (\<open>getz\<close>), and \<^verbatim>\<open>m[k] += d\<close> is \<open>addz\<close>.
\<close>

section \<open>Machine integers\<close>

type_synonym i64 = "64 word"
type_synonym u64 = "64 word"
type_synonym i32 = "32 word"
type_synonym u32 = "32 word"

text \<open>\<open>fits64 x\<close>: the integer is representable as an \<^verbatim>\<open>int64\<close>, so computing it does not wrap.\<close>

definition fits64 :: "int \<Rightarrow> bool" where
  "fits64 x \<longleftrightarrow> - (2 ^ 63) \<le> x \<and> x < 2 ^ 63"

lemma sint_fits64 [simp]: "fits64 (sint (w :: i64))"
  using sint_greater_eq [of w] sint_less [of w] by (simp add: fits64_def)

lemma sint_wrap64_id: "fits64 x \<Longrightarrow> signed_take_bit 63 x = x"
  by (simp add: fits64_def signed_take_bit_int_eq_self)

lemma sint_add64: "fits64 (sint a + sint b) \<Longrightarrow> sint (a + b :: i64) = sint a + sint b"
  by (simp add: sint_word_ariths sint_wrap64_id)

lemma sint_sub64: "fits64 (sint a - sint b) \<Longrightarrow> sint (a - b :: i64) = sint a - sint b"
  by (simp add: sint_word_ariths sint_wrap64_id)

lemma fits64_0 [simp]: "fits64 0"
  by (simp add: fits64_def)

lemma fits64_le: "0 \<le> x \<Longrightarrow> x \<le> y \<Longrightarrow> fits64 y \<Longrightarrow> fits64 x"
  by (simp add: fits64_def)

text \<open>
  Subtracting an affordable, non-negative amount never wraps: the guard of every debit in the
  program (\<^verbatim>\<open>balance < amount\<close> refused) is what keeps the difference in range.
\<close>

lemma sint_debit64:
  assumes "0 \<le> sint (a :: i64)" and "sint a \<le> sint b"
  shows "sint (b - a) = sint b - sint a" and "0 \<le> sint (b - a)"
proof -
  have "fits64 (sint b - sint a)"
    using assms sint_less [of b] by (simp add: fits64_def)
  then show "sint (b - a) = sint b - sint a" by (rule sint_sub64)
  with assms show "0 \<le> sint (b - a)" by simp
qed

text \<open>The \<^verbatim>\<open>int64\<close> sum of a list, accumulated from zero as \<^verbatim>\<open>total += c.Amount\<close> does.\<close>

definition sum64 :: "i64 list \<Rightarrow> i64" where
  "sum64 xs = fold (\<lambda>x t. t + x) xs 0"

lemma fold_add64: "fold (\<lambda>x t. t + x) xs (t :: i64) = t + sum_list xs"
  by (induction xs arbitrary: t) (simp_all add: add.assoc)

lemma sum64_eq: "sum64 xs = sum_list xs"
  by (simp add: sum64_def fold_add64)

lemma sum_list_nonneg64: "\<forall>x \<in> set xs. 0 \<le> sint x \<Longrightarrow> 0 \<le> sum_list (map sint xs)"
  by (induction xs) auto

lemma sint_sum64:
  assumes "\<forall>x \<in> set xs. 0 \<le> sint x" and "fits64 (sum_list (map sint xs))"
  shows "sint (sum64 xs) = sum_list (map sint xs)"
  using assms
proof (induction xs)
  case Nil
  then show ?case by (simp add: sum64_def)
next
  case (Cons x xs)
  have nn: "0 \<le> sum_list (map sint xs)" using Cons.prems(1) by (simp add: sum_list_nonneg64)
  have "fits64 (sum_list (map sint xs))"
    using fits64_le [OF nn _ Cons.prems(2)] Cons.prems(1) by simp
  with Cons have IH: "sint (sum64 xs) = sum_list (map sint xs)" by simp
  have "sint (x + sum64 xs) = sint x + sint (sum64 xs)"
    using Cons.prems(2) by (intro sint_add64) (simp add: IH)
  then show ?case by (simp add: sum64_eq IH [unfolded sum64_eq])
qed

section \<open>Maps with a zero value\<close>

definition getz :: "('k, 'v::zero) fmap \<Rightarrow> 'k \<Rightarrow> 'v" where
  "getz m k = (case fmlookup m k of None \<Rightarrow> 0 | Some v \<Rightarrow> v)"

definition addz :: "('k, 'v::{zero,plus}) fmap \<Rightarrow> 'k \<Rightarrow> 'v \<Rightarrow> ('k, 'v) fmap" where
  "addz m k d = fmupd k (getz m k + d) m"

definition subz :: "('k, 'v::{zero,minus}) fmap \<Rightarrow> 'k \<Rightarrow> 'v \<Rightarrow> ('k, 'v) fmap" where
  "subz m k d = fmupd k (getz m k - d) m"

text \<open>
  The sum over a map of a reading \<open>f\<close> of its values: with the identity, the wrapping \<^verbatim>\<open>int64\<close> sum;
  with \<^const>\<open>sint\<close>, the sum of the true integers.
\<close>

definition sum_values :: "('v \<Rightarrow> 'w) \<Rightarrow> ('k, 'v::zero) fmap \<Rightarrow> 'w::comm_monoid_add" where
  "sum_values f m = (\<Sum>k \<in> fmdom' m. f (getz m k))"

lemma getz_empty [simp]: "getz fmempty k = 0"
  by (simp add: getz_def)

lemma getz_upd [simp]: "getz (fmupd k v m) x = (if x = k then v else getz m x)"
  by (simp add: getz_def)

lemma getz_addz: "getz (addz m k d) x = getz m x + (if x = k then d else (0 :: 'v::monoid_add))"
  by (simp add: addz_def)

lemma getz_subz: "getz (subz m k d) x = getz m x - (if x = k then d else (0 :: 'v::group_add))"
  by (simp add: subz_def)

lemma getz_notin: "k \<notin> fmdom' m \<Longrightarrow> getz m k = 0"
  by (simp add: getz_def fmlookup_dom'_iff option.case_eq_if)

lemma sum_values_empty [simp]: "sum_values f fmempty = 0"
  by (simp add: sum_values_def)

lemma sum_values_superset:
  assumes "f 0 = 0" "finite S" "fmdom' m \<subseteq> S"
  shows "sum_values f m = (\<Sum>k \<in> S. f (getz m k))"
  unfolding sum_values_def using assms by (intro sum.mono_neutral_left) (auto simp: getz_notin)

lemma sum_values_upd:
  fixes f :: "'v::zero \<Rightarrow> 'w::ab_group_add"
  assumes "f 0 = 0"
  shows "sum_values f (fmupd k v m) = sum_values f m + (f v - f (getz m k))"
proof -
  let ?S = "insert k (fmdom' m)"
  have "sum_values f (fmupd k v m) = f v + (\<Sum>x \<in> ?S - {k}. f (getz m x))"
    using assms by (subst sum_values_superset [where S = ?S]) (auto simp: sum.remove [of _ k])
  moreover have "sum_values f m = f (getz m k) + (\<Sum>x \<in> ?S - {k}. f (getz m x))"
    using assms by (subst sum_values_superset [where S = ?S]) (auto simp: sum.remove [of _ k])
  ultimately show ?thesis by simp
qed

lemma sum_values_addz:
  "sum_values (\<lambda>x. x) (addz m k d) = sum_values (\<lambda>x. x) m + (d :: 'v::ab_group_add)"
  by (simp add: addz_def sum_values_upd)

lemma sum_values_subz:
  "sum_values (\<lambda>x. x) (subz m k d) = sum_values (\<lambda>x. x) m - (d :: 'v::ab_group_add)"
  by (simp add: subz_def sum_values_upd)

lemma sum_values_cong:
  assumes "f 0 = 0" "\<And>k. getz m k = getz n k"
  shows "sum_values f m = sum_values f n"
proof -
  let ?S = "fmdom' m \<union> fmdom' n"
  have "sum_values f m = (\<Sum>k \<in> ?S. f (getz m k))" by (rule sum_values_superset) (use assms in auto)
  also have "\<dots> = (\<Sum>k \<in> ?S. f (getz n k))" using assms by simp
  also have "\<dots> = sum_values f n" by (rule sum_values_superset [symmetric]) (use assms in auto)
  finally show ?thesis .
qed

lemma fcard_fmdom_upd_le: "fcard (fmdom (fmupd k v m)) \<le> Suc (fcard (fmdom m))"
  by (simp add: fcard_finsert_if)

lemma fcard_fmdom_upd_new:
  "fmlookup m k = None \<Longrightarrow> fcard (fmdom (fmupd k v m)) = Suc (fcard (fmdom m))"
  by (simp add: fcard_finsert_if fmdom_notI)

lemma fcard_fmdom_upd_old:
  "fmlookup m k = Some w \<Longrightarrow> fcard (fmdom (fmupd k v m)) = fcard (fmdom m)"
  by (simp add: fmdomI finsert_absorb)

lemma fcard_fmdom_filter_le: "fcard (fmdom (fmfilter P m)) \<le> fcard (fmdom m)"
  by (intro fcard_mono) auto

lemma fcard_fmdom_drop_le: "fcard (fmdom (fmdrop k m)) \<le> fcard (fmdom m)"
  by (intro fcard_mono) auto

section \<open>Results\<close>

text \<open>
  A Go function returning \<^verbatim>\<open>(T, error)\<close> gives \<open>Inl err\<close> or \<open>Inr value\<close>: every caller in the program
  looks at the error first and ignores the value when there is one.
\<close>

type_synonym go_error = string
type_synonym 'a fallible = "go_error + 'a"

text \<open>A Connect error has a code; \<open>CodeOther\<close> stands for the codes no code of the program looks at.\<close>

datatype connect_code =
  CodeInvalidArgument | CodeNotFound | CodeUnimplemented | CodeUnavailable | CodeOther

type_synonym 'a response = "(connect_code \<times> go_error) + 'a"

end
