(* ===== verification/Ledger.thy ===== *)
theory Ledger
  imports GoStrings
begin

text \<open>
  The ledger package's vocabulary (\<^verbatim>\<open>services/bank/internal/ledger/ledger.go\<close>): accounts are named
  by strings, an amount is an \<^verbatim>\<open>int64\<close>, a transfer kind is a string. \<open>ledger_ops\<close> is the Go
  interface \<^verbatim>\<open>Ledger\<close>: a record of operations over a state \<open>'s\<close>, each taking an environment \<open>'e\<close>
  that holds what the call gets from outside the program (the fresh transfer id, the failures of
  the database). The locale \<open>ledger_contract\<close> is what every implementation promises: each
  operation either changes nothing or books a balanced group of journal rows.
\<close>

section \<open>Data\<close>

type_synonym Kind = string

definition TreasuryAccount :: string where "TreasuryAccount = ''treasury''"

definition KindWage :: Kind where "KindWage = ''WAGE''"
definition KindPurchase :: Kind where "KindPurchase = ''PURCHASE''"
definition KindIssuance :: Kind where "KindIssuance = ''ISSUANCE''"
definition KindEscheat :: Kind where "KindEscheat = ''ESCHEAT''"

record Credit =
  cr_Payee :: string
  cr_Amount :: i64

record Result =
  OK :: bool
  Reason :: string
  PayerBalance :: i64

record JournalEntry =
  TransferID :: string
  Account :: string
  Amount :: i64
  je_Kind :: Kind
  je_Tick :: u64

definition entry :: "string \<Rightarrow> string \<Rightarrow> i64 \<Rightarrow> Kind \<Rightarrow> u64 \<Rightarrow> JournalEntry" where
  "entry tid acct n k t =
     \<lparr>TransferID = tid, Account = acct, Amount = n, je_Kind = k, je_Tick = t\<rparr>"

definition insufficient :: "i64 \<Rightarrow> Result" where
  "insufficient b = \<lparr>OK = False, Reason = ''insufficient funds'', PayerBalance = b\<rparr>"

definition accepted :: "i64 \<Rightarrow> Result" where
  "accepted b = \<lparr>OK = True, Reason = [], PayerBalance = b\<rparr>"

definition credits_total :: "Credit list \<Rightarrow> i64" where
  "credits_total cs = fold (\<lambda>c total. total + cr_Amount c) cs 0"

lemma credits_total_eq: "credits_total cs = sum64 (map cr_Amount cs)"
  by (simp add: credits_total_def sum64_def fold_map comp_def)

record ('e, 's) ledger_ops =
  OpenAccount :: "'e \<Rightarrow> 's \<Rightarrow> string \<Rightarrow> i64 fallible \<times> 's"
  Transfer :: "'e \<Rightarrow> 's \<Rightarrow> string \<Rightarrow> string \<Rightarrow> i64 \<Rightarrow> Kind \<Rightarrow> u64 \<Rightarrow> Result fallible \<times> 's"
  BatchTransfer :: "'e \<Rightarrow> 's \<Rightarrow> string \<Rightarrow> Credit list \<Rightarrow> Kind \<Rightarrow> u64 \<Rightarrow> Result fallible \<times> 's"
  Post :: "'e \<Rightarrow> 's \<Rightarrow> string \<Rightarrow> string \<Rightarrow> string \<Rightarrow> i64 \<Rightarrow> Kind \<Rightarrow> u64 \<Rightarrow> unit fallible \<times> 's"
  GetBalance :: "'e \<Rightarrow> 's \<Rightarrow> string \<Rightarrow> i64 fallible \<times> 's"

section \<open>Double entry\<close>

text \<open>A balance is a fold over the journal; the whole journal sums to zero.\<close>

definition journal_balance :: "JournalEntry list \<Rightarrow> string \<Rightarrow> i64" where
  "journal_balance j a = sum_list (map Amount (filter (\<lambda>e. Account e = a) j))"

definition journal_total :: "JournalEntry list \<Rightarrow> i64" where
  "journal_total j = sum_list (map Amount j)"

lemma journal_simps [simp]:
  "journal_balance [] a = 0"
  "journal_balance (e # j) a = (if Account e = a then Amount e else 0) + journal_balance j a"
  "journal_balance (j1 @ j2) a = journal_balance j1 a + journal_balance j2 a"
  "journal_total [] = 0"
  "journal_total (e # j) = Amount e + journal_total j"
  "journal_total (j1 @ j2) = journal_total j1 + journal_total j2"
  by (simp_all add: journal_balance_def journal_total_def)

lemma entry_sel [simp]:
  "TransferID (entry i a n k t) = i" "Account (entry i a n k t) = a" "Amount (entry i a n k t) = n"
  "je_Kind (entry i a n k t) = k" "je_Tick (entry i a n k t) = t"
  by (simp_all add: entry_def)

text \<open>The rows a transfer and a batch write: one debit, then one credit per payee.\<close>

definition transfer_rows :: "string \<Rightarrow> string \<Rightarrow> string \<Rightarrow> i64 \<Rightarrow> Kind \<Rightarrow> u64 \<Rightarrow> JournalEntry list" where
  "transfer_rows tid payer payee n k t = [entry tid payer (- n) k t, entry tid payee n k t]"

definition batch_rows :: "string \<Rightarrow> string \<Rightarrow> Credit list \<Rightarrow> Kind \<Rightarrow> u64 \<Rightarrow> JournalEntry list" where
  "batch_rows tid payer cs k t =
     entry tid payer (- credits_total cs) k t
     # map (\<lambda>c. entry tid (cr_Payee c) (cr_Amount c) k t) cs"

lemma transfer_rows_total [simp]: "journal_total (transfer_rows i p q n k t) = 0"
  by (simp add: transfer_rows_def)

lemma journal_total_credits:
  "journal_total (map (\<lambda>c. entry i (cr_Payee c) (cr_Amount c) k t) cs) = credits_total cs"
  by (simp add: journal_total_def credits_total_eq sum64_eq comp_def)

lemma batch_rows_total [simp]: "journal_total (batch_rows i p cs k t) = 0"
  by (simp add: batch_rows_def journal_total_credits)

text \<open>
  \<open>books b j es b' j'\<close>: going from balances \<open>b\<close> and journal \<open>j\<close> to \<open>b'\<close> and \<open>j'\<close> appended the rows
  \<open>es\<close>, which sum to zero, and moved every balance by exactly its rows.
\<close>

definition books ::
  "(string \<Rightarrow> i64) \<Rightarrow> JournalEntry list \<Rightarrow> JournalEntry list \<Rightarrow> (string \<Rightarrow> i64) \<Rightarrow> JournalEntry list \<Rightarrow> bool"
where
  "books b j es b' j' \<longleftrightarrow>
     j' = j @ es \<and> (\<forall>a. b' a = b a + journal_balance es a) \<and> journal_total es = 0"

definition balanced :: "(string \<Rightarrow> i64) \<Rightarrow> JournalEntry list \<Rightarrow> bool" where
  "balanced b j \<longleftrightarrow> (\<forall>a. b a = journal_balance j a) \<and> journal_total j = 0"

lemma books_refl: "books b j [] b j"
  by (simp add: books_def)

lemma books_balanced: "books b j es b' j' \<Longrightarrow> balanced b j \<Longrightarrow> balanced b' j'"
  by (simp add: books_def balanced_def)

section \<open>The contract of a ledger\<close>

text \<open>
  \<open>keep\<close> holds of the states an implementation can be in. \<open>bal\<close> and \<open>jour\<close> read the balances and
  the journal rows of a state. The laws: reads change neither; every write keeps the invariant and
  books balanced rows (possibly none); a write that moved money out of a non-treasury account was
  covered by it.
\<close>

locale ledger_contract =
  fixes L :: "('e, 's) ledger_ops"
    and bal :: "'s \<Rightarrow> string \<Rightarrow> i64"
    and jour :: "'s \<Rightarrow> JournalEntry list"
    and keep :: "'s \<Rightarrow> bool"
  assumes open_reads: "keep s \<Longrightarrow> OpenAccount L e s a = (r, s') \<Longrightarrow>
      keep s' \<and> bal s' = bal s \<and> jour s' = jour s \<and> (\<forall>b. r = Inr b \<longrightarrow> b = bal s a)"
    and get_reads: "keep s \<Longrightarrow> GetBalance L e s a = (r, s') \<Longrightarrow>
      s' = s \<and> (\<forall>b. r = Inr b \<longrightarrow> b = bal s a)"
    and transfer_books: "keep s \<Longrightarrow> Transfer L e s p q n k t = (rt, s') \<Longrightarrow>
      keep s' \<and> (bal s' = bal s \<and> jour s' = jour s \<or>
        (p = TreasuryAccount \<or> sint n \<le> sint (bal s p)) \<and>
        (\<exists>i. books (bal s) (jour s) (transfer_rows i p q n k t) (bal s') (jour s')))"
    and batch_books: "keep s \<Longrightarrow> BatchTransfer L e s p cs k t = (rt, s') \<Longrightarrow>
      keep s' \<and> (bal s' = bal s \<and> jour s' = jour s \<or>
        (p = TreasuryAccount \<or> sint (credits_total cs) \<le> sint (bal s p)) \<and>
        (\<exists>i. books (bal s) (jour s) (batch_rows i p cs k t) (bal s') (jour s')))"
    and post_books: "keep s \<Longrightarrow> Post L e s i p q n k t = (ru, s') \<Longrightarrow>
      keep s' \<and> (bal s' = bal s \<and> jour s' = jour s \<or>
        books (bal s) (jour s) (transfer_rows i p q n k t) (bal s') (jour s'))"
    and refusal_reads: "keep s \<Longrightarrow> Transfer L e s p q n k t = (Inr res, s') \<Longrightarrow> \<not> OK res \<Longrightarrow>
      bal s' = bal s \<and> jour s' = jour s"
begin

lemma open_balanced:
  "keep s \<Longrightarrow> balanced (bal s) (jour s) \<Longrightarrow> OpenAccount L e s a = (r, s') \<Longrightarrow>
    keep s' \<and> balanced (bal s') (jour s')"
  by (drule (1) open_reads) simp

lemma get_balanced:
  "keep s \<Longrightarrow> balanced (bal s) (jour s) \<Longrightarrow> GetBalance L e s a = (r, s') \<Longrightarrow>
    keep s' \<and> balanced (bal s') (jour s')"
  by (frule (1) get_reads) simp

lemma transfer_balanced:
  "keep s \<Longrightarrow> balanced (bal s) (jour s) \<Longrightarrow> Transfer L e s p q n k t = (rt, s') \<Longrightarrow>
    keep s' \<and> balanced (bal s') (jour s')"
  by (drule (1) transfer_books) (auto dest: books_balanced)

lemma batch_balanced:
  "keep s \<Longrightarrow> balanced (bal s) (jour s) \<Longrightarrow> BatchTransfer L e s p cs k t = (rt, s') \<Longrightarrow>
    keep s' \<and> balanced (bal s') (jour s')"
  by (drule (1) batch_books) (auto dest: books_balanced)

lemma post_balanced:
  "keep s \<Longrightarrow> balanced (bal s) (jour s) \<Longrightarrow> Post L e s i p q n k t = (ru, s') \<Longrightarrow>
    keep s' \<and> balanced (bal s') (jour s')"
  by (drule (1) post_books) (auto dest: books_balanced)

lemmas ops_balanced = open_balanced get_balanced transfer_balanced batch_balanced post_balanced

end

end
