(* ===== verification/LedgerPostgres.thy ===== *)
theory LedgerPostgres
  imports Ledger
begin

text \<open>
  The database ledger (\<^verbatim>\<open>services/bank/internal/ledger/postgres.go\<close>). The state is the three tables
  of the migration; each SQL text of the file is one statement on them, with the meaning the schema
  and standard SQL give it: \<^verbatim>\<open>BIGINT\<close> arithmetic that leaves the 64-bit range fails, a
  \<^verbatim>\<open>uint64\<close> tick past the \<^verbatim>\<open>BIGINT\<close> range cannot be sent, a duplicate primary key fails, or is
  skipped under \<^verbatim>\<open>ON CONFLICT DO NOTHING\<close>.

  What the program gets from outside in one call is \<open>pg_env\<close>: whether \<^verbatim>\<open>Begin\<close> failed, which of the
  statements fail (by their number in the transaction, for any reason at all), how \<^verbatim>\<open>Commit\<close> ended,
  and the fresh uuid. A failed commit may or may not have reached the disk: \<open>CommitLost\<close> is the
  commit that was applied and reported as failed. A transaction that does not commit is rolled back
  by the deferred \<^verbatim>\<open>Rollback\<close>; gaps it leaves in the row numbers are not represented, since nothing
  reads those numbers. Here a transaction runs with no other beside it; \<open>PostgresLocks\<close> has the row locks
  that transactions wait for and \<open>PostgresOverlaps\<close> transactions that overlap.
\<close>

section \<open>Tables\<close>

record pgdb =
  accounts :: "(string, i64) fmap"
  journal_rows :: "(nat \<times> JournalEntry) list"
  journal_seq :: nat
  idempotency :: "(string \<times> string \<times> u64 \<times> Kind, Result) fmap"

definition emptyDB :: pgdb where
  "emptyDB = \<lparr>accounts = fmempty, journal_rows = [], journal_seq = 1, idempotency = fmempty\<rparr>"

section \<open>Statements and transactions\<close>

datatype commit_outcome = Committed | CommitFailed go_error | CommitLost go_error

record pg_env =
  begin_error :: "go_error option"
  stmt_errors :: "nat \<Rightarrow> go_error option"
  commit_outcome :: commit_outcome
  new_uuid :: string

type_synonym 'a sql = "pgdb \<Rightarrow> go_error + 'a \<times> pgdb"
type_synonym 'a tx = "(nat \<Rightarrow> go_error option) \<Rightarrow> nat \<Rightarrow> pgdb \<Rightarrow> go_error + 'a \<times> nat \<times> pgdb"

definition tx_return :: "'a \<Rightarrow> 'a tx" where
  "tx_return x = (\<lambda>f n d. Inr (x, n, d))"

definition tx_bind :: "'a tx \<Rightarrow> ('a \<Rightarrow> 'b tx) \<Rightarrow> 'b tx" where
  "tx_bind m g = (\<lambda>f n d. case m f n d of Inl e \<Rightarrow> Inl e | Inr (x, n', d') \<Rightarrow> g x f n' d')"

text \<open>One round trip: the \<open>n\<close>-th statement fails if the environment says so, or if its SQL does.\<close>

definition stmt :: "'a sql \<Rightarrow> 'a tx" where
  "stmt q = (\<lambda>f n d. case f n of Some e \<Rightarrow> Inl e
      | None \<Rightarrow> (case q d of Inl e \<Rightarrow> Inl e | Inr (x, d') \<Rightarrow> Inr (x, Suc n, d')))"

text \<open>
  \<^verbatim>\<open>Begin\<close>, the body, and its end: the body says whether it ended in \<^verbatim>\<open>tx.Commit\<close> (\<open>True\<close>) or in a
  plain return, which the deferred \<^verbatim>\<open>Rollback\<close> turns into no change.
\<close>

definition run_tx :: "pg_env \<Rightarrow> pgdb \<Rightarrow> ('a \<times> bool) tx \<Rightarrow> 'a fallible \<times> pgdb" where
  "run_tx e d body =
     (case begin_error e of Some er \<Rightarrow> (Inl er, d)
      | None \<Rightarrow>
        (case body (stmt_errors e) 0 d of
           Inl er \<Rightarrow> (Inl er, d)
         | Inr ((x, commit), _, d') \<Rightarrow>
             if \<not> commit then (Inr x, d)
             else (case commit_outcome e of
                     Committed \<Rightarrow> (Inr x, d')
                   | CommitFailed er \<Rightarrow> (Inl er, d)
                   | CommitLost er \<Rightarrow> (Inl er, d'))))"

text \<open>\<^verbatim>\<open>INSERT INTO bank.accounts (id, balance) VALUES ($1, 0) ON CONFLICT DO NOTHING\<close>\<close>

definition sql_ensure :: "string \<Rightarrow> unit sql" where
  "sql_ensure a d =
     Inr ((), case fmlookup (accounts d) a of Some _ \<Rightarrow> d
              | None \<Rightarrow> d\<lparr>accounts := fmupd a 0 (accounts d)\<rparr>)"

text \<open>\<^verbatim>\<open>SELECT balance FROM bank.accounts WHERE id = $1 FOR UPDATE\<close>, scanned into one value.\<close>

definition sql_lock :: "string \<Rightarrow> i64 sql" where
  "sql_lock a d = (case fmlookup (accounts d) a of
      None \<Rightarrow> Inl ''no rows in result set'' | Some b \<Rightarrow> Inr (b, d))"

text \<open>\<^verbatim>\<open>UPDATE bank.accounts SET balance = balance +/- $1 WHERE id = $2\<close>: no row, no effect.\<close>

definition sql_add :: "i64 \<Rightarrow> string \<Rightarrow> unit sql" where
  "sql_add n a d = (case fmlookup (accounts d) a of
      None \<Rightarrow> Inr ((), d)
    | Some b \<Rightarrow> if fits64 (sint b + sint n)
                then Inr ((), d\<lparr>accounts := fmupd a (b + n) (accounts d)\<rparr>)
                else Inl ''bigint out of range'')"

definition sql_sub :: "i64 \<Rightarrow> string \<Rightarrow> unit sql" where
  "sql_sub n a d = (case fmlookup (accounts d) a of
      None \<Rightarrow> Inr ((), d)
    | Some b \<Rightarrow> if fits64 (sint b - sint n)
                then Inr ((), d\<lparr>accounts := fmupd a (b - n) (accounts d)\<rparr>)
                else Inl ''bigint out of range'')"

definition tick_ok :: "u64 \<Rightarrow> bool" where
  "tick_ok t \<longleftrightarrow> unat t < 2 ^ 63"

text \<open>
  One row of an \<^verbatim>\<open>INSERT INTO bank.journal\<close>: its \<^verbatim>\<open>id\<close> is the next number of the sequence, and the
  primary key on \<^verbatim>\<open>id\<close> is the only unique index of the table. The plain form fails on a duplicate
  key, the \<^verbatim>\<open>ON CONFLICT DO NOTHING\<close> form skips the row; both count the rows they wrote.
\<close>

fun sql_journal :: "bool \<Rightarrow> JournalEntry list \<Rightarrow> nat \<Rightarrow> nat sql" where
  "sql_journal skip [] cnt d = Inr (cnt, d)"
| "sql_journal skip (r # rs) cnt d =
     (if \<not> tick_ok (je_Tick r) then Inl ''tick is greater than maximum value for int8''
      else if journal_seq d \<in> set (map fst (journal_rows d)) then
        (if skip then sql_journal skip rs cnt (d\<lparr>journal_seq := Suc (journal_seq d)\<rparr>)
         else Inl ''duplicate key value violates unique constraint'')
      else sql_journal skip rs (Suc cnt)
        (d\<lparr>journal_rows := journal_rows d @ [(journal_seq d, r)], journal_seq := Suc (journal_seq d)\<rparr>))"

definition sql_lookup_idempotent :: "string \<Rightarrow> string \<Rightarrow> u64 \<Rightarrow> Kind \<Rightarrow> Result option sql" where
  "sql_lookup_idempotent payer payee tick kind d =
     (if \<not> tick_ok tick then Inl ''tick is greater than maximum value for int8''
      else Inr (fmlookup (idempotency d) (payer, payee, tick, kind), d))"

definition sql_record_idempotent :: "string \<Rightarrow> string \<Rightarrow> u64 \<Rightarrow> Kind \<Rightarrow> Result \<Rightarrow> unit sql" where
  "sql_record_idempotent payer payee tick kind r d =
     (if \<not> tick_ok tick then Inl ''tick is greater than maximum value for int8''
      else case fmlookup (idempotency d) (payer, payee, tick, kind) of
        Some _ \<Rightarrow> Inl ''duplicate key value violates unique constraint''
      | None \<Rightarrow> Inr ((), d\<lparr>idempotency := fmupd (payer, payee, tick, kind) r (idempotency d)\<rparr>))"

section \<open>The methods\<close>

definition ensureAccount :: "string \<Rightarrow> unit tx" where
  "ensureAccount accountID = stmt (sql_ensure accountID)"

definition lockAccount :: "string \<Rightarrow> i64 tx" where
  "lockAccount accountID = stmt (sql_lock accountID)"

definition lookupIdempotent :: "string \<Rightarrow> string \<Rightarrow> u64 \<Rightarrow> Kind \<Rightarrow> Result option tx" where
  "lookupIdempotent payer payee tick kind = stmt (sql_lookup_idempotent payer payee tick kind)"

definition recordIdempotent :: "string \<Rightarrow> string \<Rightarrow> u64 \<Rightarrow> Kind \<Rightarrow> Result \<Rightarrow> unit tx" where
  "recordIdempotent payer payee tick kind r = stmt (sql_record_idempotent payer payee tick kind r)"

text \<open>Strings are compared byte by byte, as \<^verbatim>\<open>sort.Strings\<close> does.\<close>

fun string_le :: "string \<Rightarrow> string \<Rightarrow> bool" where
  "string_le [] ys = True"
| "string_le (x # xs) [] = False"
| "string_le (x # xs) (y # ys) =
     (if x = y then string_le xs ys else (of_char x :: nat) < of_char y)"

definition lockOrder :: "string \<Rightarrow> string \<Rightarrow> string list" where
  "lockOrder a b = (if a = b then [a] else if string_le a b then [a, b] else [b, a])"

text \<open>The loop \<^verbatim>\<open>for _, id := range lockOrder(payer, payee)\<close>, collecting the balances it locked.\<close>

fun lock_all :: "string list \<Rightarrow> (string, i64) fmap \<Rightarrow> (string, i64) fmap tx" where
  "lock_all [] bs = tx_return bs"
| "lock_all (i # is) bs =
     tx_bind (ensureAccount i) (\<lambda>_.
     tx_bind (lockAccount i) (\<lambda>b.
     lock_all is (fmupd i b bs)))"

definition transfer_locked_tx :: "string \<Rightarrow> string \<Rightarrow> string \<Rightarrow> i64 \<Rightarrow> Kind \<Rightarrow> u64 \<Rightarrow> (Result \<times> bool) tx" where
  "transfer_locked_tx transferID payer payee amount kind tick =
     tx_bind (lock_all (lockOrder payer payee) fmempty) (\<lambda>locked.
     let payerBalance = getz locked payer in
     if payer \<noteq> TreasuryAccount \<and> sint payerBalance < sint amount
     then tx_return (insufficient payerBalance, False)
     else
       tx_bind (stmt (sql_sub amount payer)) (\<lambda>_.
       tx_bind (stmt (sql_add amount payee)) (\<lambda>_.
       tx_bind (stmt (sql_journal False
           [entry transferID payer (- amount) kind tick, entry transferID payee amount kind tick] 0)) (\<lambda>_.
       let r = accepted (payerBalance - amount) in
       tx_bind (recordIdempotent payer payee tick kind r) (\<lambda>_.
       tx_return (r, True))))))"

definition transfer_tx :: "string \<Rightarrow> string \<Rightarrow> string \<Rightarrow> i64 \<Rightarrow> Kind \<Rightarrow> u64 \<Rightarrow> (Result \<times> bool) tx" where
  "transfer_tx transferID payer payee amount kind tick =
     tx_bind (lookupIdempotent payer payee tick kind) (\<lambda>seen.
     case seen of Some r \<Rightarrow> tx_return (r, False)
     | None \<Rightarrow> transfer_locked_tx transferID payer payee amount kind tick)"

definition Postgres_Transfer ::
  "pg_env \<Rightarrow> pgdb \<Rightarrow> string \<Rightarrow> string \<Rightarrow> i64 \<Rightarrow> Kind \<Rightarrow> u64 \<Rightarrow> Result fallible \<times> pgdb"
where
  "Postgres_Transfer e d payer payee amount kind tick =
     run_tx e d (transfer_tx (new_uuid e) payer payee amount kind tick)"

definition post_tx :: "string \<Rightarrow> string \<Rightarrow> string \<Rightarrow> i64 \<Rightarrow> Kind \<Rightarrow> u64 \<Rightarrow> (unit \<times> bool) tx" where
  "post_tx transferID payer payee amount kind tick =
     tx_bind (lock_all (lockOrder payer payee) fmempty) (\<lambda>_.
     tx_bind (stmt (sql_journal True
         [entry transferID payer (- amount) kind tick, entry transferID payee amount kind tick] 0)) (\<lambda>affected.
     if affected = 0 then tx_return ((), True)
     else
       tx_bind (stmt (sql_sub amount payer)) (\<lambda>_.
       tx_bind (stmt (sql_add amount payee)) (\<lambda>_.
       tx_return ((), True)))))"

definition Postgres_Post ::
  "pg_env \<Rightarrow> pgdb \<Rightarrow> string \<Rightarrow> string \<Rightarrow> string \<Rightarrow> i64 \<Rightarrow> Kind \<Rightarrow> u64 \<Rightarrow> unit fallible \<times> pgdb"
where
  "Postgres_Post e d transferID payer payee amount kind tick =
     run_tx e d (post_tx transferID payer payee amount kind tick)"

fun credit_all :: "string \<Rightarrow> Kind \<Rightarrow> u64 \<Rightarrow> Credit list \<Rightarrow> unit tx" where
  "credit_all transferID kind tick [] = tx_return ()"
| "credit_all transferID kind tick (c # cs) =
     tx_bind (ensureAccount (cr_Payee c)) (\<lambda>_.
     tx_bind (stmt (sql_add (cr_Amount c) (cr_Payee c))) (\<lambda>_.
     tx_bind (stmt (sql_journal False
         [entry transferID (cr_Payee c) (cr_Amount c) kind tick] 0)) (\<lambda>_.
     credit_all transferID kind tick cs)))"

definition batch_locked_tx :: "string \<Rightarrow> string \<Rightarrow> Credit list \<Rightarrow> Kind \<Rightarrow> u64 \<Rightarrow> (Result \<times> bool) tx" where
  "batch_locked_tx transferID payer credits kind tick =
     tx_bind (ensureAccount payer) (\<lambda>_.
     tx_bind (lockAccount payer) (\<lambda>payerBalance.
     let total = credits_total credits in
     if payer \<noteq> TreasuryAccount \<and> sint payerBalance < sint total
     then tx_return (insufficient payerBalance, False)
     else
       tx_bind (stmt (sql_sub total payer)) (\<lambda>_.
       tx_bind (stmt (sql_journal False [entry transferID payer (- total) kind tick] 0)) (\<lambda>_.
       tx_bind (credit_all transferID kind tick credits) (\<lambda>_.
       let r = accepted (payerBalance - total) in
       tx_bind (recordIdempotent payer ''batch'' tick kind r) (\<lambda>_.
       tx_return (r, True)))))))"

definition batch_tx :: "string \<Rightarrow> string \<Rightarrow> Credit list \<Rightarrow> Kind \<Rightarrow> u64 \<Rightarrow> (Result \<times> bool) tx" where
  "batch_tx transferID payer credits kind tick =
     tx_bind (lookupIdempotent payer ''batch'' tick kind) (\<lambda>seen.
     case seen of Some r \<Rightarrow> tx_return (r, False)
     | None \<Rightarrow> batch_locked_tx transferID payer credits kind tick)"

definition Postgres_BatchTransfer ::
  "pg_env \<Rightarrow> pgdb \<Rightarrow> string \<Rightarrow> Credit list \<Rightarrow> Kind \<Rightarrow> u64 \<Rightarrow> Result fallible \<times> pgdb"
where
  "Postgres_BatchTransfer e d payer credits kind tick =
     run_tx e d (batch_tx (new_uuid e) payer credits kind tick)"

text \<open>Single statements on the pool, each its own transaction.\<close>

definition Postgres_OpenAccount :: "pg_env \<Rightarrow> pgdb \<Rightarrow> string \<Rightarrow> i64 fallible \<times> pgdb" where
  "Postgres_OpenAccount e d accountID =
     (case stmt_errors e 0 of Some er \<Rightarrow> (Inl er, d)
      | None \<Rightarrow> (case fmlookup (accounts d) accountID of
          Some b \<Rightarrow> (Inr b, d)
        | None \<Rightarrow> (Inr 0, d\<lparr>accounts := fmupd accountID 0 (accounts d)\<rparr>)))"

definition Postgres_GetBalance :: "pg_env \<Rightarrow> pgdb \<Rightarrow> string \<Rightarrow> i64 fallible \<times> pgdb" where
  "Postgres_GetBalance e d accountID =
     (case stmt_errors e 0 of Some er \<Rightarrow> (Inl er, d)
      | None \<Rightarrow> (case fmlookup (accounts d) accountID of
          None \<Rightarrow> (Inr 0, d) | Some b \<Rightarrow> (Inr b, d)))"

definition PostgresLedger :: "(pg_env, pgdb) ledger_ops" where
  "PostgresLedger = \<lparr>
     OpenAccount = Postgres_OpenAccount,
     Transfer = Postgres_Transfer,
     BatchTransfer = Postgres_BatchTransfer,
     Post = Postgres_Post,
     GetBalance = Postgres_GetBalance\<rparr>"

section \<open>Failures only ever abort\<close>

text \<open>
  The effect of a transaction body when no statement fails from outside is a plain function on the
  tables. \<open>tx_computes m h\<close>: under any failures at all, \<open>m\<close> gives exactly what \<open>h\<close> gives, or some
  failure was scheduled and \<open>m\<close> is an error.
\<close>

definition sql_bind :: "'a sql \<Rightarrow> ('a \<Rightarrow> 'b sql) \<Rightarrow> 'b sql" where
  "sql_bind h k = (\<lambda>d. case h d of Inl e \<Rightarrow> Inl e | Inr (x, d') \<Rightarrow> k x d')"

definition tx_computes :: "'a tx \<Rightarrow> 'a sql \<Rightarrow> bool" where
  "tx_computes m h \<longleftrightarrow> (\<forall>f n d.
     (\<exists>i er. f i = Some er) \<and> (\<exists>er. m f n d = Inl er)
     \<or> map_sum id (\<lambda>(x, _, d'). (x, d')) (m f n d) = h d)"

named_theorems computes \<open>what a transaction computes, piece by piece\<close>

lemma computes_return [computes]: "tx_computes (tx_return x) (\<lambda>d. Inr (x, d))"
  by (simp add: tx_computes_def tx_return_def)

lemma computes_stmt [computes]: "tx_computes (stmt q) q"
  by (auto simp: tx_computes_def stmt_def split: option.splits sum.splits)

lemma computes_bind [computes]:
  assumes "tx_computes m h" and "\<And>x. tx_computes (g x) (k x)"
  shows "tx_computes (tx_bind m g) (sql_bind h k)"
  unfolding tx_computes_def
proof (intro allI)
  fix f :: "nat \<Rightarrow> go_error option" and n d
  let ?bad = "\<exists>i er. f i = Some er"
  have m: "?bad \<and> (\<exists>er. m f n d = Inl er) \<or> map_sum id (\<lambda>(x, _, d'). (x, d')) (m f n d) = h d"
    using assms(1) unfolding tx_computes_def by blast
  show "?bad \<and> (\<exists>er. tx_bind m g f n d = Inl er) \<or>
      map_sum id (\<lambda>(x, _, d'). (x, d')) (tx_bind m g f n d) = sql_bind h k d"
  proof (cases "m f n d")
    case (Inl er)
    with m show ?thesis by (auto simp: tx_bind_def sql_bind_def split: sum.splits)
  next
    case (Inr y)
    then obtain x n' d' where y: "m f n d = Inr (x, n', d')" by (cases y) auto
    with m have h: "h d = Inr (x, d')" by auto
    have "?bad \<and> (\<exists>er. g x f n' d' = Inl er) \<or>
        map_sum id (\<lambda>(x, _, d'). (x, d')) (g x f n' d') = k x d'"
      using assms(2) [of x] unfolding tx_computes_def by blast
    with y h show ?thesis by (simp add: tx_bind_def sql_bind_def)
  qed
qed

lemma computes_option [computes]:
  assumes "\<And>r. tx_computes (m r) (h r)" and "tx_computes m0 h0"
  shows "tx_computes (case z of None \<Rightarrow> m0 | Some r \<Rightarrow> m r) (\<lambda>d. case z of None \<Rightarrow> h0 d | Some r \<Rightarrow> h r d)"
  using assms by (cases z) simp_all

lemma computes_if [computes]:
  assumes "tx_computes m h" and "tx_computes m' h'"
  shows "tx_computes (if b then m else m') (\<lambda>d. if b then h d else h' d)"
  using assms by simp

text \<open>
  What any run of a transaction leaves: nothing changed and an error; a plain return and nothing
  changed; or the whole effect, whatever the caller was told about it.
\<close>

lemma run_tx_body:
  assumes "begin_error e = None" and "m (stmt_errors e) 0 d = Inr ((x, c), n', d1)"
  shows "run_tx e d m = (if c then (case commit_outcome e of Committed \<Rightarrow> (Inr x, d1)
    | CommitFailed er \<Rightarrow> (Inl er, d) | CommitLost er \<Rightarrow> (Inl er, d1)) else (Inr x, d))"
  using assms by (simp add: run_tx_def)

lemma run_tx_outcome:
  assumes "tx_computes m h" and run: "run_tx e d m = (r, d')"
  obtains (aborted) er where "r = Inl er" "d' = d"
  | (returned) x d1 where "h d = Inr ((x, False), d1)" "r = Inr x" "d' = d"
  | (committed) x where "h d = Inr ((x, True), d')" "r = Inr x \<or> (\<exists>er. r = Inl er)"
proof (cases "begin_error e")
  case (Some er)
  with run have "r = Inl er" "d' = d" by (simp_all add: run_tx_def)
  then show ?thesis by (rule aborted)
next
  case None
  show ?thesis
  proof (cases "m (stmt_errors e) 0 d")
    case (Inl er)
    with None run have "r = Inl er" "d' = d" by (simp_all add: run_tx_def)
    then show ?thesis by (rule aborted)
  next
    case (Inr y)
    then obtain x c n' d1 where y: "m (stmt_errors e) 0 d = Inr ((x, c), n', d1)" by (cases y) auto
    note go = run [unfolded run_tx_body [where e = e and m = m and d = d, OF None y]]
    have "(\<exists>er. m (stmt_errors e) 0 d = Inl er) \<or>
        map_sum id (\<lambda>(x, _, d'). (x, d')) (m (stmt_errors e) 0 d) = h d"
      using assms(1) unfolding tx_computes_def by blast
    with y have h: "h d = Inr ((x, c), d1)" by simp
    show ?thesis
    proof (cases "c \<and> (\<forall>er. commit_outcome e \<noteq> CommitFailed er)")
      case True
      then have "d' = d1" and r: "r = Inr x \<or> (\<exists>er. r = Inl er)"
        using go by (cases "commit_outcome e"; auto)+
      with h True have "h d = Inr ((x, True), d')" by simp
      then show ?thesis using r by (rule committed)
    next
      case False
      show ?thesis
      proof (cases c)
        case True
        with False obtain er where "commit_outcome e = CommitFailed er" by auto
        with go True have "r = Inl er" "d' = d" by simp_all
        then show ?thesis by (rule aborted)
      next
        case False
        with go have "r = Inr x" "d' = d" by simp_all
        with h False show ?thesis using returned [of x d1] by simp
      qed
    qed
  qed
qed

text \<open>A run nothing disturbs.\<close>

definition clean :: "pg_env \<Rightarrow> bool" where
  "clean e \<longleftrightarrow> begin_error e = None \<and> (\<forall>n. stmt_errors e n = None) \<and> commit_outcome e = Committed"

lemma run_tx_clean:
  assumes "tx_computes m h" and "clean e"
  shows "run_tx e d m =
    (case h d of Inl er \<Rightarrow> (Inl er, d) | Inr ((x, c), d') \<Rightarrow> (Inr x, if c then d' else d))"
proof -
  have h: "h d = map_sum id (\<lambda>(x, _, d'). (x, d')) (m (stmt_errors e) 0 d)"
  proof -
    have "(\<exists>i er. stmt_errors e i = Some er) \<and> (\<exists>er. m (stmt_errors e) 0 d = Inl er)
        \<or> map_sum id (\<lambda>(x, _, d'). (x, d')) (m (stmt_errors e) 0 d) = h d"
      using assms(1) unfolding tx_computes_def by blast
    moreover have "\<not> (\<exists>i er. stmt_errors e i = Some er)"
      using assms(2) by (simp add: clean_def)
    ultimately show ?thesis by argo
  qed
  show ?thesis
    using assms(2) unfolding h
    by (cases "m (stmt_errors e) 0 d") (auto simp: run_tx_def clean_def)
qed

section \<open>The effect of each method on the tables\<close>


fun lock_sql :: "string list \<Rightarrow> (string, i64) fmap \<Rightarrow> (string, i64) fmap sql" where
  "lock_sql [] bs = (\<lambda>d. Inr (bs, d))"
| "lock_sql (i # is) bs =
     sql_bind (sql_ensure i) (\<lambda>_. sql_bind (sql_lock i) (\<lambda>b. lock_sql is (fmupd i b bs)))"

lemma computes_lock_all [computes]: "tx_computes (lock_all is bs) (lock_sql is bs)"
  by (induction "is" bs rule: lock_all.induct)
     (auto simp: ensureAccount_def lockAccount_def intro!: computes)

lemma getz_accounts_ensure:
  "sql_ensure a d = Inr ((), d\<lparr>accounts := if a \<in> fmdom' (accounts d) then accounts d
     else fmupd a 0 (accounts d)\<rparr>)"
  by (auto simp: sql_ensure_def fmlookup_dom'_iff split: option.splits)

text \<open>Locking opens missing accounts at zero and reads every balance as it was.\<close>

lemma lock_sql_run:
  "\<exists>bs' A. lock_sql is bs d = Inr (bs', d\<lparr>accounts := A\<rparr>)
     \<and> (\<forall>a. getz A a = getz (accounts d) a)
     \<and> set is \<union> fmdom' (accounts d) \<subseteq> fmdom' A
     \<and> (\<forall>i. getz bs' i = (if i \<in> set is then getz (accounts d) i else getz bs i))"
proof (induction "is" arbitrary: bs d)
  case Nil
  show ?case by (rule exI [of _ bs], rule exI [of _ "accounts d"]) simp
next
  case (Cons i "is")
  let ?A = "if i \<in> fmdom' (accounts d) then accounts d else fmupd i 0 (accounts d)"
  let ?d = "d\<lparr>accounts := ?A\<rparr>"
  have same: "getz ?A a = getz (accounts d) a" for a
    by (auto simp: getz_notin)
  have look: "fmlookup ?A i = Some (getz (accounts d) i)"
    by (auto simp: getz_def fmlookup_dom'_iff)
  obtain bs' A where IH: "lock_sql is (fmupd i (getz (accounts d) i) bs) ?d = Inr (bs', ?d\<lparr>accounts := A\<rparr>)"
      "\<forall>a. getz A a = getz ?A a" "set is \<union> fmdom' ?A \<subseteq> fmdom' A"
      "\<forall>j. getz bs' j = (if j \<in> set is then getz ?A j else getz (fmupd i (getz (accounts d) i) bs) j)"
    using Cons.IH [of "fmupd i (getz (accounts d) i) bs" ?d] by auto
  have "lock_sql (i # is) bs d = Inr (bs', d\<lparr>accounts := A\<rparr>)"
    using IH(1) by (simp add: sql_bind_def getz_accounts_ensure sql_lock_def look)
  moreover have "set (i # is) \<union> fmdom' (accounts d) \<subseteq> fmdom' A"
    using IH(3) by (auto split: if_splits)
  moreover have "\<forall>j. getz bs' j = (if j \<in> set (i # is) then getz (accounts d) j else getz bs j)"
    using IH(4) by (simp only: same) simp
  ultimately show ?case using IH(2) unfolding same by blast
qed

lemma set_lockOrder [simp]: "set (lockOrder p q) = {p, q}"
  by (auto simp: lockOrder_def)

text \<open>The row numbers of the journal are always below the sequence, so an insert never conflicts.\<close>

definition seq_ok :: "pgdb \<Rightarrow> bool" where
  "seq_ok d \<longleftrightarrow> (\<forall>i \<in> set (map fst (journal_rows d)). i < journal_seq d)"

lemma seq_ok_emptyDB [simp]: "seq_ok emptyDB"
  by (simp add: seq_ok_def emptyDB_def)

lemma sql_journal_run:
  assumes "seq_ok d" and "\<forall>r \<in> set rs. tick_ok (je_Tick r)"
  shows "sql_journal skip rs cnt d = Inr (cnt + length rs,
    d\<lparr>journal_rows := journal_rows d @ zip [journal_seq d..<journal_seq d + length rs] rs,
      journal_seq := journal_seq d + length rs\<rparr>)"
  using assms
proof (induction rs arbitrary: cnt d)
  case Nil
  then show ?case by simp
next
  case (Cons r rs)
  let ?d = "d\<lparr>journal_rows := journal_rows d @ [(journal_seq d, r)], journal_seq := Suc (journal_seq d)\<rparr>"
  have "seq_ok ?d" using Cons.prems(1) by (auto simp: seq_ok_def)
  moreover have "journal_seq d \<notin> set (map fst (journal_rows d))"
    using Cons.prems(1) by (auto simp: seq_ok_def)
  moreover have "[journal_seq d..<journal_seq d + length (r # rs)] =
      journal_seq d # [Suc (journal_seq d)..<Suc (journal_seq d) + length rs]"
    by (simp add: upt_conv_Cons del: upt_Suc)
  ultimately show ?case
    using Cons.IH [of ?d "Suc cnt"] Cons.prems(2) by (simp del: upt_Suc)
qed

lemma sql_journal_tick:
  "sql_journal skip rs cnt d = Inr y \<Longrightarrow> r \<in> set rs \<Longrightarrow> tick_ok (je_Tick r)"
  by (induction skip rs cnt d rule: sql_journal.induct) (auto split: if_splits)

lemma seq_ok_append:
  "seq_ok d \<Longrightarrow> seq_ok (d\<lparr>journal_rows := journal_rows d @ zip [journal_seq d..<journal_seq d + length rs] rs,
      journal_seq := journal_seq d + length rs\<rparr>)"
  by (auto simp: seq_ok_def dest: set_zip_leftD)

definition journal_of :: "pgdb \<Rightarrow> JournalEntry list" where
  "journal_of d = map snd (journal_rows d)"

end
