(* ===== verification/PostgresEffects.thy ===== *)
theory PostgresEffects
  imports LedgerPostgres
begin

text \<open>
  What the transactions of the database ledger do to the tables, with the failures factored out:
  each body computes a plain function on the tables (\<open>transfer_sql\<close>, \<open>batch_sql\<close>, \<open>post_sql\<close>), and
  each such function either changes nothing or books its rows. From this the database ledger meets
  \<open>ledger_contract\<close>, under any failures of its statements and commits.
\<close>

section \<open>The bodies as functions on the tables\<close>

definition transfer_sql :: "string \<Rightarrow> string \<Rightarrow> string \<Rightarrow> i64 \<Rightarrow> Kind \<Rightarrow> u64 \<Rightarrow> (Result \<times> bool) sql" where
  "transfer_sql i p q n k t =
     sql_bind (sql_lookup_idempotent p q t k) (\<lambda>seen d.
     case seen of None \<Rightarrow>
       sql_bind (lock_sql (lockOrder p q) fmempty) (\<lambda>locked d.
       if p \<noteq> TreasuryAccount \<and> sint (getz locked p) < sint n
       then Inr ((insufficient (getz locked p), False), d)
       else
         sql_bind (sql_sub n p) (\<lambda>_.
         sql_bind (sql_add n q) (\<lambda>_.
         sql_bind (sql_journal False (transfer_rows i p q n k t) 0) (\<lambda>_.
         sql_bind (sql_record_idempotent p q t k (accepted (getz locked p - n))) (\<lambda>_ d.
         Inr ((accepted (getz locked p - n), True), d))))) d) d
     | Some r \<Rightarrow> Inr ((r, False), d))"

definition post_sql :: "string \<Rightarrow> string \<Rightarrow> string \<Rightarrow> i64 \<Rightarrow> Kind \<Rightarrow> u64 \<Rightarrow> (unit \<times> bool) sql" where
  "post_sql i p q n k t =
     sql_bind (lock_sql (lockOrder p q) fmempty) (\<lambda>_.
     sql_bind (sql_journal True (transfer_rows i p q n k t) 0) (\<lambda>affected d.
     if affected = 0 then Inr (((), True), d)
     else
       sql_bind (sql_sub n p) (\<lambda>_.
       sql_bind (sql_add n q) (\<lambda>_ d. Inr (((), True), d))) d))"

fun credit_sql :: "string \<Rightarrow> Kind \<Rightarrow> u64 \<Rightarrow> Credit list \<Rightarrow> unit sql" where
  "credit_sql i k t [] = (\<lambda>d. Inr ((), d))"
| "credit_sql i k t (c # cs) =
     sql_bind (sql_ensure (cr_Payee c)) (\<lambda>_.
     sql_bind (sql_add (cr_Amount c) (cr_Payee c)) (\<lambda>_.
     sql_bind (sql_journal False [entry i (cr_Payee c) (cr_Amount c) k t] 0) (\<lambda>_.
     credit_sql i k t cs)))"

definition batch_sql :: "string \<Rightarrow> string \<Rightarrow> Credit list \<Rightarrow> Kind \<Rightarrow> u64 \<Rightarrow> (Result \<times> bool) sql" where
  "batch_sql i p cs k t =
     sql_bind (sql_lookup_idempotent p ''batch'' t k) (\<lambda>seen d.
     case seen of None \<Rightarrow>
       sql_bind (sql_ensure p) (\<lambda>_.
       sql_bind (sql_lock p) (\<lambda>b d.
       if p \<noteq> TreasuryAccount \<and> sint b < sint (credits_total cs)
       then Inr ((insufficient b, False), d)
       else
         sql_bind (sql_sub (credits_total cs) p) (\<lambda>_.
         sql_bind (sql_journal False [entry i p (- credits_total cs) k t] 0) (\<lambda>_.
         sql_bind (credit_sql i k t cs) (\<lambda>_.
         sql_bind (sql_record_idempotent p ''batch'' t k (accepted (b - credits_total cs))) (\<lambda>_ d.
         Inr ((accepted (b - credits_total cs), True), d))))) d)) d
     | Some r \<Rightarrow> Inr ((r, False), d))"

lemma computes_transfer: "tx_computes (transfer_tx i p q n k t) (transfer_sql i p q n k t)"
  unfolding transfer_tx_def transfer_locked_tx_def transfer_sql_def transfer_rows_def [symmetric] lookupIdempotent_def
    recordIdempotent_def Let_def
  by (intro computes)

lemma computes_post: "tx_computes (post_tx i p q n k t) (post_sql i p q n k t)"
  unfolding post_tx_def post_sql_def transfer_rows_def [symmetric]
  by (intro computes)

lemma computes_credit_all [computes]: "tx_computes (credit_all i k t cs) (credit_sql i k t cs)"
  by (induction cs) (auto simp: ensureAccount_def intro!: computes)

lemma computes_batch: "tx_computes (batch_tx i p cs k t) (batch_sql i p cs k t)"
  unfolding batch_tx_def batch_locked_tx_def batch_sql_def lookupIdempotent_def recordIdempotent_def
    ensureAccount_def lockAccount_def Let_def
  by (intro computes)

section \<open>Moving balances\<close>

lemma sql_sub_run:
  assumes "a \<in> fmdom' (accounts d)"
  shows "sql_sub n a d = (if fits64 (sint (getz (accounts d) a) - sint n)
    then Inr ((), d\<lparr>accounts := subz (accounts d) a n\<rparr>) else Inl ''bigint out of range'')"
  using assms by (auto simp: sql_sub_def subz_def getz_def fmlookup_dom'_iff)

lemma sql_add_run:
  assumes "a \<in> fmdom' (accounts d)"
  shows "sql_add n a d = (if fits64 (sint (getz (accounts d) a) + sint n)
    then Inr ((), d\<lparr>accounts := addz (accounts d) a n\<rparr>) else Inl ''bigint out of range'')"
  using assms by (auto simp: sql_add_def addz_def getz_def fmlookup_dom'_iff)

lemma journal_of_simps [simp]:
  "journal_of (d\<lparr>accounts := A\<rparr>) = journal_of d"
  "journal_of (d\<lparr>idempotency := I\<rparr>) = journal_of d"
  "seq_ok (d\<lparr>accounts := A\<rparr>) = seq_ok d"
  "seq_ok (d\<lparr>idempotency := I\<rparr>) = seq_ok d"
  by (simp_all add: journal_of_def seq_ok_def)

definition with_rows :: "pgdb \<Rightarrow> JournalEntry list \<Rightarrow> pgdb" where
  "with_rows d rs = d\<lparr>journal_rows := journal_rows d @ zip [journal_seq d..<journal_seq d + length rs] rs,
     journal_seq := journal_seq d + length rs\<rparr>"

lemma with_rows_simps [simp]:
  "accounts (with_rows d rs) = accounts d"
  "idempotency (with_rows d rs) = idempotency d"
  "journal_of (with_rows d rs) = journal_of d @ rs"
  "seq_ok d \<Longrightarrow> seq_ok (with_rows d rs)"
  "with_rows d rs\<lparr>accounts := A\<rparr> = with_rows (d\<lparr>accounts := A\<rparr>) rs"
  "with_rows d rs\<lparr>idempotency := I\<rparr> = with_rows (d\<lparr>idempotency := I\<rparr>) rs"
  by (simp_all add: with_rows_def journal_of_def seq_ok_append)

lemma sql_journal_with_rows:
  "seq_ok d \<Longrightarrow> \<forall>r \<in> set rs. tick_ok (je_Tick r) \<Longrightarrow>
    sql_journal skip rs cnt d = Inr (cnt + length rs, with_rows d rs)"
  by (simp add: sql_journal_run with_rows_def)

lemma transfer_rows_tick: "r \<in> set (transfer_rows i p q n k t) \<Longrightarrow> je_Tick r = t"
  by (auto simp: transfer_rows_def)

lemma locked_pair:
  obtains bs A where "lock_sql (lockOrder p q) fmempty d = Inr (bs, d\<lparr>accounts := A\<rparr>)"
    "getz A = getz (accounts d)" "p \<in> fmdom' A" "q \<in> fmdom' A"
    "getz bs p = getz (accounts d) p"
  using lock_sql_run [of "lockOrder p q" fmempty d] by (auto simp: fun_eq_iff)

section \<open>Transfer\<close>

text \<open>
  The debit and the credit of one movement, in the order of the two \<^verbatim>\<open>UPDATE\<close> statements; the
  intermediate value of a self-transfer is what the second statement reads.
\<close>

definition move_fits :: "(string \<Rightarrow> i64) \<Rightarrow> string \<Rightarrow> string \<Rightarrow> i64 \<Rightarrow> bool" where
  "move_fits b p q n \<longleftrightarrow> fits64 (sint (b p) - sint n) \<and>
     fits64 (sint (b q - (if q = p then n else 0)) + sint n)"

lemma transfer_sql_replay:
  "tick_ok t \<Longrightarrow> fmlookup (idempotency d) (p, q, t, k) = Some r \<Longrightarrow>
    transfer_sql i p q n k t d = Inr ((r, False), d)"
  by (simp add: transfer_sql_def sql_bind_def sql_lookup_idempotent_def)

lemma transfer_sql_tick: "transfer_sql i p q n k t d = Inr y \<Longrightarrow> tick_ok t"
  by (auto simp: transfer_sql_def sql_bind_def sql_lookup_idempotent_def split: if_splits)

text \<open>A transfer whose key is not recorded yet: refused, out of range, or booked.\<close>

lemma transfer_sql_fresh:
  assumes ok: "seq_ok d" and tick: "tick_ok t"
    and none: "fmlookup (idempotency d) (p, q, t, k) = None"
  obtains A where "getz A = getz (accounts d)" "p \<in> fmdom' A" "q \<in> fmdom' A"
    "transfer_sql i p q n k t d =
      (if p \<noteq> TreasuryAccount \<and> sint (getz (accounts d) p) < sint n
       then Inr ((insufficient (getz (accounts d) p), False), d\<lparr>accounts := A\<rparr>)
       else if move_fits (getz (accounts d)) p q n
       then Inr ((accepted (getz (accounts d) p - n), True),
         with_rows (d\<lparr>accounts := addz (subz A p n) q n,
           idempotency := fmupd (p, q, t, k) (accepted (getz (accounts d) p - n)) (idempotency d)\<rparr>)
           (transfer_rows i p q n k t))
       else Inl ''bigint out of range'')"
proof -
  obtain bs A where lock: "lock_sql (lockOrder p q) fmempty d = Inr (bs, d\<lparr>accounts := A\<rparr>)"
    "getz A = getz (accounts d)" "p \<in> fmdom' A" "q \<in> fmdom' A"
    "getz bs p = getz (accounts d) p"
    by (rule locked_pair [of p q d])
  let ?rows = "transfer_rows i p q n k t" and ?r = "accepted (getz (accounts d) p - n)"
  have rest: "sql_bind (sql_sub n p) (\<lambda>_. sql_bind (sql_add n q) (\<lambda>_.
      sql_bind (sql_journal False ?rows 0) (\<lambda>_. sql_bind (sql_record_idempotent p q t k ?r) (\<lambda>_ d.
      Inr ((?r, True), d))))) (d\<lparr>accounts := A\<rparr>) =
    (if move_fits (getz (accounts d)) p q n
     then Inr ((?r, True), with_rows (d\<lparr>accounts := addz (subz A p n) q n,
           idempotency := fmupd (p, q, t, k) ?r (idempotency d)\<rparr>) ?rows)
     else Inl ''bigint out of range'')"
    using lock ok tick none
    by (simp add: sql_bind_def sql_sub_run sql_add_run sql_journal_with_rows transfer_rows_tick
        sql_record_idempotent_def subz_def move_fits_def)
  show ?thesis
    using lock rest tick none
    by (intro that [of A]) (simp_all add: transfer_sql_def sql_bind_def
        [of "sql_lookup_idempotent p q t k"] sql_bind_def [of "lock_sql (lockOrder p q) fmempty"]
        sql_lookup_idempotent_def split del: if_split cong: if_cong)
qed

lemma transfer_sql_cases:
  assumes ok: "seq_ok d" and run: "transfer_sql i p q n k t d = Inr ((r, c), d')"
  obtains (replay) "fmlookup (idempotency d) (p, q, t, k) = Some r" "\<not> c"
  | (refused) "fmlookup (idempotency d) (p, q, t, k) = None" "\<not> c"
      "p \<noteq> TreasuryAccount" "sint (getz (accounts d) p) < sint n"
      "r = insufficient (getz (accounts d) p)"
  | (committed) "fmlookup (idempotency d) (p, q, t, k) = None" "c"
      "p = TreasuryAccount \<or> sint n \<le> sint (getz (accounts d) p)"
      "r = accepted (getz (accounts d) p - n)"
      "books (getz (accounts d)) (journal_of d) (transfer_rows i p q n k t)
         (getz (accounts d')) (journal_of d')" "seq_ok d'"
      "idempotency d' = fmupd (p, q, t, k) r (idempotency d)"
      "move_fits (getz (accounts d)) p q n"
proof (cases "fmlookup (idempotency d) (p, q, t, k)")
  case (Some r0)
  with run transfer_sql_tick [OF run] show ?thesis by (intro replay) (auto simp: transfer_sql_replay)
next
  case None
  obtain A where A: "getz A = getz (accounts d)" "p \<in> fmdom' A" "q \<in> fmdom' A"
    and eq: "transfer_sql i p q n k t d =
      (if p \<noteq> TreasuryAccount \<and> sint (getz (accounts d) p) < sint n
       then Inr ((insufficient (getz (accounts d) p), False), d\<lparr>accounts := A\<rparr>)
       else if move_fits (getz (accounts d)) p q n
       then Inr ((accepted (getz (accounts d) p - n), True),
         with_rows (d\<lparr>accounts := addz (subz A p n) q n,
           idempotency := fmupd (p, q, t, k) (accepted (getz (accounts d) p - n)) (idempotency d)\<rparr>)
           (transfer_rows i p q n k t))
       else Inl ''bigint out of range'')"
    by (rule transfer_sql_fresh [OF ok transfer_sql_tick [OF run] None])
  show ?thesis
  proof (cases "p \<noteq> TreasuryAccount \<and> sint (getz (accounts d) p) < sint n")
    case True
    with run eq None show ?thesis by (intro refused) auto
  next
    case False
    with run eq have fits: "move_fits (getz (accounts d)) p q n" by (auto split: if_splits)
    from run eq False fits have c: "c" "r = accepted (getz (accounts d) p - n)"
      and d': "d' = with_rows (d\<lparr>accounts := addz (subz A p n) q n,
           idempotency := fmupd (p, q, t, k) r (idempotency d)\<rparr>) (transfer_rows i p q n k t)"
      by auto
    have "books (getz (accounts d)) (journal_of d) (transfer_rows i p q n k t)
        (getz (accounts d')) (journal_of d')"
      by (auto simp: d' books_def getz_addz getz_subz A transfer_rows_def)
    with None c False fits ok show ?thesis by (intro committed) (auto simp: d' not_less)
  qed
qed

text \<open>Conversely, an affordable transfer within range is booked.\<close>

lemma transfer_sql_books:
  assumes "seq_ok d" "tick_ok t" "fmlookup (idempotency d) (p, q, t, k) = None"
    and "p = TreasuryAccount \<or> sint n \<le> sint (getz (accounts d) p)"
    and "move_fits (getz (accounts d)) p q n"
  obtains d' where
    "transfer_sql i p q n k t d = Inr ((accepted (getz (accounts d) p - n), True), d')"
  by (rule transfer_sql_fresh [OF assms(1-3), of i n]) (use assms(4,5) in auto)

section \<open>Post\<close>

text \<open>
  The \<^verbatim>\<open>ON CONFLICT DO NOTHING\<close> of \<^verbatim>\<open>Post\<close> never meets a conflict: its rows always get fresh row
  numbers, whatever the transfer id is, so the rows are always written and the balances always move.
\<close>

lemma post_sql_cases:
  assumes ok: "seq_ok d" and run: "post_sql i p q n k t d = Inr (((), c), d')"
  shows "c \<and> books (getz (accounts d)) (journal_of d) (transfer_rows i p q n k t)
           (getz (accounts d')) (journal_of d')
         \<and> seq_ok d' \<and> idempotency d' = idempotency d"
proof -
  obtain bs A where lock: "lock_sql (lockOrder p q) fmempty d = Inr (bs, d\<lparr>accounts := A\<rparr>)"
    "getz A = getz (accounts d)" "p \<in> fmdom' A" "q \<in> fmdom' A"
    "getz bs p = getz (accounts d) p"
    by (rule locked_pair [of p q d])
  have rows: "sql_journal True (transfer_rows i p q n k t) 0 (d\<lparr>accounts := A\<rparr>) =
      (if tick_ok t then Inr (2, with_rows (d\<lparr>accounts := A\<rparr>) (transfer_rows i p q n k t))
       else Inl ''tick is greater than maximum value for int8'')"
    using ok by (auto simp: sql_journal_with_rows transfer_rows_tick) (simp_all add: transfer_rows_def)
  have d': "c \<and> d' = with_rows (d\<lparr>accounts := addz (subz A p n) q n\<rparr>) (transfer_rows i p q n k t)"
    using run lock
    by (auto simp: post_sql_def sql_bind_def rows sql_sub_run sql_add_run subz_def split: if_splits)
  then show ?thesis
    using ok by (auto simp: books_def getz_addz getz_subz lock transfer_rows_def)
qed

lemma post_sql_books:
  assumes ok: "seq_ok d" and tick: "tick_ok t" and fits: "move_fits (getz (accounts d)) p q n"
  obtains d' where "post_sql i p q n k t d = Inr (((), True), d')"
proof -
  obtain bs A where lock: "lock_sql (lockOrder p q) fmempty d = Inr (bs, d\<lparr>accounts := A\<rparr>)"
    "getz A = getz (accounts d)" "p \<in> fmdom' A" "q \<in> fmdom' A"
    "getz bs p = getz (accounts d) p"
    by (rule locked_pair [of p q d])
  have "\<exists>d'. post_sql i p q n k t d = Inr (((), True), d')"
    using lock ok tick fits
    by (simp add: post_sql_def sql_bind_def sql_journal_with_rows transfer_rows_tick sql_sub_run
        sql_add_run subz_def move_fits_def) (auto simp: transfer_rows_def)
  then show ?thesis using that by blast
qed

section \<open>Batch\<close>

text \<open>
  What the credit loop leaves: the rows of its credits, each balance moved by its credits, every
  account of the batch open.
\<close>

lemma credit_sql_run:
  assumes "seq_ok d" and "credit_sql i k t cs d = Inr ((), d')"
  shows "seq_ok d' \<and> idempotency d' = idempotency d
    \<and> journal_of d' = journal_of d @ map (\<lambda>c. entry i (cr_Payee c) (cr_Amount c) k t) cs
    \<and> (\<forall>a. getz (accounts d') a = getz (accounts d) a +
          journal_balance (map (\<lambda>c. entry i (cr_Payee c) (cr_Amount c) k t) cs) a)"
  using assms
proof (induction cs arbitrary: d)
  case Nil
  then show ?case by simp
next
  case (Cons c cs)
  let ?A = "if cr_Payee c \<in> fmdom' (accounts d) then accounts d else fmupd (cr_Payee c) 0 (accounts d)"
  let ?r = "entry i (cr_Payee c) (cr_Amount c) k t"
  let ?d = "with_rows (d\<lparr>accounts := addz ?A (cr_Payee c) (cr_Amount c)\<rparr>) [?r]"
  have A: "getz ?A = getz (accounts d)" "cr_Payee c \<in> fmdom' ?A" by (auto simp: fun_eq_iff getz_notin)
  have tick: "tick_ok t"
  proof -
    obtain d2 cnt d3 where "sql_journal False [?r] 0 d2 = Inr (cnt, d3)"
      using Cons.prems(2) by (auto simp: sql_bind_def split: sum.splits)
    then show ?thesis using sql_journal_tick by fastforce
  qed
  have step: "credit_sql i k t cs ?d = Inr ((), d')"
    using Cons.prems A tick
    by (simp add: sql_bind_def getz_accounts_ensure sql_add_run sql_journal_with_rows
        del: sql_journal.simps split: if_splits)
  show ?case
    using Cons.IH [OF _ step] Cons.prems(1) by (auto simp: getz_addz A(1))
qed

lemma batch_sql_cases:
  assumes ok: "seq_ok d" and run: "batch_sql i p cs k t d = Inr ((r, c), d')"
  obtains (replay) "fmlookup (idempotency d) (p, ''batch'', t, k) = Some r" "\<not> c"
  | (refused) "fmlookup (idempotency d) (p, ''batch'', t, k) = None" "\<not> c"
      "p \<noteq> TreasuryAccount" "sint (getz (accounts d) p) < sint (credits_total cs)"
      "r = insufficient (getz (accounts d) p)"
  | (committed) "fmlookup (idempotency d) (p, ''batch'', t, k) = None" "c"
      "p = TreasuryAccount \<or> sint (credits_total cs) \<le> sint (getz (accounts d) p)"
      "r = accepted (getz (accounts d) p - credits_total cs)"
      "books (getz (accounts d)) (journal_of d) (batch_rows i p cs k t)
         (getz (accounts d')) (journal_of d')" "seq_ok d'"
      "idempotency d' = fmupd (p, ''batch'', t, k) r (idempotency d)"
proof -
  have tick: "tick_ok t"
    using run by (auto simp: batch_sql_def sql_bind_def sql_lookup_idempotent_def split: if_splits)
  define A where "A = (if p \<in> fmdom' (accounts d) then accounts d else fmupd p 0 (accounts d))"
  let ?n = "credits_total cs"
  have A: "getz A = getz (accounts d)" "p \<in> fmdom' A" by (auto simp: fun_eq_iff getz_notin A_def)
  have look: "fmlookup A p = Some (getz (accounts d) p)" by (auto simp: getz_def fmlookup_dom'_iff A_def)
  show ?thesis
  proof (cases "fmlookup (idempotency d) (p, ''batch'', t, k)")
    case (Some r0)
    with run tick show ?thesis
      by (intro replay) (auto simp: batch_sql_def sql_bind_def sql_lookup_idempotent_def)
  next
    case None
    have head: "batch_sql i p cs k t d =
      (if p \<noteq> TreasuryAccount \<and> sint (getz (accounts d) p) < sint ?n
       then Inr ((insufficient (getz (accounts d) p), False), d\<lparr>accounts := A\<rparr>)
       else sql_bind (sql_sub ?n p) (\<lambda>_.
         sql_bind (sql_journal False [entry i p (- ?n) k t] 0) (\<lambda>_.
         sql_bind (credit_sql i k t cs) (\<lambda>_.
         sql_bind (sql_record_idempotent p ''batch'' t k (accepted (getz (accounts d) p - ?n))) (\<lambda>_ d1.
         Inr ((accepted (getz (accounts d) p - ?n), True), d1))))) (d\<lparr>accounts := A\<rparr>))"
      using tick None
      by (simp add: batch_sql_def sql_bind_def [of "sql_lookup_idempotent p ''batch'' t k"]
          sql_bind_def [of "sql_ensure p"] sql_bind_def [of "sql_lock p"] sql_lookup_idempotent_def
          getz_accounts_ensure A_def [symmetric] sql_lock_def look split del: if_split)
    show ?thesis
    proof (cases "p \<noteq> TreasuryAccount \<and> sint (getz (accounts d) p) < sint ?n")
      case True
      with run head None show ?thesis by (intro refused) auto
    next
      case False
      let ?d1 = "with_rows (d\<lparr>accounts := subz A p ?n\<rparr>) [entry i p (- ?n) k t]"
      have rest: "sql_bind (sql_sub ?n p) (\<lambda>_.
         sql_bind (sql_journal False [entry i p (- ?n) k t] 0) (\<lambda>_.
         sql_bind (credit_sql i k t cs) (\<lambda>_.
         sql_bind (sql_record_idempotent p ''batch'' t k (accepted (getz (accounts d) p - ?n))) (\<lambda>_ d1.
         Inr ((accepted (getz (accounts d) p - ?n), True), d1))))) (d\<lparr>accounts := A\<rparr>) = Inr ((r, c), d')"
        using run unfolding head by (simp only: False if_False)
      have "sql_sub ?n p (d\<lparr>accounts := A\<rparr>) \<noteq> Inl ''bigint out of range''"
        using rest by (auto simp: sql_bind_def)
      then have sub: "sql_sub ?n p (d\<lparr>accounts := A\<rparr>) = Inr ((), d\<lparr>accounts := subz A p ?n\<rparr>)"
        using A(2) by (auto simp: sql_sub_run split: if_splits)
      have jr: "sql_journal False [entry i p (- ?n) k t] 0 (d\<lparr>accounts := subz A p ?n\<rparr>) = Inr (1, ?d1)"
        using ok tick by (simp add: sql_journal_with_rows del: sql_journal.simps)
      obtain d2 where d2: "credit_sql i k t cs ?d1 = Inr ((), d2)"
        using rest sub jr by (auto simp: sql_bind_def split: sum.splits)
      have f: "seq_ok d2 \<and> idempotency d2 = idempotency ?d1
          \<and> journal_of d2 = journal_of ?d1 @ map (\<lambda>c. entry i (cr_Payee c) (cr_Amount c) k t) cs
          \<and> (\<forall>a. getz (accounts d2) a = getz (accounts ?d1) a +
                journal_balance (map (\<lambda>c. entry i (cr_Payee c) (cr_Amount c) k t) cs) a)"
        by (rule credit_sql_run [OF _ d2]) (simp add: ok)
      have d': "c \<and> r = accepted (getz (accounts d) p - ?n)
          \<and> d' = d2\<lparr>idempotency := fmupd (p, ''batch'', t, k) r (idempotency d)\<rparr>"
        using rest sub jr d2 f tick None by (auto simp: sql_bind_def sql_record_idempotent_def)
      have "books (getz (accounts d)) (journal_of d) (batch_rows i p cs k t)
          (getz (accounts d')) (journal_of d')"
        using d' f batch_rows_total [of i p cs k t]
        by (auto simp: books_def getz_subz A(1) batch_rows_def)
      with None False d' f show ?thesis by (intro committed) (auto simp: not_less)
    qed
  qed
qed

end
