(* ===== verification/LedgerMemory.thy ===== *)
theory LedgerMemory
  imports Ledger
begin

text \<open>
  The in-process ledger (\<^verbatim>\<open>services/bank/internal/ledger/memory.go\<close>). Every method holds the mutex
  from its first statement to its return, so each is one step on the state. \<open>tid\<close> is what
  \<^verbatim>\<open>uuid.NewString()\<close> returned in that call. The theory proves that the implementation meets
  \<open>ledger_contract\<close>, what each method does on each of its branches, and when balances stay
  non-negative as true integers.
\<close>

section \<open>State and operations\<close>

record memory =
  balances :: "(string, i64) fmap"
  journal :: "JournalEntry list"
  idempotent :: "(string, Result) fmap"
  posted :: "(string, unit) fmap"

definition NewMemory :: memory where
  "NewMemory = \<lparr>balances = fmempty, journal = [], idempotent = fmempty, posted = fmempty\<rparr>"

text \<open>\<^verbatim>\<open>fmt.Sprintf("%s|%s|%d|%s", payer, payee, tick, kind)\<close>\<close>

definition idempotencyKey :: "string \<Rightarrow> string \<Rightarrow> u64 \<Rightarrow> Kind \<Rightarrow> string" where
  "idempotencyKey payer payee tick kind =
     payer @ ''|'' @ payee @ ''|'' @ FormatUint tick @ ''|'' @ kind"

definition Memory_OpenAccount :: "memory \<Rightarrow> string \<Rightarrow> i64" where
  "Memory_OpenAccount m accountID = getz (balances m) accountID"

definition Memory_Transfer ::
  "string \<Rightarrow> memory \<Rightarrow> string \<Rightarrow> string \<Rightarrow> i64 \<Rightarrow> Kind \<Rightarrow> u64 \<Rightarrow> Result \<times> memory"
where
  "Memory_Transfer tid m payer payee amount kind tick =
     (let key = idempotencyKey payer payee tick kind in
      case fmlookup (idempotent m) key of
        Some r \<Rightarrow> (r, m)
      | None \<Rightarrow>
        (let payerBalance = getz (balances m) payer in
         if payer \<noteq> TreasuryAccount \<and> sint payerBalance < sint amount
         then (insufficient payerBalance, m)
         else
           (let bs = addz (subz (balances m) payer amount) payee amount;
                r = accepted (getz bs payer)
            in (r, m\<lparr>balances := bs,
                     journal := journal m @
                       [entry tid payer (- amount) kind tick, entry tid payee amount kind tick],
                     idempotent := fmupd key r (idempotent m)\<rparr>))))"

text \<open>The loop of \<^verbatim>\<open>BatchTransfer\<close>: each credit moves its balance and appends its row.\<close>

fun batch_credits :: "string \<Rightarrow> Kind \<Rightarrow> u64 \<Rightarrow> Credit list \<Rightarrow>
    (string, i64) fmap \<times> JournalEntry list \<Rightarrow> (string, i64) fmap \<times> JournalEntry list"
where
  "batch_credits tid kind tick [] st = st"
| "batch_credits tid kind tick (c # cs) (bs, j) =
     batch_credits tid kind tick cs
       (addz bs (cr_Payee c) (cr_Amount c),
        j @ [entry tid (cr_Payee c) (cr_Amount c) kind tick])"

definition Memory_BatchTransfer ::
  "string \<Rightarrow> memory \<Rightarrow> string \<Rightarrow> Credit list \<Rightarrow> Kind \<Rightarrow> u64 \<Rightarrow> Result \<times> memory"
where
  "Memory_BatchTransfer tid m payer credits kind tick =
     (let key = idempotencyKey payer ''batch'' tick kind in
      case fmlookup (idempotent m) key of
        Some r \<Rightarrow> (r, m)
      | None \<Rightarrow>
        (let total = credits_total credits; payerBalance = getz (balances m) payer in
         if payer \<noteq> TreasuryAccount \<and> sint payerBalance < sint total
         then (insufficient payerBalance, m)
         else
           (let (bs, j) = batch_credits tid kind tick credits
                  (subz (balances m) payer total,
                   journal m @ [entry tid payer (- total) kind tick]);
                r = accepted (getz bs payer)
            in (r, m\<lparr>balances := bs, journal := j, idempotent := fmupd key r (idempotent m)\<rparr>))))"

definition Memory_Post ::
  "memory \<Rightarrow> string \<Rightarrow> string \<Rightarrow> string \<Rightarrow> i64 \<Rightarrow> Kind \<Rightarrow> u64 \<Rightarrow> memory"
where
  "Memory_Post m transferID payer payee amount kind tick =
     (case fmlookup (posted m) transferID of
        Some _ \<Rightarrow> m
      | None \<Rightarrow>
        m\<lparr>posted := fmupd transferID () (posted m),
          balances := addz (subz (balances m) payer amount) payee amount,
          journal := journal m @
            [entry transferID payer (- amount) kind tick, entry transferID payee amount kind tick]\<rparr>)"

definition Memory_GetBalance :: "memory \<Rightarrow> string \<Rightarrow> i64" where
  "Memory_GetBalance m accountID = getz (balances m) accountID"

definition Memory_Journal :: "memory \<Rightarrow> JournalEntry list" where
  "Memory_Journal m = journal m"

definition Memory_Balances :: "memory \<Rightarrow> (string, i64) fmap" where
  "Memory_Balances m = balances m"

text \<open>The implementation as a value of the interface. None of its methods returns an error.\<close>

definition MemoryLedger :: "(string, memory) ledger_ops" where
  "MemoryLedger = \<lparr>
     OpenAccount = (\<lambda>_ m a. (Inr (Memory_OpenAccount m a), m)),
     Transfer = (\<lambda>tid m p q n k t. map_prod Inr id (Memory_Transfer tid m p q n k t)),
     BatchTransfer = (\<lambda>tid m p cs k t. map_prod Inr id (Memory_BatchTransfer tid m p cs k t)),
     Post = (\<lambda>_ m i p q n k t. (Inr (), Memory_Post m i p q n k t)),
     GetBalance = (\<lambda>_ m a. (Inr (Memory_GetBalance m a), m))\<rparr>"

section \<open>What each method does\<close>

lemma batch_credits_eq:
  "batch_credits i k t cs (bs, j) =
     (fold (\<lambda>c bs. addz bs (cr_Payee c) (cr_Amount c)) cs bs,
      j @ map (\<lambda>c. entry i (cr_Payee c) (cr_Amount c) k t) cs)"
  by (induction cs arbitrary: bs j) simp_all

lemma getz_fold_credits:
  "getz (fold (\<lambda>c bs. addz bs (cr_Payee c) (cr_Amount c)) cs bs) a =
     getz bs a + journal_balance (map (\<lambda>c. entry i (cr_Payee c) (cr_Amount c) k t) cs) a"
  by (induction cs arbitrary: bs) (auto simp: getz_addz)

text \<open>The state a committed transfer, batch or posting leaves, written once.\<close>

definition moved :: "memory \<Rightarrow> string \<Rightarrow> string \<Rightarrow> i64 \<Rightarrow> (string, i64) fmap" where
  "moved m p q n = addz (subz (balances m) p n) q n"

lemma Memory_Transfer_cases:
  obtains (replay) r where "fmlookup (idempotent m) (idempotencyKey p q t k) = Some r"
      "Memory_Transfer i m p q n k t = (r, m)"
  | (refused) "fmlookup (idempotent m) (idempotencyKey p q t k) = None"
      "p \<noteq> TreasuryAccount" "sint (getz (balances m) p) < sint n"
      "Memory_Transfer i m p q n k t = (insufficient (getz (balances m) p), m)"
  | (committed) "fmlookup (idempotent m) (idempotencyKey p q t k) = None"
      "p = TreasuryAccount \<or> sint n \<le> sint (getz (balances m) p)"
      "Memory_Transfer i m p q n k t =
         (accepted (getz (moved m p q n) p),
          m\<lparr>balances := moved m p q n, journal := journal m @ transfer_rows i p q n k t,
            idempotent := fmupd (idempotencyKey p q t k) (accepted (getz (moved m p q n) p))
              (idempotent m)\<rparr>)"
  by (cases "fmlookup (idempotent m) (idempotencyKey p q t k)";
      cases "p \<noteq> TreasuryAccount \<and> sint (getz (balances m) p) < sint n")
     (auto simp: Memory_Transfer_def moved_def transfer_rows_def Let_def)

definition batch_moved :: "memory \<Rightarrow> string \<Rightarrow> Credit list \<Rightarrow> (string, i64) fmap" where
  "batch_moved m p cs =
     fold (\<lambda>c bs. addz bs (cr_Payee c) (cr_Amount c)) cs (subz (balances m) p (credits_total cs))"

lemma Memory_BatchTransfer_cases:
  obtains (replay) r where "fmlookup (idempotent m) (idempotencyKey p ''batch'' t k) = Some r"
      "Memory_BatchTransfer i m p cs k t = (r, m)"
  | (refused) "fmlookup (idempotent m) (idempotencyKey p ''batch'' t k) = None"
      "p \<noteq> TreasuryAccount" "sint (getz (balances m) p) < sint (credits_total cs)"
      "Memory_BatchTransfer i m p cs k t = (insufficient (getz (balances m) p), m)"
  | (committed) "fmlookup (idempotent m) (idempotencyKey p ''batch'' t k) = None"
      "p = TreasuryAccount \<or> sint (credits_total cs) \<le> sint (getz (balances m) p)"
      "Memory_BatchTransfer i m p cs k t =
         (accepted (getz (batch_moved m p cs) p),
          m\<lparr>balances := batch_moved m p cs, journal := journal m @ batch_rows i p cs k t,
            idempotent := fmupd (idempotencyKey p ''batch'' t k)
              (accepted (getz (batch_moved m p cs) p)) (idempotent m)\<rparr>)"
  by (cases "fmlookup (idempotent m) (idempotencyKey p ''batch'' t k)";
      cases "p \<noteq> TreasuryAccount \<and> sint (getz (balances m) p) < sint (credits_total cs)")
     (auto simp: Memory_BatchTransfer_def batch_moved_def batch_rows_def batch_credits_eq Let_def)

lemma getz_moved: "getz (moved m p q n) a =
    getz (balances m) a + journal_balance (transfer_rows i p q n k t) a"
  by (auto simp: moved_def transfer_rows_def getz_addz getz_subz)

lemma getz_batch_moved: "getz (batch_moved m p cs) a =
    getz (balances m) a + journal_balance (batch_rows i p cs k t) a"
  by (auto simp: batch_moved_def batch_rows_def getz_fold_credits [where i = i and k = k and t = t] getz_subz)

section \<open>The idempotency key\<close>

text \<open>Account names of the program (\<^verbatim>\<open>pip:7\<close>, \<^verbatim>\<open>workplace:3\<close>, \<^verbatim>\<open>treasury\<close>) hold no bar.\<close>

definition bar_free :: "string \<Rightarrow> bool" where
  "bar_free s \<longleftrightarrow> CHR ''|'' \<notin> set s"

lemma bar_free_FormatUint: "bar_free (FormatUint t)"
  unfolding bar_free_def by (rule FormatUint_no_char) (simp add: is_digit_def)

lemma bar_free_batch [simp]: "bar_free ''batch''"
  by (simp add: bar_free_def)

lemma idempotencyKey_inj:
  assumes "bar_free p" "bar_free q" "bar_free p'" "bar_free q'"
  shows "idempotencyKey p q t k = idempotencyKey p' q' t' k' \<longleftrightarrow>
    p = p' \<and> q = q' \<and> t = t' \<and> k = k'"
  using assms bar_free_FormatUint [of t] bar_free_FormatUint [of t']
  by (auto simp: idempotencyKey_def bar_free_def append_sep_eq)

section \<open>The contract\<close>

lemma Memory_Transfer_books:
  assumes "Memory_Transfer i m p q n k t = (r, m')"
  shows "getz (balances m') = getz (balances m) \<and> journal m' = journal m \<or>
    (p = TreasuryAccount \<or> sint n \<le> sint (getz (balances m) p)) \<and>
    (\<exists>i. books (getz (balances m)) (journal m) (transfer_rows i p q n k t)
          (getz (balances m')) (journal m'))"
proof (cases rule: Memory_Transfer_cases [of m p q t k i n])
  case committed
  with assms show ?thesis by (auto simp: books_def getz_moved [where i = i and k = k and t = t])
qed (use assms in auto)

lemma Memory_BatchTransfer_books:
  assumes "Memory_BatchTransfer i m p cs k t = (r, m')"
  shows "getz (balances m') = getz (balances m) \<and> journal m' = journal m \<or>
    (p = TreasuryAccount \<or> sint (credits_total cs) \<le> sint (getz (balances m) p)) \<and>
    (\<exists>i. books (getz (balances m)) (journal m) (batch_rows i p cs k t)
          (getz (balances m')) (journal m'))"
proof (cases rule: Memory_BatchTransfer_cases [of m p t k i cs])
  case committed
  with assms show ?thesis by (auto simp: books_def getz_batch_moved [where i = i and k = k and t = t])
qed (use assms in auto)

lemma Memory_Post_books:
  "getz (balances (Memory_Post m i p q n k t)) = getz (balances m)
     \<and> journal (Memory_Post m i p q n k t) = journal m \<or>
   books (getz (balances m)) (journal m) (transfer_rows i p q n k t)
     (getz (balances (Memory_Post m i p q n k t))) (journal (Memory_Post m i p q n k t))"
  by (cases "fmlookup (posted m) i")
     (auto simp: Memory_Post_def books_def transfer_rows_def getz_addz getz_subz)

text \<open>A refused or unchanged transfer leaves no trace: only committed results are remembered.\<close>

definition results_ok :: "memory \<Rightarrow> bool" where
  "results_ok m \<longleftrightarrow> (\<forall>key r. fmlookup (idempotent m) key = Some r \<longrightarrow> OK r)"

lemma results_ok_NewMemory [simp]: "results_ok NewMemory"
  by (simp add: results_ok_def NewMemory_def)

lemma results_ok_Transfer:
  "results_ok m \<Longrightarrow> Memory_Transfer i m p q n k t = (r, m') \<Longrightarrow> results_ok m'"
  by (cases rule: Memory_Transfer_cases [of m p q t k i n]) (auto simp: results_ok_def accepted_def split: if_splits)

lemma results_ok_BatchTransfer:
  "results_ok m \<Longrightarrow> Memory_BatchTransfer i m p cs k t = (r, m') \<Longrightarrow> results_ok m'"
  by (cases rule: Memory_BatchTransfer_cases [of m p t k i cs]) (auto simp: results_ok_def accepted_def split: if_splits)

lemma results_ok_Post: "results_ok m \<Longrightarrow> results_ok (Memory_Post m i p q n k t)"
  by (auto simp: results_ok_def Memory_Post_def split: option.splits)

lemma Memory_Transfer_refused:
  "Memory_Transfer i m p q n k t = (r, m') \<Longrightarrow> results_ok m \<Longrightarrow> \<not> OK r \<Longrightarrow> m' = m"
  by (cases rule: Memory_Transfer_cases [of m p q t k i n]) (auto simp: results_ok_def accepted_def)

lemma MemoryLedger_simps [simp]:
  "OpenAccount MemoryLedger e m a = (Inr (Memory_OpenAccount m a), m)"
  "Transfer MemoryLedger e m p q n k t = (rt, m') \<longleftrightarrow>
     (\<exists>r. rt = Inr r \<and> Memory_Transfer e m p q n k t = (r, m'))"
  "BatchTransfer MemoryLedger e m p cs k t = (rt, m') \<longleftrightarrow>
     (\<exists>r. rt = Inr r \<and> Memory_BatchTransfer e m p cs k t = (r, m'))"
  "Post MemoryLedger e m i p q n k t = (Inr (), Memory_Post m i p q n k t)"
  "GetBalance MemoryLedger e m a = (Inr (Memory_GetBalance m a), m)"
  by (auto simp: MemoryLedger_def map_prod_def split: prod.splits)

interpretation mem: ledger_contract MemoryLedger "\<lambda>m. getz (balances m)" journal results_ok
proof (unfold_locales, goal_cases)
  case (3 s e p q n k t rt s')
  then obtain r where "Memory_Transfer e s p q n k t = (r, s')" by auto
  with 3(1) show ?case using results_ok_Transfer Memory_Transfer_books by blast
next
  case (4 s e p cs k t rt s')
  then obtain r where "Memory_BatchTransfer e s p cs k t = (r, s')" by auto
  with 4(1) show ?case using results_ok_BatchTransfer Memory_BatchTransfer_books by blast
next
  case (5 s e i p q n k t ru s')
  then show ?case using Memory_Post_books [of s i p q n k t] results_ok_Post by auto
next
  case (6 s e p q n k t res s')
  then have "s' = s" using Memory_Transfer_refused by auto
  then show ?case by simp
qed (auto simp: Memory_OpenAccount_def Memory_GetBalance_def)

section \<open>Solvency as true integers\<close>

text \<open>
  The words of the model wrap around, so the closed supply is only meaningful for the true integers
  they stand for. \<open>solvent\<close>: those integers sum to zero, no account but the treasury is negative,
  and the treasury is not at the very bottom of the range. A debit leaves a map that is short by the
  amount (\<open>owing\<close>), each credit pays a part of it back.
\<close>

definition owing :: "int \<Rightarrow> (string, i64) fmap \<Rightarrow> bool" where
  "owing r b \<longleftrightarrow> sum_values sint b = - r \<and>
     (\<forall>a. a \<noteq> TreasuryAccount \<longrightarrow> 0 \<le> sint (getz b a)) \<and>
     - (2 ^ 63) < sint (getz b TreasuryAccount)"

definition solvent :: "memory \<Rightarrow> bool" where
  "solvent m \<longleftrightarrow> owing 0 (balances m)"

lemma sum_values_split:
  "sum_values sint b = sint (getz b a) + (\<Sum>x \<in> fmdom' b - {a}. sint (getz b x :: i64))"
proof -
  have "sum_values sint b = (\<Sum>x \<in> insert a (fmdom' b). sint (getz b x))"
    by (rule sum_values_superset) auto
  also have "\<dots> = sint (getz b a) + (\<Sum>x \<in> fmdom' b - {a}. sint (getz b x))"
    by (subst sum.insert_remove) simp_all
  finally show ?thesis .
qed

text \<open>What one account holds is bounded by what the treasury has given out.\<close>

lemma owing_le:
  assumes "owing r b" and "a \<noteq> TreasuryAccount"
  shows "sint (getz b a) + r \<le> - sint (getz b TreasuryAccount)"
proof -
  let ?S = "fmdom' b - {TreasuryAccount}"
  have nn: "0 \<le> sint (getz b x)" if "x \<in> ?S" for x using assms(1) that by (auto simp: owing_def)
  have "sint (getz b a) \<le> (\<Sum>x \<in> ?S. sint (getz b x))"
  proof (cases "a \<in> fmdom' b")
    case True
    with assms(2) show ?thesis by (intro member_le_sum) (auto simp: nn)
  next
    case False
    then show ?thesis using nn by (auto simp: getz_notin intro: sum_nonneg)
  qed
  then show ?thesis
    using assms(1) sum_values_split [of b TreasuryAccount] by (simp add: owing_def)
qed

lemma owing_treasury:
  assumes "owing r b"
  shows "sint (getz b TreasuryAccount) \<le> - r"
proof -
  have "0 \<le> (\<Sum>x \<in> fmdom' b - {TreasuryAccount}. sint (getz b x))"
    using assms by (intro sum_nonneg) (auto simp: owing_def)
  then show ?thesis
    using assms sum_values_split [of b TreasuryAccount] by (simp add: owing_def)
qed

lemma owing_debit:
  assumes "owing 0 b" and "0 \<le> sint n"
    and "p \<noteq> TreasuryAccount \<Longrightarrow> sint n \<le> sint (getz b p)"
    and "p = TreasuryAccount \<Longrightarrow> - (2 ^ 63) < sint (getz b p) - sint n"
  shows "owing (sint n) (subz b p n)"
proof -
  have eq: "sint (getz b p - n) = sint (getz b p) - sint n"
  proof (cases "p = TreasuryAccount")
    case True
    have "fits64 (sint (getz b p) - sint n)"
      using assms(4) [OF True] assms(2) sint_less [of "getz b p"] by (simp add: fits64_def)
    then show ?thesis by (rule sint_sub64)
  next
    case False
    from sint_debit64(1) [OF assms(2) assms(3) [OF False]] show ?thesis .
  qed
  have "sum_values sint (subz b p n) = - sint n"
    using assms(1) by (simp add: subz_def sum_values_upd eq owing_def)
  then show ?thesis
    using assms(1,3,4) eq by (auto simp: owing_def getz_subz)
qed

lemma owing_credit:
  assumes "owing r b" and "0 \<le> sint n" and "sint n \<le> r"
  shows "owing (r - sint n) (addz b q n)"
proof -
  have "sint (getz b q) + sint n < 2 ^ 63"
    using assms owing_le [OF assms(1), of q] owing_treasury [OF assms(1)]
    by (cases "q = TreasuryAccount") (auto simp: owing_def)
  moreover have "- (2 ^ 63) \<le> sint (getz b q) + sint n"
    using assms(2) sint_greater_eq [of "getz b q"] by simp
  ultimately have eq: "sint (getz b q + n) = sint (getz b q) + sint n"
    by (intro sint_add64) (simp add: fits64_def)
  have "sum_values sint (addz b q n) = - (r - sint n)"
    using assms(1) by (simp add: addz_def sum_values_upd eq owing_def)
  then show ?thesis
    using assms(1,2) eq by (auto simp: owing_def getz_addz)
qed

lemma owing_credits:
  assumes "owing (sum_list (map (\<lambda>c. sint (cr_Amount c)) cs)) b"
    and "\<forall>c \<in> set cs. 0 \<le> sint (cr_Amount c)"
  shows "owing 0 (fold (\<lambda>c bs. addz bs (cr_Payee c) (cr_Amount c)) cs b)"
  using assms
proof (induction cs arbitrary: b)
  case Nil
  then show ?case by simp
next
  case (Cons c cs)
  have "0 \<le> sum_list (map (\<lambda>c. sint (cr_Amount c)) cs)"
    using Cons.prems(2) by (intro sum_list_nonneg) auto
  then have "owing (sum_list (map (\<lambda>c. sint (cr_Amount c)) cs)) (addz b (cr_Payee c) (cr_Amount c))"
    using owing_credit [OF Cons.prems(1), of "cr_Amount c" "cr_Payee c"] Cons.prems(2) by simp
  with Cons show ?case by simp
qed

lemma Memory_Transfer_solvent:
  assumes "solvent m" and "0 \<le> sint n"
    and "p = TreasuryAccount \<longrightarrow> - (2 ^ 63) < sint (getz (balances m) p) - sint n"
    and run: "Memory_Transfer i m p q n k t = (r, m')"
  shows "solvent m'"
proof (cases rule: Memory_Transfer_cases [of m p q t k i n])
  case committed
  have "owing (sint n) (subz (balances m) p n)"
    using assms committed by (intro owing_debit) (auto simp: solvent_def)
  then have "owing 0 (moved m p q n)"
    using owing_credit [of "sint n" _ n q] assms(2) by (simp add: moved_def)
  with committed run show ?thesis by (auto simp: solvent_def)
qed (use assms in auto)

lemma Memory_BatchTransfer_solvent:
  assumes "solvent m" and nn: "\<forall>c \<in> set cs. 0 \<le> sint (cr_Amount c)"
    and fits: "fits64 (sum_list (map (\<lambda>c. sint (cr_Amount c)) cs))"
    and "p = TreasuryAccount \<longrightarrow> - (2 ^ 63) < sint (getz (balances m) p) - sint (credits_total cs)"
    and run: "Memory_BatchTransfer i m p cs k t = (r, m')"
  shows "solvent m'"
proof -
  have total: "sint (credits_total cs) = sum_list (map (\<lambda>c. sint (cr_Amount c)) cs)"
    using sint_sum64 [of "map cr_Amount cs"] nn fits
    by (simp add: credits_total_eq comp_def)
  then have "0 \<le> sint (credits_total cs)"
    using nn by (auto intro!: sum_list_nonneg)
  show ?thesis
  proof (cases rule: Memory_BatchTransfer_cases [of m p t k i cs])
    case committed
    have "owing (sint (credits_total cs)) (subz (balances m) p (credits_total cs))"
      using assms committed \<open>0 \<le> sint (credits_total cs)\<close>
      by (intro owing_debit) (auto simp: solvent_def)
    then have "owing 0 (batch_moved m p cs)"
      unfolding batch_moved_def total using nn by (rule owing_credits)
    with committed run show ?thesis by (auto simp: solvent_def)
  qed (use assms in auto)
qed

text \<open>
  The states a ledger reaches through transfers and batches of non-negative amounts, whose true sum
  is an \<^verbatim>\<open>int64\<close>, and which do not drive the treasury to the bottom of the range.
\<close>

inductive solvent_reach :: "memory \<Rightarrow> bool" where
  start: "solvent_reach NewMemory"
| transfer: "solvent_reach m \<Longrightarrow> 0 \<le> sint n \<Longrightarrow>
    (p = TreasuryAccount \<longrightarrow> - (2 ^ 63) < sint (getz (balances m) p) - sint n) \<Longrightarrow>
    Memory_Transfer i m p q n k t = (r, m') \<Longrightarrow> solvent_reach m'"
| batch: "solvent_reach m \<Longrightarrow> \<forall>c \<in> set cs. 0 \<le> sint (cr_Amount c) \<Longrightarrow>
    fits64 (sum_list (map (\<lambda>c. sint (cr_Amount c)) cs)) \<Longrightarrow>
    (p = TreasuryAccount \<longrightarrow> - (2 ^ 63) < sint (getz (balances m) p) - sint (credits_total cs)) \<Longrightarrow>
    Memory_BatchTransfer i m p cs k t = (r, m') \<Longrightarrow> solvent_reach m'"

lemma solvent_reach_solvent: "solvent_reach m \<Longrightarrow> solvent m"
proof (induction rule: solvent_reach.induct)
  case start
  show ?case by (simp add: solvent_def owing_def NewMemory_def)
next
  case transfer
  then show ?case by (blast intro: Memory_Transfer_solvent)
next
  case batch
  then show ?case by (blast intro: Memory_BatchTransfer_solvent)
qed

end
