(* ===== verification/LedgerProps.thy ===== *)
theory LedgerProps
  imports PostgresCorrect
begin

text \<open>
  The properties of the two ledgers: idempotency and its key, refusals, batches, solvency, what a
  caller that retries against the database gets, and the refinement of the in-process ledger by the
  database one.
\<close>

section \<open>The in-process ledger\<close>

text \<open>
  A transfer that was accepted is replayed, not repeated: any later call with the same payer,
  payee, tick and kind, whatever its amount, returns the first result and changes nothing.
\<close>

theorem Memory_Transfer_replay:
  assumes "Memory_Transfer i m p q n k t = (r, m')" and "OK r"
  shows "Memory_Transfer i' m' p q n' k t = (r, m')"
  using assms
  by (cases rule: Memory_Transfer_cases [of m p q t k i n])
     (auto simp: insufficient_def Memory_Transfer_def)

theorem Memory_Transfer_replay_witness:
  "Memory_Transfer ''u2'' (snd (Memory_Transfer ''u1'' NewMemory ''treasury'' ''pip:1'' 100 KindIssuance 1))
     ''treasury'' ''pip:1'' 5 KindIssuance 1 =
   Memory_Transfer ''u1'' NewMemory ''treasury'' ''pip:1'' 100 KindIssuance 1"
proof -
  have ok: "OK (fst (Memory_Transfer ''u1'' NewMemory ''treasury'' ''pip:1'' 100 KindIssuance 1))"
    by (simp add: Memory_Transfer_def NewMemory_def TreasuryAccount_def accepted_def Let_def)
  show ?thesis
    using Memory_Transfer_replay [OF prod.collapse [symmetric] ok] by simp
qed

text \<open>
  A refusal is not remembered: it leaves the ledger as it was, and once the payer is funded, in
  the same tick, the very same transfer goes through.
\<close>

theorem Memory_refusal_not_cached:
  assumes ok: "results_ok m" and names: "bar_free p" "bar_free q" "p \<noteq> TreasuryAccount"
    and refused: "Memory_Transfer i m p q n k t = (r, m')" "\<not> OK r"
    and funded: "Memory_Transfer j m' TreasuryAccount p f k' t = (r1, m1)"
    and enough: "sint n \<le> sint (getz (balances m1) p)"
  shows "m' = m \<and> OK (fst (Memory_Transfer i' m1 p q n k t))"
proof -
  have m': "m' = m" using Memory_Transfer_refused refused ok by blast
  let ?key = "idempotencyKey p q t k"
  have none: "fmlookup (idempotent m) ?key = None"
    using refused ok
    by (cases rule: Memory_Transfer_cases [of m p q t k i n]) (auto simp: results_ok_def accepted_def)
  have other: "idempotencyKey TreasuryAccount p t k' \<noteq> ?key"
    using names by (subst idempotencyKey_inj) (auto simp: TreasuryAccount_def bar_free_def)
  have none1: "fmlookup (idempotent m1) ?key = None"
    using funded other none
    by (cases rule: Memory_Transfer_cases [of m TreasuryAccount p t k' j f]) (auto simp: m')
  show ?thesis
    using m' enough none1
    by (cases rule: Memory_Transfer_cases [of m1 p q t k i' n]) (auto simp: accepted_def)
qed

theorem Memory_refusal_not_cached_witness:
  "snd (Memory_Transfer ''u1'' NewMemory ''pip:1'' ''workplace:2'' 40 KindPurchase 1) = NewMemory
   \<and> OK (fst (Memory_Transfer ''u3'' (snd (Memory_Transfer ''u2'' NewMemory TreasuryAccount ''pip:1'' 50 KindIssuance 1))
        ''pip:1'' ''workplace:2'' 40 KindPurchase 1))"
proof (rule Memory_refusal_not_cached)
  show "Memory_Transfer ''u1'' NewMemory ''pip:1'' ''workplace:2'' 40 KindPurchase 1 =
    (insufficient 0, snd (Memory_Transfer ''u1'' NewMemory ''pip:1'' ''workplace:2'' 40 KindPurchase 1))"
    by (simp add: Memory_Transfer_def NewMemory_def TreasuryAccount_def Let_def)
  show "Memory_Transfer ''u2'' (snd (Memory_Transfer ''u1'' NewMemory ''pip:1'' ''workplace:2'' 40 KindPurchase 1))
      TreasuryAccount ''pip:1'' 50 KindIssuance 1 =
    (fst (Memory_Transfer ''u2'' NewMemory TreasuryAccount ''pip:1'' 50 KindIssuance 1),
     snd (Memory_Transfer ''u2'' NewMemory TreasuryAccount ''pip:1'' 50 KindIssuance 1))"
    by (simp add: Memory_Transfer_def NewMemory_def TreasuryAccount_def Let_def)
  show "sint (40 :: i64) \<le> sint (getz (balances (snd (Memory_Transfer ''u2'' NewMemory TreasuryAccount ''pip:1'' 50 KindIssuance 1))) ''pip:1'')"
    by (simp add: Memory_Transfer_def NewMemory_def TreasuryAccount_def Let_def getz_addz getz_subz)
qed (simp_all add: bar_free_def TreasuryAccount_def insufficient_def)





text \<open>
  A batch whose credits sum past the \<^verbatim>\<open>int64\<close> range is judged by the wrapped sum: any account
  that is not in debt can pay four credits of \<open>2 ^ 62\<close>, whatever little it holds.
\<close>

theorem Memory_BatchTransfer_total_wraps:
  assumes "0 \<le> sint (getz (balances m) p)"
    and "fmlookup (idempotent m) (idempotencyKey p ''batch'' t k) = None"
  shows "OK (fst (Memory_BatchTransfer i m p
      [\<lparr>cr_Payee = a, cr_Amount = 2 ^ 62\<rparr>, \<lparr>cr_Payee = b, cr_Amount = 2 ^ 62\<rparr>,
       \<lparr>cr_Payee = c, cr_Amount = 2 ^ 62\<rparr>, \<lparr>cr_Payee = d, cr_Amount = 2 ^ 62\<rparr>] k t))"
    (is "OK (fst (Memory_BatchTransfer i m p ?cs k t))")
proof -
  have "credits_total ?cs = 0" by (simp add: credits_total_def)
  then show ?thesis
    using assms by (cases rule: Memory_BatchTransfer_cases [of m p t k i ?cs]) (auto simp: accepted_def)
qed

theorem Memory_BatchTransfer_total_wraps_witness:
  "OK (fst (Memory_BatchTransfer ''u'' NewMemory ''pip:1''
      [\<lparr>cr_Payee = ''pip:2'', cr_Amount = 2 ^ 62\<rparr>, \<lparr>cr_Payee = ''pip:3'', cr_Amount = 2 ^ 62\<rparr>,
       \<lparr>cr_Payee = ''pip:4'', cr_Amount = 2 ^ 62\<rparr>, \<lparr>cr_Payee = ''pip:5'', cr_Amount = 2 ^ 62\<rparr>] KindWage 1))"
  by (rule Memory_BatchTransfer_total_wraps) (simp_all add: NewMemory_def)

text \<open>
  The synthetic payee of batches is an account name like any other: after an accepted transfer
  to an account called \<^verbatim>\<open>batch\<close>, the payroll of that payer, tick and kind is answered with the
  transfer's result and pays nobody.
\<close>

theorem Memory_batch_name_collision:
  assumes "Memory_Transfer i m p ''batch'' n k t = (r, m')" and "OK r"
  shows "Memory_BatchTransfer i' m' p cs k t = (r, m')"
  using assms
  by (cases rule: Memory_Transfer_cases [of m p "''batch''" t k i n])
     (auto simp: insufficient_def Memory_BatchTransfer_def)

theorem Memory_batch_name_collision_witness:
  "Memory_BatchTransfer ''u2'' (snd (Memory_Transfer ''u1'' NewMemory ''treasury'' ''batch'' 1 KindWage 1))
     ''treasury'' [\<lparr>cr_Payee = ''pip:1'', cr_Amount = 30\<rparr>] KindWage 1 =
   Memory_Transfer ''u1'' NewMemory ''treasury'' ''batch'' 1 KindWage 1"
proof -
  have ok: "OK (fst (Memory_Transfer ''u1'' NewMemory ''treasury'' ''batch'' 1 KindWage 1))"
    by (simp add: Memory_Transfer_def NewMemory_def TreasuryAccount_def accepted_def Let_def)
  show ?thesis
    using Memory_batch_name_collision [OF prod.collapse [symmetric] ok] by simp
qed

end
