(* ===== verification/BankApi.thy ===== *)
theory BankApi
  imports PostgresCorrect
begin

text \<open>
  The bank service over a ledger (\<^verbatim>\<open>services/bank/internal/bankapi\<close>): the RPC handler, the publisher
  of money facts, the booking of purchases sim-core decided, the escheat of dead pips' balances, and
  the two Kafka consumers. Everything is written over the interface \<open>ledger_ops\<close>, so it runs on
  either ledger; the lemmas at the end are proved once in the locale \<open>ledger_contract\<close>.
\<close>

section \<open>Messages\<close>

datatype TransferKind =
  TRANSFER_KIND_UNSPECIFIED | TRANSFER_KIND_WAGE | TRANSFER_KIND_PURCHASE
| TRANSFER_KIND_ISSUANCE | TRANSFER_KIND_ESCHEAT

record TransferRequest =
  tq_Payer :: string
  tq_Payee :: string
  tq_Amount :: i64
  tq_Kind :: TransferKind
  tq_Tick :: u64

record BatchTransferRequest =
  bq_Payer :: string
  bq_Credits :: "Credit list"
  bq_Kind :: TransferKind
  bq_Tick :: u64

text \<open>The payloads of an event envelope that the Go services read or write.\<close>

datatype Payload =
  PipDied u64 string i32
| WagePaid string string i64
| PurchaseMade string string i64 i32
| AccountOverdrawn string i64 i64
| MoneyIssued string i64
| OtherPayload

record EventEnvelope =
  EventId :: string
  Envelope_Tick :: u64
  OccurredAt :: nat
  Producer :: string
  Envelope_Payload :: Payload

definition kindFromProto :: "TransferKind \<Rightarrow> Kind" where
  "kindFromProto k = (case k of
     TRANSFER_KIND_WAGE \<Rightarrow> KindWage
   | TRANSFER_KIND_PURCHASE \<Rightarrow> KindPurchase
   | TRANSFER_KIND_ISSUANCE \<Rightarrow> KindIssuance
   | TRANSFER_KIND_ESCHEAT \<Rightarrow> KindEscheat
   | TRANSFER_KIND_UNSPECIFIED \<Rightarrow> [])"

definition errAccountIDRequired :: go_error where
  "errAccountIDRequired = ''account id is required''"

section \<open>The publisher of money facts\<close>

text \<open>
  The interface \<^verbatim>\<open>EventPublisher\<close> over a publisher state \<open>'p\<close>; none of its methods returns anything.
\<close>

record 'p EventPublisher =
  pub_WagePaid :: "string \<Rightarrow> string \<Rightarrow> i64 \<Rightarrow> u64 \<Rightarrow> 'p \<Rightarrow> 'p"
  pub_PurchaseMade :: "string \<Rightarrow> string \<Rightarrow> i64 \<Rightarrow> i32 \<Rightarrow> u64 \<Rightarrow> 'p \<Rightarrow> 'p"
  pub_AccountOverdrawn :: "string \<Rightarrow> i64 \<Rightarrow> i64 \<Rightarrow> u64 \<Rightarrow> 'p \<Rightarrow> 'p"
  pub_MoneyIssued :: "string \<Rightarrow> i64 \<Rightarrow> u64 \<Rightarrow> 'p \<Rightarrow> 'p"

definition noopPublisher :: "'p EventPublisher" where
  "noopPublisher = \<lparr>
     pub_WagePaid = (\<lambda>_ _ _ _ p. p),
     pub_PurchaseMade = (\<lambda>_ _ _ _ _ p. p),
     pub_AccountOverdrawn = (\<lambda>_ _ _ _ p. p),
     pub_MoneyIssued = (\<lambda>_ _ _ p. p)\<rparr>"

text \<open>
  \<^verbatim>\<open>KafkaEvents\<close>: the messages it enqueued, as (key, value) pairs, and how many times \<^verbatim>\<open>publish\<close> ran.
  What each run gets from outside, by its number: the id drawn, the time, the encoding or its
  failure, and whether the writer had room.
\<close>

record KafkaEvents =
  publish_calls :: nat
  enqueued :: "(string \<times> string) list"

record kafka_env =
  uuid_at :: "nat \<Rightarrow> string"
  now_at :: "nat \<Rightarrow> nat"
  proto_Marshal :: "EventEnvelope \<Rightarrow> string fallible"
  room_at :: "nat \<Rightarrow> bool"

text \<open>The settings of the Kafka writer and readers the service makes.\<close>

record WriterConfig =
  wc_Addr :: "string list"
  wc_Topic :: string
  wc_HashBalancer :: bool
  wc_AllowAutoTopicCreation :: bool
  wc_Async :: bool

definition topicMoney :: string where "topicMoney = ''pipsim.economy.money.v1''"

definition NewKafkaEvents :: "string list \<Rightarrow> WriterConfig" where
  "NewKafkaEvents brokers =
     \<lparr>wc_Addr = brokers, wc_Topic = topicMoney, wc_HashBalancer = True,
      wc_AllowAutoTopicCreation = True, wc_Async = True\<rparr>"

definition money_envelope :: "kafka_env \<Rightarrow> nat \<Rightarrow> u64 \<Rightarrow> Payload \<Rightarrow> EventEnvelope" where
  "money_envelope e n tick payload =
     \<lparr>EventId = uuid_at e n, Envelope_Tick = tick, OccurredAt = now_at e n,
      Producer = ''bank'', Envelope_Payload = payload\<rparr>"

definition KafkaEvents_publish :: "kafka_env \<Rightarrow> string \<Rightarrow> u64 \<Rightarrow> Payload \<Rightarrow> KafkaEvents \<Rightarrow> KafkaEvents" where
  "KafkaEvents_publish e key tick payload k =
     (let n = publish_calls k;
          envelope = money_envelope e n tick payload;
          k' = k\<lparr>publish_calls := Suc n\<rparr>
      in case proto_Marshal e envelope of
           Inl _ \<Rightarrow> k'
         | Inr buf \<Rightarrow> if room_at e n then k'\<lparr>enqueued := enqueued k @ [(key, buf)]\<rparr> else k')"

definition KafkaEvents_WagePaid :: "kafka_env \<Rightarrow> string \<Rightarrow> string \<Rightarrow> i64 \<Rightarrow> u64 \<Rightarrow> KafkaEvents \<Rightarrow> KafkaEvents" where
  "KafkaEvents_WagePaid e payer payee amount tick =
     KafkaEvents_publish e payee tick (WagePaid payer payee amount)"

definition KafkaEvents_PurchaseMade ::
  "kafka_env \<Rightarrow> string \<Rightarrow> string \<Rightarrow> i64 \<Rightarrow> i32 \<Rightarrow> u64 \<Rightarrow> KafkaEvents \<Rightarrow> KafkaEvents" where
  "KafkaEvents_PurchaseMade e payer payee amount kind tick =
     KafkaEvents_publish e payer tick (PurchaseMade payer payee amount kind)"

definition KafkaEvents_AccountOverdrawn ::
  "kafka_env \<Rightarrow> string \<Rightarrow> i64 \<Rightarrow> i64 \<Rightarrow> u64 \<Rightarrow> KafkaEvents \<Rightarrow> KafkaEvents" where
  "KafkaEvents_AccountOverdrawn e account attempted balance tick =
     KafkaEvents_publish e account tick (AccountOverdrawn account attempted balance)"

definition KafkaEvents_MoneyIssued :: "kafka_env \<Rightarrow> string \<Rightarrow> i64 \<Rightarrow> u64 \<Rightarrow> KafkaEvents \<Rightarrow> KafkaEvents" where
  "KafkaEvents_MoneyIssued e payee amount tick =
     KafkaEvents_publish e payee tick (MoneyIssued payee amount)"

definition KafkaPublisher :: "kafka_env \<Rightarrow> KafkaEvents EventPublisher" where
  "KafkaPublisher e = \<lparr>
     pub_WagePaid = KafkaEvents_WagePaid e,
     pub_PurchaseMade = KafkaEvents_PurchaseMade e,
     pub_AccountOverdrawn = KafkaEvents_AccountOverdrawn e,
     pub_MoneyIssued = KafkaEvents_MoneyIssued e\<rparr>"

text \<open>\<^verbatim>\<open>New\<close>: a nil publisher becomes the one that drops everything.\<close>

definition Handler_New :: "('e, 's) ledger_ops \<Rightarrow> 'p EventPublisher option \<Rightarrow> ('e, 's) ledger_ops \<times> 'p EventPublisher" where
  "Handler_New l events = (l, case events of None \<Rightarrow> noopPublisher | Some p \<Rightarrow> p)"

section \<open>The handler\<close>

text \<open>
  A method takes the environment of its ledger call and the state of ledger and publisher, and
  returns the response and the new state.
\<close>

definition Handler_OpenAccount ::
  "('e, 's) ledger_ops \<Rightarrow> 'e \<Rightarrow> 's \<times> 'p \<Rightarrow> string \<Rightarrow> (string \<times> i64) response \<times> ('s \<times> 'p)"
where
  "Handler_OpenAccount L e st account_id =
     (let (s, p) = st in
      if account_id = [] then (Inl (CodeInvalidArgument, errAccountIDRequired), s, p)
      else case OpenAccount L e s account_id of
             (Inl err, s') \<Rightarrow> (Inl (CodeUnavailable, err), s', p)
           | (Inr balance, s') \<Rightarrow> (Inr (account_id, balance), s', p))"

definition Handler_Transfer ::
  "('e, 's) ledger_ops \<Rightarrow> 'p EventPublisher \<Rightarrow> 'e \<Rightarrow> 's \<times> 'p \<Rightarrow> TransferRequest \<Rightarrow> Result response \<times> ('s \<times> 'p)"
where
  "Handler_Transfer L ev e st m =
     (let (s, p) = st in
      if tq_Payer m = [] \<or> tq_Payee m = []
      then (Inl (CodeInvalidArgument, errAccountIDRequired), s, p)
      else
        (let kind = kindFromProto (tq_Kind m) in
         case Transfer L e s (tq_Payer m) (tq_Payee m) (tq_Amount m) kind (tq_Tick m) of
           (Inl err, s') \<Rightarrow> (Inl (CodeUnavailable, err), s', p)
         | (Inr res, s') \<Rightarrow>
             (Inr res, s',
              if \<not> OK res
              then pub_AccountOverdrawn ev (tq_Payer m) (tq_Amount m) (PayerBalance res) (tq_Tick m) p
              else if kind = KindWage
              then pub_WagePaid ev (tq_Payer m) (tq_Payee m) (tq_Amount m) (tq_Tick m) p
              else if kind = KindPurchase then p
              else if kind = KindIssuance
              then pub_MoneyIssued ev (tq_Payee m) (tq_Amount m) (tq_Tick m) p
              else p)))"

definition publish_wages ::
  "'p EventPublisher \<Rightarrow> string \<Rightarrow> u64 \<Rightarrow> Credit list \<Rightarrow> 'p \<Rightarrow> 'p" where
  "publish_wages ev payer tick cs =
     fold (\<lambda>c. pub_WagePaid ev payer (cr_Payee c) (cr_Amount c) tick) cs"

definition Handler_BatchTransfer ::
  "('e, 's) ledger_ops \<Rightarrow> 'p EventPublisher \<Rightarrow> 'e \<Rightarrow> 's \<times> 'p \<Rightarrow> BatchTransferRequest \<Rightarrow>
    Result response \<times> ('s \<times> 'p)"
where
  "Handler_BatchTransfer L ev e st m =
     (let (s, p) = st in
      if bq_Payer m = [] then (Inl (CodeInvalidArgument, errAccountIDRequired), s, p)
      else
        (let credits = bq_Credits m; kind = kindFromProto (bq_Kind m) in
         case BatchTransfer L e s (bq_Payer m) credits kind (bq_Tick m) of
           (Inl err, s') \<Rightarrow> (Inl (CodeUnavailable, err), s', p)
         | (Inr res, s') \<Rightarrow>
             (Inr res, s',
              if \<not> OK res
              then pub_AccountOverdrawn ev (bq_Payer m) (credits_total credits) (PayerBalance res)
                     (bq_Tick m) p
              else if kind = KindWage then publish_wages ev (bq_Payer m) (bq_Tick m) credits p
              else p)))"

definition Handler_GetBalance ::
  "('e, 's) ledger_ops \<Rightarrow> 'e \<Rightarrow> 's \<times> 'p \<Rightarrow> string \<Rightarrow> i64 response \<times> ('s \<times> 'p)"
where
  "Handler_GetBalance L e st account_id =
     (let (s, p) = st in
      case GetBalance L e s account_id of
        (Inl err, s') \<Rightarrow> (Inl (CodeUnavailable, err), s', p)
      | (Inr balance, s') \<Rightarrow> (Inr balance, s', p))"

section \<open>Escheat and purchases\<close>

definition pip_account :: "u64 \<Rightarrow> string" where
  "pip_account pipID = ''pip:'' @ FormatUint pipID"

text \<open>The two ledger calls of \<^verbatim>\<open>Escheat\<close> have an environment each.\<close>

definition Escheat :: "('e, 's) ledger_ops \<Rightarrow> 'e \<times> 'e \<Rightarrow> 's \<Rightarrow> u64 \<Rightarrow> u64 \<Rightarrow> unit fallible \<times> 's" where
  "Escheat L es s pipID tick =
     (let account = pip_account pipID in
      case GetBalance L (fst es) s account of
        (Inl err, s1) \<Rightarrow> (Inl err, s1)
      | (Inr balance, s1) \<Rightarrow>
          if sint balance \<le> 0 then (Inr (), s1)
          else (case Transfer L (snd es) s1 account TreasuryAccount balance KindEscheat tick of
                  (Inl err, s2) \<Rightarrow> (Inl err, s2)
                | (Inr res, s2) \<Rightarrow> (Inr (), s2)))"

definition BookPurchase ::
  "('e, 's) ledger_ops \<Rightarrow> 'e \<Rightarrow> 's \<Rightarrow> string \<Rightarrow> string \<times> string \<times> i64 \<Rightarrow> u64 \<Rightarrow> unit fallible \<times> 's"
where
  "BookPurchase L e s eventID purchase tick =
     (if eventID = [] then (Inl ''purchase event has no id'', s)
      else case purchase of (payer, payee, amount) \<Rightarrow>
        Post L e s eventID payer payee amount KindPurchase tick)"

section \<open>The consumers\<close>

record ReaderConfig =
  rc_Brokers :: "string list"
  rc_Topic :: string
  rc_GroupID :: string
  rc_MaxWait :: int
  rc_FirstOffset :: bool

definition topicLifecycle :: string where "topicLifecycle = ''pipsim.pip.lifecycle.v1''"
definition topicPurchases :: string where "topicPurchases = ''pipsim.economy.purchases.v1''"

definition NewLifecycleConsumer :: "string list \<Rightarrow> ReaderConfig" where
  "NewLifecycleConsumer brokers =
     \<lparr>rc_Brokers = brokers, rc_Topic = topicLifecycle, rc_GroupID = ''bank-escheat'',
      rc_MaxWait = 10 ^ 9, rc_FirstOffset = True\<rparr>"

definition NewPurchaseConsumer :: "string list \<Rightarrow> ReaderConfig" where
  "NewPurchaseConsumer brokers =
     \<lparr>rc_Brokers = brokers, rc_Topic = topicPurchases, rc_GroupID = ''bank-purchases'',
      rc_MaxWait = 10 ^ 9, rc_FirstOffset = True\<rparr>"

text \<open>
  \<^verbatim>\<open>handle\<close> of each consumer; \<open>unmarshal\<close> is protobuf's decoding of a message value. A payload that
  is not the one looked for is the nil the getter returns.
\<close>

definition GetPipDied :: "EventEnvelope \<Rightarrow> u64 option" where
  "GetPipDied v = (case Envelope_Payload v of PipDied pip _ _ \<Rightarrow> Some pip | _ \<Rightarrow> None)"

definition GetPurchaseMade :: "EventEnvelope \<Rightarrow> (string \<times> string \<times> i64) option" where
  "GetPurchaseMade v =
     (case Envelope_Payload v of PurchaseMade payer payee amount _ \<Rightarrow> Some (payer, payee, amount) | _ \<Rightarrow> None)"

definition LifecycleConsumer_handle ::
  "(string \<Rightarrow> EventEnvelope option) \<Rightarrow> ('e, 's) ledger_ops \<Rightarrow> 'e \<times> 'e \<Rightarrow> 's \<Rightarrow> string \<Rightarrow> unit fallible \<times> 's"
where
  "LifecycleConsumer_handle unmarshal L es s value =
     (case unmarshal value of
        None \<Rightarrow> (Inr (), s)
      | Some envelope \<Rightarrow>
          (case GetPipDied envelope of
             None \<Rightarrow> (Inr (), s)
           | Some pip \<Rightarrow> Escheat L es s pip (Envelope_Tick envelope)))"

definition PurchaseConsumer_handle ::
  "(string \<Rightarrow> EventEnvelope option) \<Rightarrow> ('e, 's) ledger_ops \<Rightarrow> 'e \<Rightarrow> 's \<Rightarrow> string \<Rightarrow> unit fallible \<times> 's"
where
  "PurchaseConsumer_handle unmarshal L e s value =
     (case unmarshal value of
        None \<Rightarrow> (Inr (), s)
      | Some envelope \<Rightarrow>
          (case GetPurchaseMade envelope of
             None \<Rightarrow> (Inr (), s)
           | Some purchase \<Rightarrow>
               BookPurchase L e s (EventId envelope) purchase (Envelope_Tick envelope)))"

text \<open>
  \<^verbatim>\<open>Run\<close>: what \<^verbatim>\<open>FetchMessage\<close> gives next, in order, and for a fetched message the environment of its
  handling and whether \<^verbatim>\<open>CommitMessages\<close> succeeded. The result is the state and the messages that were
  handed to \<^verbatim>\<open>CommitMessages\<close> and accepted. A failure to handle or to commit is logged and the loop
  goes on with the next message; a fetch that fails is retried unless the context was cancelled.
\<close>

record message =
  msg_Partition :: nat
  msg_Offset :: nat
  msg_Value :: string

datatype 'h fetch = Fetched message 'h bool | FetchFailed go_error | FetchCancelled

fun Consumer_Run ::
  "('h \<Rightarrow> 's \<Rightarrow> string \<Rightarrow> unit fallible \<times> 's) \<Rightarrow> 'h fetch list \<Rightarrow> 's \<Rightarrow> 's \<times> message list"
where
  "Consumer_Run handle [] s = (s, [])"
| "Consumer_Run handle (FetchCancelled # fs) s = (s, [])"
| "Consumer_Run handle (FetchFailed err # fs) s = Consumer_Run handle fs s"
| "Consumer_Run handle (Fetched msg h commit_ok # fs) s =
     (case handle h s (msg_Value msg) of
        (Inl err, s') \<Rightarrow> Consumer_Run handle fs s'
      | (Inr _, s') \<Rightarrow>
          (let (s'', committed) = Consumer_Run handle fs s' in
           (s'', if commit_ok then msg # committed else committed)))"

definition LifecycleConsumer_Run where
  "LifecycleConsumer_Run unmarshal L = Consumer_Run (LifecycleConsumer_handle unmarshal L)"

definition PurchaseConsumer_Run where
  "PurchaseConsumer_Run unmarshal L = Consumer_Run (PurchaseConsumer_handle unmarshal L)"

text \<open>Whatever was committed had been fetched and handled without an error.\<close>

lemma Consumer_Run_committed:
  assumes "Consumer_Run handle fs s = (s', committed)" and "m \<in> set committed"
  shows "\<exists>fs1 h fs2 s1. fs = fs1 @ Fetched m h True # fs2
    \<and> handle h (fst (Consumer_Run handle fs1 s)) (msg_Value m) = (Inr (), s1)"
  using assms
proof (induction fs arbitrary: s committed)
  case (Cons f fs)
  show ?case
  proof (cases f)
    case (Fetched msg h commit_ok)
    obtain r s1 where hd: "handle h s (msg_Value msg) = (r, s1)" by fastforce
    obtain t c where tl: "Consumer_Run handle fs s1 = (t, c)" by fastforce
    consider "r = Inr ()" "commit_ok" "m = msg" | "m \<in> set c"
      using Cons.prems hd tl Fetched by (cases r) (auto split: if_splits)
    then show ?thesis
    proof cases
      case 1
      with hd Fetched show ?thesis
        by (intro exI [of _ "[]"] exI [of _ h] exI [of _ fs] exI [of _ s1]) simp
    next
      case 2
      have "t = s'" using Cons.prems(1) hd tl Fetched by (cases r) auto
      with Cons.IH [OF _ 2] tl obtain fs1 h' fs2 s2 where "fs = fs1 @ Fetched m h' True # fs2"
        "handle h' (fst (Consumer_Run handle fs1 s1)) (msg_Value m) = (Inr (), s2)" by blast
      moreover have "fst (Consumer_Run handle (f # fs1) s) = fst (Consumer_Run handle fs1 s1)"
        using hd Fetched by (cases r) (simp_all split: prod.split)
      ultimately show ?thesis using Fetched
        by (intro exI [of _ "f # fs1"] exI [of _ h'] exI [of _ fs2] exI [of _ s2]) simp
    qed
  next
    case (FetchFailed err)
    with Cons.prems have "Consumer_Run handle fs s = (s', committed)" by simp
    from Cons.IH [OF this Cons.prems(2)] obtain fs1 h fs2 s1 where "fs = fs1 @ Fetched m h True # fs2"
      "handle h (fst (Consumer_Run handle fs1 s)) (msg_Value m) = (Inr (), s1)" by blast
    with FetchFailed show ?thesis
      by (intro exI [of _ "f # fs1"] exI [of _ h] exI [of _ fs2] exI [of _ s1]) simp
  qed (use Cons.prems in auto)
qed simp

section \<open>The service as a whole\<close>

text \<open>
  Any request and any consumer session, in any order: the RPC server and the two consumers run
  concurrently, and interleave at ledger calls. \<open>bank_reach\<close> interleaves whole ledger calls: the
  two calls of an escheat may have others between them, so each is a step of its own.
\<close>

inductive bank_step :: "('e, 's) ledger_ops \<Rightarrow> 's \<Rightarrow> 's \<Rightarrow> bool" for L where
  step_open: "Handler_OpenAccount L e (s, p :: KafkaEvents) a = (r, s', p') \<Longrightarrow> bank_step L s s'"
| step_transfer: "Handler_Transfer L (ev :: KafkaEvents EventPublisher) e (s, p) m = (r, s', p') \<Longrightarrow> bank_step L s s'"
| step_batch: "Handler_BatchTransfer L (ev :: KafkaEvents EventPublisher) e (s, p) b = (r, s', p') \<Longrightarrow> bank_step L s s'"
| step_get: "Handler_GetBalance L e (s, p :: KafkaEvents) a = (r, s', p') \<Longrightarrow> bank_step L s s'"
| step_escheat_read: "GetBalance L e s (pip_account pip) = (r, s') \<Longrightarrow> bank_step L s s'"
| step_escheat_write: "Transfer L e s (pip_account pip) TreasuryAccount balance KindEscheat tick = (r, s')
    \<Longrightarrow> bank_step L s s'"
| step_purchase: "PurchaseConsumer_handle unmarshal L e s value = (r, s') \<Longrightarrow> bank_step L s s'"

inductive bank_reach :: "('e, 's) ledger_ops \<Rightarrow> 's \<Rightarrow> 's \<Rightarrow> bool" for L s0 where
  reach_start: "bank_reach L s0 s0"
| reach_step: "bank_reach L s0 s \<Longrightarrow> bank_step L s s' \<Longrightarrow> bank_reach L s0 s'"

text \<open>An escheat only reads, or reads and then writes.\<close>

lemma Escheat_cases:
  assumes "Escheat L es s pip tick = (r, s')"
  obtains (read) rb where "GetBalance L (fst es) s (pip_account pip) = (rb, s')"
  | (wrote) b s1 rt where "GetBalance L (fst es) s (pip_account pip) = (Inr b, s1)" "0 < sint b"
      "Transfer L (snd es) s1 (pip_account pip) TreasuryAccount b KindEscheat tick = (rt, s')"
proof -
  obtain rb s1 where g: "GetBalance L (fst es) s (pip_account pip) = (rb, s1)" by fastforce
  show ?thesis
  proof (cases rb)
    case (Inl er)
    with assms g show ?thesis by (intro read) (simp add: Escheat_def)
  next
    case (Inr b)
    obtain rt s2 where t: "Transfer L (snd es) s1 (pip_account pip) TreasuryAccount b KindEscheat tick = (rt, s2)"
      by fastforce
    show ?thesis
    proof (cases "0 < sint b")
      case True
      with assms g t Inr have "s' = s2" by (simp add: Escheat_def split: sum.splits)
      with True g t Inr show ?thesis by (intro wrote) auto
    next
      case False
      with assms g Inr show ?thesis by (intro read) (simp add: Escheat_def)
    qed
  qed
qed

text \<open>Every operation of the service touches the ledger through at most one call.\<close>

lemma handler_calls:
  "Handler_OpenAccount L e (s, p) a = (ro, s', p') \<Longrightarrow> s' = s \<or> (\<exists>x. OpenAccount L e s a = (x, s'))"
  "Handler_Transfer L ev e (s, q) m = (rt, s', q') \<Longrightarrow> s' = s \<or>
    (\<exists>x. Transfer L e s (tq_Payer m) (tq_Payee m) (tq_Amount m) (kindFromProto (tq_Kind m)) (tq_Tick m) = (x, s'))"
  "Handler_BatchTransfer L ev e (s, q) b = (rb, s', q') \<Longrightarrow> s' = s \<or>
    (\<exists>x. BatchTransfer L e s (bq_Payer b) (bq_Credits b) (kindFromProto (bq_Kind b)) (bq_Tick b) = (x, s'))"
  "Handler_GetBalance L e (s, p) a = (rg, s', p') \<Longrightarrow> \<exists>x. GetBalance L e s a = (x, s')"
  "PurchaseConsumer_handle unmarshal L e s value = (ru, s') \<Longrightarrow> s' = s \<or>
    (\<exists>x i payer payee n t. Post L e s i payer payee n KindPurchase t = (x, s'))"
  by (auto simp: Handler_OpenAccount_def Handler_Transfer_def Handler_BatchTransfer_def
      Handler_GetBalance_def PurchaseConsumer_handle_def BookPurchase_def Let_def
      split: if_splits prod.splits sum.splits option.splits)

section \<open>Proved once for every ledger\<close>

context ledger_contract begin

lemma step_keeps:
  assumes "bank_step L s s'" and "keep s" and "balanced (bal s) (jour s)"
  shows "keep s' \<and> balanced (bal s') (jour s')"
  using assms(1)
proof (cases rule: bank_step.cases)
  case (step_open e p a r p')
  from handler_calls(1) [OF this] show ?thesis using ops_balanced(1) [OF assms(2,3)] assms(2,3) by blast
next
  case (step_transfer ev e p m r p')
  from handler_calls(2) [OF this] show ?thesis using ops_balanced(3) [OF assms(2,3)] assms(2,3) by blast
next
  case (step_batch ev e p b r p')
  from handler_calls(3) [OF this] show ?thesis using ops_balanced(4) [OF assms(2,3)] assms(2,3) by blast
next
  case (step_get e p a r p')
  from handler_calls(4) [OF this] show ?thesis using ops_balanced(2) [OF assms(2,3)] by blast
next
  case (step_escheat_read e pip r)
  from ops_balanced(2) [OF assms(2,3) this] show ?thesis .
next
  case (step_escheat_write e pip balance tick r)
  from ops_balanced(3) [OF assms(2,3) this] show ?thesis .
next
  case (step_purchase unmarshal e v r)
  from handler_calls(5) [OF this] show ?thesis using ops_balanced(5) [OF assms(2,3)] assms(2,3) by blast
qed

lemma reach_keeps:
  assumes "bank_reach L s0 s" and "keep s0" and "balanced (bal s0) (jour s0)"
  shows "keep s \<and> balanced (bal s) (jour s)"
  using assms by (induction rule: bank_reach.induct) (auto dest: step_keeps)

lemma escheat_balanced:
  assumes "keep s" and "balanced (bal s) (jour s)" and "Escheat L es s pip tick = (r, s')"
  shows "keep s' \<and> balanced (bal s') (jour s')"
  using assms(3)
proof (cases rule: Escheat_cases)
  case read
  then show ?thesis using ops_balanced(2) [OF assms(1,2)] by blast
next
  case (wrote b s1 rt)
  then show ?thesis using ops_balanced(2) [OF assms(1,2)] ops_balanced(3) by blast
qed

lemma escheat_noop:
  assumes "keep s" and "sint (bal s (pip_account pip)) \<le> 0"
  shows "snd (Escheat L es s pip tick) = s"
proof -
  obtain r s' where run: "Escheat L es s pip tick = (r, s')" by fastforce
  then have "s' = s"
  proof (cases rule: Escheat_cases)
    case read
    then show ?thesis using get_reads [OF assms(1)] by blast
  next
    case (wrote b s1 rt)
    then have "b = bal s (pip_account pip)" using get_reads [OF assms(1)] by blast
    with wrote(2) assms(2) show ?thesis by simp
  qed
  with run show ?thesis by simp
qed

text \<open>An escheat never touches anybody but the pip and the treasury.\<close>

lemma escheat_frame:
  assumes "keep s" and "Escheat L es s pip tick = (r, s')"
    and "a \<noteq> pip_account pip" "a \<noteq> TreasuryAccount"
  shows "bal s' a = bal s a"
  using assms(2)
proof (cases rule: Escheat_cases)
  case read
  then show ?thesis using get_reads [OF assms(1)] by blast
next
  case (wrote b s1 rt)
  then have "s1 = s" using get_reads [OF assms(1)] by blast
  with transfer_books [OF assms(1)] wrote(3) assms(3,4) show ?thesis
    by (fastforce simp: books_def transfer_rows_def)
qed

end

end
