(* ===== verification/LedgerCalls.thy ===== *)
theory LedgerCalls
  imports PostgresCorrect
begin

text \<open>
  Sequences of calls on a ledger, written once over the interface: what a caller that retries does,
  and the simulation between the database ledger and the in-process one that the tests run
  against.
\<close>

section \<open>Calls and answers\<close>

datatype ledger_call =
  COpen string
| CGet string
| CTransfer string string i64 Kind u64
| CBatch string "Credit list" Kind u64

datatype answer = ABalance i64 | AResult Result

fun call :: "('e, 's) ledger_ops \<Rightarrow> 'e \<Rightarrow> 's \<Rightarrow> ledger_call \<Rightarrow> answer fallible \<times> 's" where
  "call L e s (COpen a) = map_prod (map_sum id ABalance) id (OpenAccount L e s a)"
| "call L e s (CGet a) = map_prod (map_sum id ABalance) id (GetBalance L e s a)"
| "call L e s (CTransfer p q n k t) = map_prod (map_sum id AResult) id (Transfer L e s p q n k t)"
| "call L e s (CBatch p cs k t) = map_prod (map_sum id AResult) id (BatchTransfer L e s p cs k t)"

fun calls :: "('e, 's) ledger_ops \<Rightarrow> 's \<Rightarrow> ('e \<times> ledger_call) list \<Rightarrow> answer fallible list \<times> 's" where
  "calls L s [] = ([], s)"
| "calls L s ((e, c) # cs) =
     (let (a, s1) = call L e s c; (as, s2) = calls L s1 cs in (a # as, s2))"

text \<open>A caller that tries the same transfer again and again, whatever it was answered.\<close>

definition attempts :: "('e, 's) ledger_ops \<Rightarrow> 'e list \<Rightarrow> string \<Rightarrow> string \<Rightarrow> i64 \<Rightarrow> Kind \<Rightarrow> u64 \<Rightarrow> 's \<Rightarrow> 's"
where
  "attempts L es p q n k t s = fold (\<lambda>e s. snd (Transfer L e s p q n k t)) es s"

section \<open>The simulation\<close>

text \<open>
  Two ledgers agree when they hold the same balances, the same journal and the same recorded
  results; the database keys results by four columns, the in-process ledger by one string.
\<close>

definition agrees :: "pgdb \<Rightarrow> memory \<Rightarrow> bool" where
  "agrees d m \<longleftrightarrow> keep_pg d \<and> (\<forall>a. getz (accounts d) a = getz (balances m) a) \<and> journal_of d = journal m
     \<and> (\<forall>p q t k. bar_free p \<longrightarrow> bar_free q \<longrightarrow>
          fmlookup (idempotency d) (p, q, t, k) = fmlookup (idempotent m) (idempotencyKey p q t k))"

text \<open>The calls on which the two report the same payer balance.\<close>

fun plain_call :: "ledger_call \<Rightarrow> bool" where
  "plain_call (CTransfer p q n k t) \<longleftrightarrow> bar_free p \<and> bar_free q \<and> p \<noteq> q"
| "plain_call (CBatch p cs k t) \<longleftrightarrow> bar_free p \<and> p \<notin> cr_Payee ` set cs"
| "plain_call _ \<longleftrightarrow> True"

lemma agrees_start: "agrees emptyDB NewMemory"
  by (simp add: agrees_def) (simp add: emptyDB_def NewMemory_def journal_of_def)

text \<open>A movement booked on both sides under the same key keeps them in agreement.\<close>

lemma agrees_booked:
  assumes "agrees d m" and "keep_pg d'" and "bar_free p" "bar_free q"
    and "books (getz (accounts d)) (journal_of d) es (getz (accounts d')) (journal_of d')"
    and "idempotency d' = fmupd (p, q, t, k) r (idempotency d)"
    and "\<And>a. getz bs a = getz (balances m) a + journal_balance es a"
  shows "agrees d' (m\<lparr>balances := bs, journal := journal m @ es,
    idempotent := fmupd (idempotencyKey p q t k) r (idempotent m)\<rparr>)"
  using assms by (auto simp: agrees_def books_def idempotencyKey_inj)

lemma getz_moved_payer: "p \<noteq> q \<Longrightarrow> getz (moved m p q n) p = getz (balances m) p - n"
  by (simp add: moved_def getz_addz getz_subz)

lemma getz_batch_moved_payer:
  assumes "p \<notin> cr_Payee ` set cs"
  shows "getz (batch_moved m p cs) p = getz (balances m) p - credits_total cs"
proof -
  have "filter (\<lambda>c. cr_Payee c = p) cs = []" using assms by (auto simp: filter_empty_conv)
  then show ?thesis
    by (simp add: getz_batch_moved [where i = "[]" and k = "[]" and t = 0] batch_rows_def
        journal_balance_def filter_map comp_def)
qed

lemma Postgres_Transfer_answered:
  assumes keep: "keep_pg d" and run: "Postgres_Transfer e d p q n k t = (Inr res, d')"
  obtains (replay) "fmlookup (idempotency d) (p, q, t, k) = Some res" "d' = d"
  | (refused) "fmlookup (idempotency d) (p, q, t, k) = None" "d' = d"
      "p \<noteq> TreasuryAccount" "sint (getz (accounts d) p) < sint n"
      "res = insufficient (getz (accounts d) p)"
  | (booked) "fmlookup (idempotency d) (p, q, t, k) = None"
      "p = TreasuryAccount \<or> sint n \<le> sint (getz (accounts d) p)"
      "res = accepted (getz (accounts d) p - n)"
      "books (getz (accounts d)) (journal_of d) (transfer_rows (new_uuid e) p q n k t)
         (getz (accounts d')) (journal_of d')"
      "idempotency d' = fmupd (p, q, t, k) res (idempotency d)" "keep_pg d'"
proof -
  have seq: "seq_ok d" using keep by (simp add: keep_pg_def)
  from computes_transfer run [unfolded Postgres_Transfer_def] show ?thesis
  proof (cases rule: run_tx_outcome)
    case (returned x d1)
    from seq returned(1) show ?thesis
      by (cases rule: transfer_sql_cases) (use returned in \<open>auto intro: replay refused\<close>)
  next
    case (committed x)
    from seq committed(1) show ?thesis
    proof (cases rule: transfer_sql_cases)
      case committed': committed
      have "keep_pg d'"
        by (rule keep_pg_record [OF keep committed'(6) _ committed'(7)])
           (simp add: committed'(4) accepted_def)
      with committed committed' show ?thesis by (intro booked) auto
    qed (use committed in auto)
  qed auto
qed

lemma Postgres_BatchTransfer_answered:
  assumes keep: "keep_pg d" and run: "Postgres_BatchTransfer e d p cs k t = (Inr res, d')"
  obtains (replay) "fmlookup (idempotency d) (p, ''batch'', t, k) = Some res" "d' = d"
  | (refused) "fmlookup (idempotency d) (p, ''batch'', t, k) = None" "d' = d"
      "p \<noteq> TreasuryAccount" "sint (getz (accounts d) p) < sint (credits_total cs)"
      "res = insufficient (getz (accounts d) p)"
  | (booked) "fmlookup (idempotency d) (p, ''batch'', t, k) = None"
      "p = TreasuryAccount \<or> sint (credits_total cs) \<le> sint (getz (accounts d) p)"
      "res = accepted (getz (accounts d) p - credits_total cs)"
      "books (getz (accounts d)) (journal_of d) (batch_rows (new_uuid e) p cs k t)
         (getz (accounts d')) (journal_of d')"
      "idempotency d' = fmupd (p, ''batch'', t, k) res (idempotency d)" "keep_pg d'"
proof -
  have seq: "seq_ok d" using keep by (simp add: keep_pg_def)
  from computes_batch run [unfolded Postgres_BatchTransfer_def] show ?thesis
  proof (cases rule: run_tx_outcome)
    case (returned x d1)
    from seq returned(1) show ?thesis
      by (cases rule: batch_sql_cases) (use returned in \<open>auto intro: replay refused\<close>)
  next
    case (committed x)
    from seq committed(1) show ?thesis
    proof (cases rule: batch_sql_cases)
      case committed': committed
      have "keep_pg d'"
        by (rule keep_pg_record [OF keep committed'(6) _ committed'(7)])
           (simp add: committed'(4) accepted_def)
      with committed committed' show ?thesis by (intro booked) auto
    qed (use committed in auto)
  qed auto
qed

lemma agrees_transfer:
  assumes ag: "agrees d m" and names: "bar_free p" "bar_free q" "p \<noteq> q"
    and run: "Postgres_Transfer e d p q n k t = (Inr res, d')"
  shows "\<exists>m'. Memory_Transfer (new_uuid e) m p q n k t = (res, m') \<and> agrees d' m'"
proof -
  have keep: "keep_pg d" and bal: "getz (accounts d) = getz (balances m)"
    and key: "fmlookup (idempotency d) (p, q, t, k) = fmlookup (idempotent m) (idempotencyKey p q t k)"
    using ag names by (auto simp: agrees_def)
  note steps = Memory_Transfer_cases [of m p q t k "new_uuid e" n]
  from keep run show ?thesis
  proof (cases rule: Postgres_Transfer_answered)
    case replay
    then show ?thesis by (cases rule: steps) (use ag key in auto)
  next
    case refused
    then show ?thesis by (cases rule: steps) (use ag key bal in auto)
  next
    case booked
    show ?thesis
    proof (cases rule: steps)
      case committed
      have "agrees d' (m\<lparr>balances := moved m p q n, journal := journal m @ transfer_rows (new_uuid e) p q n k t,
          idempotent := fmupd (idempotencyKey p q t k) res (idempotent m)\<rparr>)"
        by (rule agrees_booked [OF ag booked(6) names(1,2) booked(4,5) getz_moved])
      with committed booked(3) names(3) bal show ?thesis by (simp add: getz_moved_payer)
    qed (use booked key bal in auto)
  qed
qed

lemma agrees_batch:
  assumes ag: "agrees d m" and names: "bar_free p" "p \<notin> cr_Payee ` set cs"
    and run: "Postgres_BatchTransfer e d p cs k t = (Inr res, d')"
  shows "\<exists>m'. Memory_BatchTransfer (new_uuid e) m p cs k t = (res, m') \<and> agrees d' m'"
proof -
  have keep: "keep_pg d" and bal: "getz (accounts d) = getz (balances m)"
    and key: "fmlookup (idempotency d) (p, ''batch'', t, k) =
      fmlookup (idempotent m) (idempotencyKey p ''batch'' t k)"
    using ag names by (auto simp: agrees_def)
  note steps = Memory_BatchTransfer_cases [of m p t k "new_uuid e" cs]
  from keep run show ?thesis
  proof (cases rule: Postgres_BatchTransfer_answered)
    case replay
    then show ?thesis by (cases rule: steps) (use ag key in auto)
  next
    case refused
    then show ?thesis by (cases rule: steps) (use ag key bal in auto)
  next
    case booked
    show ?thesis
    proof (cases rule: steps)
      case committed
      have "agrees d' (m\<lparr>balances := batch_moved m p cs, journal := journal m @ batch_rows (new_uuid e) p cs k t,
          idempotent := fmupd (idempotencyKey p ''batch'' t k) res (idempotent m)\<rparr>)"
        by (rule agrees_booked [OF ag booked(6) names(1) bar_free_batch booked(4,5) getz_batch_moved])
      with committed booked(3) names(2) bal show ?thesis by (simp add: getz_batch_moved_payer)
    qed (use booked key bal in auto)
  qed
qed

lemma agrees_open:
  assumes ag: "agrees d m" and run: "Postgres_OpenAccount e d a = (Inr b, d')"
  shows "Memory_OpenAccount m a = b \<and> agrees d' m"
proof -
  have keep: "keep_pg d" using ag by (simp add: agrees_def)
  have "idempotency d' = idempotency d"
    using run by (auto simp: Postgres_OpenAccount_def split: option.splits)
  with Postgres_OpenAccount_reads [OF run keep] ag show ?thesis
    by (simp add: agrees_def Memory_OpenAccount_def)
qed

lemma agrees_call:
  assumes ag: "agrees d m" and plain: "plain_call c"
    and run: "call PostgresLedger e d c = (Inr a, d')"
  shows "\<exists>m'. call MemoryLedger (new_uuid e) m c = (Inr a, m') \<and> agrees d' m'"
proof (cases c)
  case (COpen x)
  with run obtain b where "Postgres_OpenAccount e d x = (Inr b, d')" "a = ABalance b"
    by (auto simp: PostgresLedger_def map_prod_def map_sum_def split: prod.splits sum.splits)
  with agrees_open [OF ag] COpen show ?thesis by (force simp: MemoryLedger_simps)
next
  case (CGet x)
  with run obtain b where b: "GetBalance PostgresLedger e d x = (Inr b, d')" "a = ABalance b"
    by (auto simp: map_prod_def map_sum_def split: prod.splits sum.splits)
  have "keep_pg d" using ag by (simp add: agrees_def)
  from pg.get_reads [OF this b(1)] ag have "d' = d" "b = getz (balances m) x"
    by (simp_all add: agrees_def)
  with ag b CGet show ?thesis by (simp add: MemoryLedger_def Memory_GetBalance_def)
next
  case (CTransfer p q n k t)
  with run obtain res where "Postgres_Transfer e d p q n k t = (Inr res, d')" "a = AResult res"
    by (auto simp: PostgresLedger_def map_prod_def map_sum_def split: prod.splits sum.splits)
  with agrees_transfer [OF ag] plain CTransfer show ?thesis by (force simp: MemoryLedger_def)
next
  case (CBatch p cs k t)
  with run obtain res where "Postgres_BatchTransfer e d p cs k t = (Inr res, d')" "a = AResult res"
    by (auto simp: PostgresLedger_def map_prod_def map_sum_def split: prod.splits sum.splits)
  with agrees_batch [OF ag] plain CBatch show ?thesis by (force simp: MemoryLedger_def)
qed

lemma agrees_calls:
  assumes "agrees d m" and "\<forall>(e, c) \<in> set cs. plain_call c"
    and "calls PostgresLedger d cs = (map Inr as, d')"
  shows "\<exists>m'. calls MemoryLedger m (map (\<lambda>(e, c). (new_uuid e, c)) cs) = (map Inr as, m') \<and> agrees d' m'"
  using assms
proof (induction cs arbitrary: d m as)
  case Nil
  then show ?case by auto
next
  case (Cons ec cs)
  obtain e c where ec: "ec = (e, c)" by (cases ec)
  obtain r d1 where step: "call PostgresLedger e d c = (r, d1)" by (cases "call PostgresLedger e d c")
  obtain rs d2 where rest: "calls PostgresLedger d1 cs = (rs, d2)" by (cases "calls PostgresLedger d1 cs")
  from Cons.prems(3) ec step rest obtain a as' where as: "as = a # as'" "r = Inr a" "rs = map Inr as'" "d' = d2"
    by (auto simp: Cons_eq_map_conv)
  obtain m1 where m1: "call MemoryLedger (new_uuid e) m c = (Inr a, m1)" "agrees d1 m1"
    using agrees_call [OF Cons.prems(1)] Cons.prems(2) step as ec by force
  obtain m' where "calls MemoryLedger m1 (map (\<lambda>(e, c). (new_uuid e, c)) cs) = (map Inr as', m')" "agrees d' m'"
    using Cons.IH [OF m1(2), of as'] Cons.prems(2) rest as(3,4) by auto
  with m1 as ec show ?case by auto
qed

end
