(* ===== verification/PostgresProps.thy ===== *)
theory PostgresProps
  imports LedgerCalls
begin

text \<open>
  The properties of the database ledger: retries, refinement of the in-process ledger, redelivered
  purchases.
\<close>

section \<open>Retries\<close>

lemma attempts_recorded:
  assumes "keep_pg d" and "fmlookup (idempotency d) (p, q, t, k) = Some res"
  shows "attempts PostgresLedger es p q n k t d = d"
  using assms
proof (induction es)
  case Nil
  then show ?case by (simp add: attempts_def)
next
  case (Cons e es)
  obtain r d1 where run: "Postgres_Transfer e d p q n k t = (r, d1)" by fastforce
  from Cons.prems(1) run have "d1 = d"
    by (cases rule: Postgres_Transfer_outcome) (use Cons.prems in auto)
  with Cons run show ?case by (simp add: attempts_def PostgresLedger_def)
qed

text \<open>After any attempts: nothing booked, or booked once and recorded.\<close>

lemma attempts_once:
  fixes n :: i64 and es :: "pg_env list"
  assumes "keep_pg d" and "fmlookup (idempotency d) (p, q, t, k) = None"
  defines "d' \<equiv> attempts PostgresLedger es p q n k t d"
  shows "d' = d \<or> (\<exists>i \<in> new_uuid ` set es. keep_pg d'
      \<and> books (getz (accounts d)) (journal_of d) (transfer_rows i p q n k t)
          (getz (accounts d')) (journal_of d')
      \<and> fmlookup (idempotency d') (p, q, t, k) = Some (accepted (getz (accounts d) p - n)))"
  unfolding d'_def using assms(1,2)
proof (induction es)
  case Nil
  then show ?case by (simp add: attempts_def)
next
  case (Cons e es)
  obtain r d1 where run: "Postgres_Transfer e d p q n k t = (r, d1)" by fastforce
  have step: "attempts PostgresLedger (e # es) p q n k t d = attempts PostgresLedger es p q n k t d1"
    using run by (simp add: attempts_def PostgresLedger_def)
  from Cons.prems(1) run show ?case
  proof (cases rule: Postgres_Transfer_outcome)
    case unchanged
    with Cons step show ?thesis by auto
  next
    case booked
    then have "attempts PostgresLedger es p q n k t d1 = d1"
      by (intro attempts_recorded) auto
    with booked step show ?thesis by auto
  qed
qed

text \<open>
  Retrying is safe. However many attempts were made, failed, refused, or applied with the
  answer lost, once one is answered with an acceptance the money has moved exactly once: the journal
  has grown by one debit and one credit under one transfer id, every balance moved by just these
  rows, and the answer is the one the first application computed.
\<close>

theorem Postgres_Transfer_retry_once:
  assumes "keep_pg d" and "fmlookup (idempotency d) (p, q, t, k) = None"
    and run: "Postgres_Transfer e (attempts PostgresLedger es p q n k t d) p q n k t = (Inr res, d')"
    and "OK res"
  shows "res = accepted (getz (accounts d) p - n)
    \<and> (\<exists>i \<in> new_uuid ` set (es @ [e]).
        books (getz (accounts d)) (journal_of d) (transfer_rows i p q n k t)
          (getz (accounts d')) (journal_of d'))"
proof -
  let ?d1 = "attempts PostgresLedger es p q n k t d"
  consider "?d1 = d" | i where "i \<in> new_uuid ` set es" "keep_pg ?d1"
      "books (getz (accounts d)) (journal_of d) (transfer_rows i p q n k t)
          (getz (accounts ?d1)) (journal_of ?d1)"
      "fmlookup (idempotency ?d1) (p, q, t, k) = Some (accepted (getz (accounts d) p - n))"
    using attempts_once [OF assms(1,2), of es n] by blast
  then show ?thesis
  proof cases
    case 1
    from assms(1) run [unfolded 1] show ?thesis
      by (cases rule: Postgres_Transfer_answered) (use assms(2,4) in \<open>auto simp: insufficient_def\<close>)
  next
    case 2
    from 2(2) run show ?thesis
      by (cases rule: Postgres_Transfer_answered) (use 2 in auto)
  qed
qed

text \<open>An environment whose commit was applied and reported as failed.\<close>

definition lost_env :: "string \<Rightarrow> pg_env" where
  "lost_env i = \<lparr>begin_error = None, stmt_errors = (\<lambda>_. None), commit_outcome = CommitLost ''eof'', new_uuid = i\<rparr>"

definition clean_env :: "string \<Rightarrow> pg_env" where
  "clean_env i = \<lparr>begin_error = None, stmt_errors = (\<lambda>_. None), commit_outcome = Committed, new_uuid = i\<rparr>"

lemma clean_env_simps [simp]: "clean (clean_env i)" "new_uuid (clean_env i) = i" "new_uuid (lost_env i) = i"
  by (simp_all add: clean_env_def lost_env_def clean_def)

lemmas tx_eval = run_tx_def tx_bind_def tx_return_def stmt_def sql_ensure_def sql_lock_def sql_add_def sql_sub_def
  sql_lookup_idempotent_def sql_record_idempotent_def tick_ok_def ensureAccount_def lockAccount_def
  lookupIdempotent_def recordIdempotent_def lockOrder_def fits64_def Let_def

theorem Postgres_Transfer_retry_once_witness:
  "\<exists>i \<in> {''u1'', ''u2''}. books (\<lambda>_. 0) [] (transfer_rows i TreasuryAccount ''pip:1'' 100 KindIssuance 1)
    (getz (accounts (snd (Postgres_Transfer (clean_env ''u2'')
       (attempts PostgresLedger [lost_env ''u1''] TreasuryAccount ''pip:1'' 100 KindIssuance 1 emptyDB)
       TreasuryAccount ''pip:1'' 100 KindIssuance 1))))
    (journal_of (snd (Postgres_Transfer (clean_env ''u2'')
       (attempts PostgresLedger [lost_env ''u1''] TreasuryAccount ''pip:1'' 100 KindIssuance 1 emptyDB)
       TreasuryAccount ''pip:1'' 100 KindIssuance 1)))"
proof -
  let ?run = "Postgres_Transfer (clean_env ''u2'')
       (attempts PostgresLedger [lost_env ''u1''] TreasuryAccount ''pip:1'' 100 KindIssuance 1 emptyDB)
       TreasuryAccount ''pip:1'' 100 KindIssuance 1"
  have fresh: "fmlookup (idempotency emptyDB) (TreasuryAccount, ''pip:1'', 1, KindIssuance) = None"
    by (simp add: emptyDB_def)
  have reads: "getz (accounts emptyDB) = (\<lambda>_. 0)" "journal_of emptyDB = []"
    by (simp_all add: emptyDB_def journal_of_def fun_eq_iff)
  have run: "?run = (Inr (accepted (- 100)), snd ?run)"
    by (simp add: attempts_def PostgresLedger_def Postgres_Transfer_def transfer_tx_def transfer_locked_tx_def tx_eval
        lost_env_def clean_env_def TreasuryAccount_def emptyDB_def KindIssuance_def getz_def entry_def)
  show ?thesis
    using Postgres_Transfer_retry_once [OF keep_pg_emptyDB fresh run]
    by (simp add: reads accepted_def)
qed

text \<open>
  C28: Liveness of a retry: an affordable transfer within range goes through as soon as the database
  answers cleanly, whatever happened to the attempts before it.
\<close>

theorem Postgres_Transfer_retry_succeeds:
  assumes keep: "keep_pg d" and fresh: "fmlookup (idempotency d) (p, q, t, k) = None"
    and tick: "tick_ok t" and fits: "move_fits (getz (accounts d)) p q n"
    and afford: "p = TreasuryAccount \<or> sint n \<le> sint (getz (accounts d) p)"
    and "clean e"
  shows "\<exists>d'. Postgres_Transfer e (attempts PostgresLedger es p q n k t d) p q n k t =
    (Inr (accepted (getz (accounts d) p - n)), d')"
proof -
  let ?d1 = "attempts PostgresLedger es p q n k t d"
  have run: "Postgres_Transfer e s p q n k t =
    (case transfer_sql (new_uuid e) p q n k t s of Inl er \<Rightarrow> (Inl er, s)
       | Inr ((x, c), d') \<Rightarrow> (Inr x, if c then d' else s))" for s
    unfolding Postgres_Transfer_def by (rule run_tx_clean [OF computes_transfer \<open>clean e\<close>])
  consider "?d1 = d"
    | "fmlookup (idempotency ?d1) (p, q, t, k) = Some (accepted (getz (accounts d) p - n))"
    using attempts_once [OF keep fresh, of es n] by blast
  then show ?thesis
  proof cases
    case 1
    have "seq_ok d" using keep by (simp add: keep_pg_def)
    then obtain d' where "transfer_sql (new_uuid e) p q n k t d =
        Inr ((accepted (getz (accounts d) p - n), True), d')"
      by (rule transfer_sql_books [OF _ tick fresh afford fits])
    with 1 run show ?thesis by simp
  next
    case 2
    with run tick show ?thesis by (simp add: transfer_sql_replay)
  qed
qed

theorem Postgres_Transfer_retry_succeeds_witness:
  "\<exists>d'. Postgres_Transfer (clean_env ''u2'')
      (attempts PostgresLedger [lost_env ''u1''] TreasuryAccount ''pip:1'' 100 KindIssuance 1 emptyDB)
      TreasuryAccount ''pip:1'' 100 KindIssuance 1 = (Inr (accepted (- 100)), d')"
proof -
  have "getz (accounts emptyDB) = (\<lambda>_. 0)" by (simp add: emptyDB_def fun_eq_iff)
  then show ?thesis
    using Postgres_Transfer_retry_succeeds [where d = emptyDB and p = TreasuryAccount and q = "''pip:1''"
      and n = 100 and k = KindIssuance and t = 1 and e = "clean_env ''u2''" and es = "[lost_env ''u1'']"]
    by (simp add: emptyDB_def [THEN arg_cong [where f = idempotency]] tick_ok_def move_fits_def fits64_def)
qed

section \<open>Refinement\<close>



text \<open>
  Where they part: a transfer from an account to itself that is booked leaves the balance as it
  was, and is answered with the balance by the in-process ledger but with the balance less the amount
  by the database one.
\<close>

theorem self_transfer_answers_differ:
  assumes "agrees d m" and "bar_free p" and "fmlookup (idempotent m) (idempotencyKey p p t k) = None"
    and "Postgres_Transfer e d p p n k t = (Inr res, d')" and "OK res"
  shows "PayerBalance res = getz (accounts d) p - n \<and> getz (accounts d') p = getz (accounts d) p
    \<and> (\<exists>m'. Memory_Transfer i m p p n k t = (accepted (getz (accounts d) p), m'))"
proof -
  have keep: "keep_pg d" and bal: "getz (accounts d) p = getz (balances m) p"
    and key: "fmlookup (idempotency d) (p, p, t, k) = None"
    using assms(1-3) by (auto simp: agrees_def)
  from keep assms(4) show ?thesis
  proof (cases rule: Postgres_Transfer_answered)
    case booked
    have "\<exists>m'. Memory_Transfer i m p p n k t = (accepted (getz (balances m) p), m')"
      by (cases rule: Memory_Transfer_cases [of m p p t k i n])
         (use assms(3) booked(2) bal in \<open>auto simp: moved_def getz_addz getz_subz\<close>)
    with booked bal show ?thesis by (simp add: accepted_def books_def transfer_rows_def)
  qed (use assms(5) key in \<open>auto simp: insufficient_def\<close>)
qed

theorem self_transfer_answers_differ_witness:
  "PayerBalance (projr (fst (Postgres_Transfer (clean_env ''u'') emptyDB TreasuryAccount TreasuryAccount 5 KindIssuance 1))) = - 5 \<and>
   (\<exists>m'. Memory_Transfer ''u'' NewMemory TreasuryAccount TreasuryAccount 5 KindIssuance 1 = (accepted 0, m'))"
proof -
  let ?run = "Postgres_Transfer (clean_env ''u'') emptyDB TreasuryAccount TreasuryAccount 5 KindIssuance 1"
  have run: "?run = (Inr (accepted (- 5)), snd ?run)"
    by (simp add: Postgres_Transfer_def transfer_tx_def transfer_locked_tx_def tx_eval clean_env_def TreasuryAccount_def
        emptyDB_def KindIssuance_def getz_def entry_def)
  have "bar_free TreasuryAccount" "fmlookup (idempotent NewMemory) x = None" "getz (accounts emptyDB) a = 0" for x a
    by (simp_all add: bar_free_def TreasuryAccount_def NewMemory_def emptyDB_def)
  note now = self_transfer_answers_differ [OF agrees_start this(1,2) run] this(3)
  have "fst ?run = Inr (accepted (- 5))" by (subst run) simp
  with now show ?thesis by (simp add: accepted_def)
qed

section \<open>Posted facts\<close>

lemma Postgres_Post_clean:
  assumes "keep_pg d" "tick_ok t" "move_fits (getz (accounts d)) p q n" "clean e"
  obtains d' where "Postgres_Post e d i p q n k t = (Inr (), d')" "keep_pg d'"
    "books (getz (accounts d)) (journal_of d) (transfer_rows i p q n k t)
      (getz (accounts d')) (journal_of d')"
proof -
  have seq: "seq_ok d" using assms(1) by (simp add: keep_pg_def)
  obtain d' where "post_sql i p q n k t d = Inr (((), True), d')"
    by (rule post_sql_books [OF seq assms(2,3)])
  then have run: "Postgres_Post e d i p q n k t = (Inr (), d')"
    unfolding Postgres_Post_def run_tx_clean [OF computes_post assms(4)] by simp
  from Postgres_Post_outcome [OF assms(1) run] run show ?thesis by (intro that) auto
qed

text \<open>
  C36: A purchase event delivered twice is booked once by the in-process ledger and twice by the
  database one: its conflict clause can never fire, because the only unique key of the journal is the
  row number it draws afresh.
\<close>

theorem Post_redelivered:
  assumes "keep_pg d" and "tick_ok t" and "p \<noteq> q" and "clean e" "clean e'"
    and "0 \<le> sint n" and "fits64 (sint (getz (accounts d) p) - 2 * sint n)"
    and "fits64 (sint (getz (accounts d) q) + 2 * sint n)"
  shows "(\<exists>d1 d2. Postgres_Post e d i p q n k t = (Inr (), d1) \<and> Postgres_Post e' d1 i p q n k t = (Inr (), d2)
      \<and> journal_of d2 = journal_of d @ transfer_rows i p q n k t @ transfer_rows i p q n k t
      \<and> sint (getz (accounts d2) q) = sint (getz (accounts d) q) + 2 * sint n)
    \<and> Memory_Post (Memory_Post m i p q n k t) i p q n k t = Memory_Post m i p q n k t"
proof -
  let ?b = "getz (accounts d)"
  have r: "- (2 ^ 63) \<le> sint (?b p)" "sint (?b p) < 2 ^ 63" "- (2 ^ 63) \<le> sint (?b q)" "sint (?b q) < 2 ^ 63"
    using sint_fits64 [of "?b p"] sint_fits64 [of "?b q"] by (simp_all only: fits64_def)
  have one: "fits64 (sint (?b p) - sint n)" "fits64 (sint (?b q) + sint n)"
    using assms(6-8) r by (simp_all add: fits64_def)
  note v = sint_sub64 [OF one(1)] sint_add64 [OF one(2)]
  have fits0: "move_fits ?b p q n" using one \<open>p \<noteq> q\<close> by (simp add: move_fits_def)
  obtain d1 where d1: "Postgres_Post e d i p q n k t = (Inr (), d1)" "keep_pg d1"
    "books ?b (journal_of d) (transfer_rows i p q n k t) (getz (accounts d1)) (journal_of d1)"
    by (rule Postgres_Post_clean [OF assms(1,2) fits0 assms(4)])
  then have b1: "getz (accounts d1) p = ?b p - n" "getz (accounts d1) q = ?b q + n"
    using \<open>p \<noteq> q\<close> by (simp_all add: books_def transfer_rows_def)
  have v2: "sint (?b p - n) - sint n = sint (?b p) - 2 * sint n"
    "sint (?b q + n) + sint n = sint (?b q) + 2 * sint n" by (simp_all add: v)
  have fits: "move_fits (getz (accounts d1)) p q n"
    using assms(7,8) \<open>p \<noteq> q\<close> by (simp add: move_fits_def b1 v2)
  obtain d2 where d2: "Postgres_Post e' d1 i p q n k t = (Inr (), d2)"
    "books (getz (accounts d1)) (journal_of d1) (transfer_rows i p q n k t) (getz (accounts d2)) (journal_of d2)"
    by (rule Postgres_Post_clean [OF d1(2) assms(2) fits assms(5)])
  have "getz (accounts d2) q = ?b q + n + n"
    using d2(2) \<open>p \<noteq> q\<close> b1 by (simp add: books_def transfer_rows_def)
  then have "sint (getz (accounts d2) q) = sint (?b q) + 2 * sint n"
    using assms(8) sint_add64 [of "?b q + n" n] by (simp only: v2)
  moreover have "Memory_Post (Memory_Post m i p q n k t) i p q n k t = Memory_Post m i p q n k t"
    by (simp add: Memory_Post_def split: option.splits)
  ultimately show ?thesis using d1 d2 by (auto simp: books_def)
qed

theorem Post_redelivered_witness:
  "\<exists>d1 d2. Postgres_Post (clean_env ''u'') emptyDB ''ev-1'' ''pip:1'' ''workplace:2'' 30 KindPurchase 5 = (Inr (), d1)
      \<and> Postgres_Post (clean_env ''v'') d1 ''ev-1'' ''pip:1'' ''workplace:2'' 30 KindPurchase 5 = (Inr (), d2)
      \<and> sint (getz (accounts d2) ''workplace:2'') = 60"
proof -
  have "getz (accounts emptyDB) a = 0" for a by (simp add: emptyDB_def)
  then show ?thesis
    using Post_redelivered [where d = emptyDB and t = 5 and p = "''pip:1''" and q = "''workplace:2''"
      and n = 30 and e = "clean_env ''u''" and e' = "clean_env ''v''" and i = "''ev-1''"
      and k = KindPurchase and m = NewMemory]
    by (auto simp: tick_ok_def fits64_def)
qed

end
