(* ===== verification/BankProps.thy ===== *)
theory BankProps
  imports BankApi PostgresProps
begin

text \<open>
  The properties of the bank service: its books, what its handler lets through, the facts it
  publishes, the escheat of a dead pip under failures, and what its consumers commit.
\<close>

section \<open>The books\<close>

lemma balanced_start: "balanced (getz (balances NewMemory)) (journal NewMemory)"
  "balanced (getz (accounts emptyDB)) (journal_of emptyDB)" "results_ok NewMemory"
  by (simp_all add: balanced_def NewMemory_def emptyDB_def journal_of_def results_ok_def)

text \<open>
  C15: The books always balance. In every state the bank can reach from empty books, by any requests
  and any events in any order, with any failures of the database, every balance is the sum of the
  journal rows of its account and the whole journal sums to zero, on both ledgers.
\<close>

theorem bank_books_balance:
  assumes "bank_reach MemoryLedger NewMemory m" and "bank_reach PostgresLedger emptyDB d"
  shows "getz (balances m) a = journal_balance (journal m) a \<and> journal_total (journal m) = 0
    \<and> getz (accounts d) a = journal_balance (journal_of d) a \<and> journal_total (journal_of d) = 0"
  using mem.reach_keeps [OF assms(1)] pg.reach_keeps [OF assms(2)] balanced_start
  by (simp add: balanced_def)

theorem bank_books_balance_witness:
  "getz (balances (snd (Memory_Transfer ''u'' NewMemory (pip_account 1) TreasuryAccount 0 KindEscheat 1))) (pip_account 1)
    = journal_balance (journal (snd (Memory_Transfer ''u'' NewMemory (pip_account 1) TreasuryAccount 0 KindEscheat 1))) (pip_account 1)"
proof -
  let ?m = "snd (Memory_Transfer ''u'' NewMemory (pip_account 1) TreasuryAccount 0 KindEscheat 1)"
  have "bank_step MemoryLedger NewMemory ?m"
    by (rule step_escheat_write [where e = "''u''" and balance = 0 and tick = 1 and pip = 1, OF prod.collapse
        [symmetric, of "Transfer MemoryLedger ''u'' NewMemory (pip_account 1) TreasuryAccount 0 KindEscheat 1",
         THEN trans]])
       (simp add: MemoryLedger_def)
  then have "bank_reach MemoryLedger NewMemory ?m" by (rule bank_reach.reach_step [OF bank_reach.reach_start])
  from bank_books_balance [OF this bank_reach.reach_start] show ?thesis by blast
qed

section \<open>The handler\<close>

text \<open>
  C37: The handler takes an amount of either sign: a transfer of a negative amount to somebody else is
  accepted from any account that is not in debt, and takes the money from the payee, who is not asked
  whether he has it.
\<close>

theorem Handler_Transfer_negative_amount:
  assumes "tq_Payer r \<noteq> []" "tq_Payee r \<noteq> []" "tq_Payer r \<noteq> tq_Payee r"
    and "sint (tq_Amount r) < 0" "0 \<le> sint (getz (balances m) (tq_Payer r))"
    and "fmlookup (idempotent m) (idempotencyKey (tq_Payer r) (tq_Payee r) (tq_Tick r)
           (kindFromProto (tq_Kind r))) = None"
    and "Handler_Transfer MemoryLedger ev i (m, k) r = (resp, m', k')"
  shows "\<exists>res. resp = Inr res \<and> OK res
    \<and> getz (balances m') (tq_Payee r) = getz (balances m) (tq_Payee r) + tq_Amount r"
  using assms
  by (cases rule: Memory_Transfer_cases [of m "tq_Payer r" "tq_Payee r" "tq_Tick r"
        "kindFromProto (tq_Kind r)" i "tq_Amount r"])
     (auto simp: Handler_Transfer_def MemoryLedger_def Let_def accepted_def moved_def getz_addz getz_subz)

theorem Handler_Transfer_negative_amount_witness:
  "getz (balances (fst (snd (Handler_Transfer MemoryLedger noopPublisher ''u'' (NewMemory, ())
     \<lparr>tq_Payer = ''pip:1'', tq_Payee = ''pip:2'', tq_Amount = - 50, tq_Kind = TRANSFER_KIND_WAGE, tq_Tick = 3\<rparr>))))
     ''pip:2'' = - 50"
proof -
  let ?r = "\<lparr>tq_Payer = ''pip:1'', tq_Payee = ''pip:2'', tq_Amount = - 50, tq_Kind = TRANSFER_KIND_WAGE, tq_Tick = 3\<rparr>"
  let ?run = "Handler_Transfer MemoryLedger noopPublisher ''u'' (NewMemory, ()) ?r"
  have "?run = (fst ?run, fst (snd ?run), snd (snd ?run))" by (simp only: prod.collapse)
  from Handler_Transfer_negative_amount [OF _ _ _ _ _ _ this] show ?thesis by (auto simp: NewMemory_def)
qed

section \<open>The facts of a payroll\<close>

definition wage_message :: "kafka_env \<Rightarrow> (EventEnvelope \<Rightarrow> string) \<Rightarrow> string \<Rightarrow> u64 \<Rightarrow> nat \<times> Credit \<Rightarrow> string \<times> string"
where
  "wage_message e enc payer tick nc =
     (cr_Payee (snd nc),
      enc (money_envelope e (fst nc) tick (WagePaid payer (cr_Payee (snd nc)) (cr_Amount (snd nc)))))"

lemma publish_wages_enqueues:
  assumes "\<And>v. proto_Marshal e v = Inr (enc v)" and "\<And>n. room_at e n"
  shows "publish_wages (KafkaPublisher e) payer tick cs k =
    \<lparr>publish_calls = publish_calls k + length cs,
     enqueued = enqueued k @ map (wage_message e enc payer tick) (enumerate (publish_calls k) cs)\<rparr>"
proof (induction cs arbitrary: k)
  case Nil
  then show ?case by (simp add: publish_wages_def)
next
  case (Cons c cs)
  then show ?case
    using assms by (simp add: publish_wages_def KafkaPublisher_def KafkaEvents_WagePaid_def
        KafkaEvents_publish_def wage_message_def Let_def)
qed

lemma Handler_payroll:
  assumes "bq_Payer b \<noteq> []" and "bq_Kind b = TRANSFER_KIND_WAGE"
    and "Memory_BatchTransfer i m (bq_Payer b) (bq_Credits b) KindWage (bq_Tick b) = (res, m1)"
  shows "Handler_BatchTransfer MemoryLedger ev i (m, k) b = (Inr res, m1,
    if OK res then publish_wages ev (bq_Payer b) (bq_Tick b) (bq_Credits b) k
    else pub_AccountOverdrawn ev (bq_Payer b) (credits_total (bq_Credits b)) (PayerBalance res) (bq_Tick b) k)"
  using assms by (simp add: Handler_BatchTransfer_def MemoryLedger_def kindFromProto_def Let_def)

text \<open>
  The facts of a payroll: when the broker takes everything, a payroll the ledger accepted
  publishes one \<^verbatim>\<open>WagePaid\<close> per credit, in the order of the credits, keyed by the payee. The same
  holds of a repeated request, which the ledger answers from its record without moving money: the
  facts are published once more, under fresh event ids.
\<close>

theorem payroll_facts_repeat:
  assumes enc: "\<And>v. proto_Marshal e v = Inr (enc v)" and room: "\<And>n. room_at e n"
    and payer: "bq_Payer b \<noteq> []" and wage: "bq_Kind b = TRANSFER_KIND_WAGE"
    and first: "Handler_BatchTransfer MemoryLedger (KafkaPublisher e) i (m, k) b = (Inr res, m1, k1)" "OK res"
    and again: "Handler_BatchTransfer MemoryLedger (KafkaPublisher e) j (m1, k1) b = (resp, m2, k2)"
  shows "resp = Inr res \<and> m2 = m1
    \<and> enqueued k2 = enqueued k
        @ map (wage_message e enc (bq_Payer b) (bq_Tick b)) (enumerate (publish_calls k) (bq_Credits b))
        @ map (wage_message e enc (bq_Payer b) (bq_Tick b))
            (enumerate (publish_calls k + length (bq_Credits b)) (bq_Credits b))"
proof -
  let ?B = "\<lambda>i m. Memory_BatchTransfer i m (bq_Payer b) (bq_Credits b) KindWage (bq_Tick b)"
  obtain r0 m0 where B: "?B i m = (r0, m0)" by fastforce
  from first(1) [unfolded Handler_payroll [OF payer wage B]] first(2) B
  have k1: "?B i m = (res, m1)"
    "k1 = publish_wages (KafkaPublisher e) (bq_Payer b) (bq_Tick b) (bq_Credits b) k"
    by auto
  have replay: "?B j m1 = (res, m1)"
    using k1(1) first(2)
    by (cases rule: Memory_BatchTransfer_cases [of m "bq_Payer b" "bq_Tick b" KindWage i "bq_Credits b"])
       (auto simp: insufficient_def Memory_BatchTransfer_def)
  from again [unfolded Handler_payroll [OF payer wage replay]] first(2) have "resp = Inr res" "m2 = m1"
    "k2 = publish_wages (KafkaPublisher e) (bq_Payer b) (bq_Tick b) (bq_Credits b) k1"
    by simp_all
  then show ?thesis
    by (simp add: k1(2) publish_wages_enqueues [OF enc room])
qed

theorem payroll_facts_repeat_witness:
  "let e = \<lparr>uuid_at = (\<lambda>n. if n = 0 then ''id0'' else ''id1''), now_at = (\<lambda>_. 0),
         proto_Marshal = (\<lambda>v. Inr (EventId v)), room_at = (\<lambda>_. True)\<rparr>;
       b = \<lparr>bq_Payer = ''treasury'', bq_Credits = [\<lparr>cr_Payee = ''pip:1'', cr_Amount = 30\<rparr>],
         bq_Kind = TRANSFER_KIND_WAGE, bq_Tick = 4\<rparr>;
       run = (\<lambda>i st. Handler_BatchTransfer MemoryLedger (KafkaPublisher e) i st b);
       first = run ''u'' (NewMemory, \<lparr>publish_calls = 0, enqueued = []\<rparr>)
   in enqueued (snd (snd (run ''v'' (snd first)))) = [(''pip:1'', ''id0''), (''pip:1'', ''id1'')]"
proof -
  let ?e = "\<lparr>uuid_at = (\<lambda>n. if n = 0 then ''id0'' else ''id1''), now_at = (\<lambda>_. 0),
    proto_Marshal = (\<lambda>v. Inr (EventId v)), room_at = (\<lambda>_. True)\<rparr>"
  let ?b = "\<lparr>bq_Payer = ''treasury'', bq_Credits = [\<lparr>cr_Payee = ''pip:1'', cr_Amount = 30\<rparr>],
    bq_Kind = TRANSFER_KIND_WAGE, bq_Tick = 4\<rparr>"
  let ?k = "\<lparr>publish_calls = 0, enqueued = []\<rparr>"
  let ?first = "Handler_BatchTransfer MemoryLedger (KafkaPublisher ?e) ''u'' (NewMemory, ?k) ?b"
  let ?again = "Handler_BatchTransfer MemoryLedger (KafkaPublisher ?e) ''v'' (snd ?first) ?b"
  have first: "?first = (Inr (accepted (- 30)), fst (snd ?first), snd (snd ?first))"
    by (simp add: Handler_BatchTransfer_def MemoryLedger_def kindFromProto_def Memory_BatchTransfer_def
        TreasuryAccount_def NewMemory_def credits_total_def accepted_def Let_def getz_addz getz_subz)
  have again: "Handler_BatchTransfer MemoryLedger (KafkaPublisher ?e) ''v'' (fst (snd ?first), snd (snd ?first)) ?b =
      (fst ?again, fst (snd ?again), snd (snd ?again))" by (simp only: prod.collapse)
  from payroll_facts_repeat [OF _ _ _ _ first _ again, of EventId]
  have "enqueued (snd (snd ?again)) = [(''pip:1'', ''id0''), (''pip:1'', ''id1'')]"
    by (simp add: accepted_def wage_message_def money_envelope_def)
  then show ?thesis unfolding Let_def .
qed

section \<open>Escheat\<close>

definition escheats :: "(pg_env \<times> pg_env) list \<Rightarrow> u64 \<Rightarrow> u64 \<Rightarrow> pgdb \<Rightarrow> pgdb" where
  "escheats es pip tick d = fold (\<lambda>e d. snd (Escheat PostgresLedger e d pip tick)) es d"

lemma pip_account_not_treasury [simp]: "pip_account pip \<noteq> TreasuryAccount" "TreasuryAccount \<noteq> pip_account pip"
  by (simp_all add: pip_account_def TreasuryAccount_def)

text \<open>One attempt on a purse not yet reclaimed in this tick.\<close>

lemma Escheat_attempt:
  assumes keep: "keep_pg d" and fresh: "fmlookup (idempotency d) (pip_account pip, TreasuryAccount, tick, KindEscheat) = None"
    and run: "Escheat PostgresLedger es d pip tick = (r, d')"
  shows "(d' = d \<and> (r = Inr () \<longrightarrow> sint (getz (accounts d) (pip_account pip)) \<le> 0)) \<or>
    (keep_pg d' \<and> getz (accounts d') (pip_account pip) = 0
     \<and> getz (accounts d') TreasuryAccount = getz (accounts d) TreasuryAccount + getz (accounts d) (pip_account pip)
     \<and> (\<forall>a. a \<noteq> pip_account pip \<longrightarrow> a \<noteq> TreasuryAccount \<longrightarrow> getz (accounts d') a = getz (accounts d) a))"
proof -
  let ?p = "pip_account pip"
  have get: "GetBalance PostgresLedger e d a = (rb, s) \<Longrightarrow> s = d \<and> (\<forall>b. rb = Inr b \<longrightarrow> b = getz (accounts d) a)"
    for e a rb s using pg.get_reads [OF keep] by blast
  obtain rb s1 where g: "GetBalance PostgresLedger (fst es) d ?p = (rb, s1)" by fastforce
  show ?thesis
  proof (cases "rb = Inr (getz (accounts d) ?p) \<and> 0 < sint (getz (accounts d) ?p)")
    case False
    show ?thesis
    proof (cases rb)
      case (Inl er)
      with run g get [OF g] show ?thesis by (auto simp: Escheat_def)
    next
      case (Inr b)
      with get [OF g] have "b = getz (accounts d) ?p" "s1 = d" by simp_all
      with run g False Inr show ?thesis by (simp add: Escheat_def)
    qed
  next
    case True
    let ?n = "getz (accounts d) ?p"
    obtain rt d2 where t: "Postgres_Transfer (snd es) d ?p TreasuryAccount ?n KindEscheat tick = (rt, d2)"
      by fastforce
    have "s1 = d" using get [OF g] by simp
    with run g t True have r: "d' = d2" "r = Inr () \<longleftrightarrow> (\<exists>res. rt = Inr res)"
      by (auto simp: Escheat_def PostgresLedger_def split: sum.splits)
    from keep t show ?thesis
    proof (cases rule: Postgres_Transfer_outcome)
      case booked
      then show ?thesis using r by (auto simp: books_def transfer_rows_def)
    next
      case unchanged
      have "rt \<noteq> Inr res" for res
      proof
        assume "rt = Inr res"
        with keep t have "Postgres_Transfer (snd es) d ?p TreasuryAccount ?n KindEscheat tick = (Inr res, d)"
          using unchanged by simp
        with keep show False
        proof (cases rule: Postgres_Transfer_answered)
          case booked
          from booked(5) have "idempotency d = fmupd (?p, TreasuryAccount, tick, KindEscheat) res (idempotency d)" .
          then have "fmlookup (idempotency d) (?p, TreasuryAccount, tick, KindEscheat) = Some res"
            by (metis fmupd_lookup)
          with fresh show False by simp
        qed (use fresh in auto)
      qed
      then show ?thesis using r unchanged by auto
    qed
  qed
qed

lemma escheats_empty:
  assumes "keep_pg d" and "sint (getz (accounts d) (pip_account pip)) \<le> 0"
  shows "escheats es pip tick d = d"
proof (induction es)
  case (Cons e es)
  have "snd (Escheat PostgresLedger e d pip tick) = d" by (rule pg.escheat_noop) (use assms in auto)
  with Cons show ?case by (simp add: escheats_def)
qed (simp add: escheats_def)

text \<open>
  C16: A dead pip's purse is reclaimed once. However often the event is redelivered and whatever the
  database does to the attempts, once one of them is answered without an error the pip holds nothing
  (or was never positive and is untouched), the treasury has gained exactly what the pip held, and
  nobody else's balance moved.
\<close>

theorem Escheat_exactly_once:
  assumes keep: "keep_pg d"
    and fresh: "fmlookup (idempotency d) (pip_account pip, TreasuryAccount, tick, KindEscheat) = None"
    and alive: "0 < sint (getz (accounts d) (pip_account pip))"
    and run: "Escheat PostgresLedger e (escheats es pip tick d) pip tick = (Inr (), d')"
  shows "getz (accounts d') (pip_account pip) = 0
    \<and> getz (accounts d') TreasuryAccount = getz (accounts d) TreasuryAccount + getz (accounts d) (pip_account pip)
    \<and> (\<forall>a. a \<noteq> pip_account pip \<longrightarrow> a \<noteq> TreasuryAccount \<longrightarrow> getz (accounts d') a = getz (accounts d) a)"
proof -
  let ?done = "\<lambda>s. keep_pg s \<and> getz (accounts s) (pip_account pip) = 0
    \<and> getz (accounts s) TreasuryAccount = getz (accounts d) TreasuryAccount + getz (accounts d) (pip_account pip)
    \<and> (\<forall>a. a \<noteq> pip_account pip \<longrightarrow> a \<noteq> TreasuryAccount \<longrightarrow> getz (accounts s) a = getz (accounts d) a)"
  have "escheats es pip tick d = d \<or> ?done (escheats es pip tick d)"
  proof (induction es)
    case (Cons e0 es0)
    obtain r s where one: "Escheat PostgresLedger e0 d pip tick = (r, s)" by fastforce
    have step: "escheats (e0 # es0) pip tick d = escheats es0 pip tick s" by (simp add: escheats_def one)
    from Escheat_attempt [OF keep fresh one] consider "s = d" | "?done s" by blast
    then show ?case by cases (use Cons step escheats_empty in auto)
  qed (simp add: escheats_def)
  then show ?thesis
  proof
    assume "escheats es pip tick d = d"
    with run have "Escheat PostgresLedger e d pip tick = (Inr (), d')" by simp
    from Escheat_attempt [OF keep fresh this] alive show ?thesis by auto
  next
    assume fin: "?done (escheats es pip tick d)"
    have "d' = escheats es pip tick d"
      using run escheats_empty [of "escheats es pip tick d" pip "[e]" tick] fin by (simp add: escheats_def)
    with fin show ?thesis by simp
  qed
qed

text \<open>A database holding one pip's purse, as an issuance leaves it.\<close>

definition funded :: "string \<Rightarrow> i64 \<Rightarrow> pgdb" where
  "funded a n = \<lparr>accounts = fmupd a n (fmupd TreasuryAccount (- n) fmempty),
     journal_rows = [(1, entry ''u0'' TreasuryAccount (- n) KindIssuance 1), (2, entry ''u0'' a n KindIssuance 1)],
     journal_seq = 3, idempotency = fmempty\<rparr>"

lemma funded_keep: "keep_pg (funded a n)"
  by (simp add: keep_pg_def seq_ok_def funded_def)

theorem Escheat_exactly_once_witness:
  "let es = [(clean_env ''u1'', lost_env ''u2''), (clean_env ''u3'', clean_env ''u4'')];
       d' = snd (Escheat PostgresLedger (clean_env ''u5'', clean_env ''u6'')
              (escheats es 7 20 (funded (pip_account 7) 60)) 7 20)
   in getz (accounts d') TreasuryAccount = 0 \<and> getz (accounts d') (pip_account 7) = 0"
proof -
  let ?es = "[(clean_env ''u1'', lost_env ''u2''), (clean_env ''u3'', clean_env ''u4'')]"
  let ?d = "funded (pip_account 7) 60"
  let ?run = "Escheat PostgresLedger (clean_env ''u5'', clean_env ''u6'') (escheats ?es 7 20 ?d) 7 20"
  have lookups: "getz (accounts ?d) (pip_account 7) = 60" "getz (accounts ?d) TreasuryAccount = - 60"
    "idempotency ?d = fmempty" by (simp_all add: funded_def)
  have run: "?run = (Inr (), snd ?run)"
    by (simp add: escheats_def Escheat_def PostgresLedger_def Postgres_GetBalance_def Postgres_Transfer_def
        transfer_tx_def transfer_locked_tx_def tx_eval clean_env_def lost_env_def funded_def getz_def TreasuryAccount_def
        pip_account_def KindEscheat_def KindIssuance_def entry_def FormatUint_def digit_def)
  have "fmlookup (idempotency ?d) (pip_account 7, TreasuryAccount, 20, KindEscheat) = None"
    and "0 < sint (getz (accounts ?d) (pip_account 7))" by (simp_all add: lookups)
  from Escheat_exactly_once [OF funded_keep this run] show ?thesis
    unfolding Let_def by (simp add: lookups)
qed

text \<open>
  Money that reaches a pip after its escheat stays there: a wage that lands later is not moved by
  the death event delivered again, which is answered from the record of the first escheat, although
  the handler reports success.
\<close>

theorem Escheat_late_credit_stranded:
  assumes keep: "keep_pg d"
    and seen: "fmlookup (idempotency d) (pip_account pip, TreasuryAccount, tick, KindEscheat) = Some res"
    and clean: "clean (fst e)" "clean (snd e)" and tick: "tick_ok tick"
  shows "Escheat PostgresLedger e d pip tick = (Inr (), d)"
proof -
  have "Postgres_GetBalance (fst e) d a = (Inr (getz (accounts d) a), d)" for a
    using clean(1) by (auto simp: Postgres_GetBalance_def clean_def getz_def split: option.splits)
  moreover have "Postgres_Transfer (snd e) d (pip_account pip) TreasuryAccount n KindEscheat tick = (Inr res, d)" for n
    unfolding Postgres_Transfer_def run_tx_clean [OF computes_transfer clean(2)]
    by (simp add: transfer_sql_replay [OF tick seen])
  ultimately show ?thesis by (simp add: Escheat_def PostgresLedger_def Let_def)
qed

theorem Escheat_late_credit_stranded_witness:
  "let d = (funded (pip_account 7) 30)\<lparr>idempotency := fmupd (pip_account 7, TreasuryAccount, 20, KindEscheat) (accepted 0) fmempty\<rparr>
   in getz (accounts (snd (Escheat PostgresLedger (clean_env ''u5'', clean_env ''u6'') d 7 20))) (pip_account 7) = 30"
proof -
  let ?d = "(funded (pip_account 7) 30)\<lparr>idempotency := fmupd (pip_account 7, TreasuryAccount, 20, KindEscheat) (accepted 0) fmempty\<rparr>"
  have "keep_pg ?d" using funded_keep [of "pip_account 7" 30] by (simp add: keep_pg_def accepted_def)
  then have "Escheat PostgresLedger (clean_env ''u5'', clean_env ''u6'') ?d 7 20 = (Inr (), ?d)"
    by (rule Escheat_late_credit_stranded) (simp_all add: tick_ok_def)
  then show ?thesis unfolding Let_def by (simp add: funded_def)
qed

section \<open>The consumers\<close>

text \<open>
  C31: The consumers commit only what they handled: every message handed to the commit was fetched,
  and handling it, on the ledger as it was then, gave no error.
\<close>

theorem consumers_commit_only_handled:
  assumes "LifecycleConsumer_Run unmarshal L fs s = (s', committed)" and "m \<in> set committed"
    and "PurchaseConsumer_Run unmarshal L gs t = (t', committed')" and "m' \<in> set committed'"
  shows "(\<exists>fs1 es fs2 s1. fs = fs1 @ Fetched m es True # fs2
      \<and> LifecycleConsumer_handle unmarshal L es (fst (LifecycleConsumer_Run unmarshal L fs1 s)) (msg_Value m) = (Inr (), s1))
    \<and> (\<exists>gs1 e gs2 t1. gs = gs1 @ Fetched m' e True # gs2
      \<and> PurchaseConsumer_handle unmarshal L e (fst (PurchaseConsumer_Run unmarshal L gs1 t)) (msg_Value m') = (Inr (), t1))"
  using Consumer_Run_committed [OF assms(1) [unfolded LifecycleConsumer_Run_def] assms(2)]
    Consumer_Run_committed [OF assms(3) [unfolded PurchaseConsumer_Run_def] assms(4)]
  unfolding LifecycleConsumer_Run_def PurchaseConsumer_Run_def by blast

theorem consumers_commit_only_handled_witness:
  "let m = \<lparr>msg_Partition = 0, msg_Offset = 4, msg_Value = ''junk''\<rparr> in
   \<exists>fs1 es fs2 s1. [FetchFailed ''eof'', Fetched m (''u'', ''v'') True] = fs1 @ Fetched m es True # fs2
     \<and> LifecycleConsumer_handle (\<lambda>_. None) MemoryLedger es
         (fst (LifecycleConsumer_Run (\<lambda>_. None) MemoryLedger fs1 NewMemory)) (msg_Value m) = (Inr (), s1)"
proof -
  let ?m = "\<lparr>msg_Partition = 0, msg_Offset = 4, msg_Value = ''junk''\<rparr>"
  have "LifecycleConsumer_Run (\<lambda>_. None) MemoryLedger [FetchFailed ''eof'', Fetched ?m (''u'', ''v'') True] NewMemory
      = (NewMemory, [?m])"
    by (simp add: LifecycleConsumer_Run_def LifecycleConsumer_handle_def)
  moreover have "PurchaseConsumer_Run (\<lambda>_. None) MemoryLedger [Fetched ?m ''u'' True] NewMemory = (NewMemory, [?m])"
    by (simp add: PurchaseConsumer_Run_def PurchaseConsumer_handle_def)
  ultimately show ?thesis
    unfolding Let_def using consumers_commit_only_handled by (metis list.set_intros(1))
qed

text \<open>
  C38: A purchase whose booking failed is left behind: the consumer goes on to the next message of the
  partition in the same session, books it and commits its offset, which lies beyond the failed one;
  the failed purchase has no rows in the journal.
\<close>

theorem PurchaseConsumer_passes_failed:
  assumes keep: "keep_pg d"
    and first: "unmarshal (msg_Value mf) = Some vf" "GetPurchaseMade vf = Some (pf, qf, nf)"
      "begin_error ef = Some err"
    and second: "unmarshal (msg_Value ms) = Some vs" "GetPurchaseMade vs = Some (p, q, n)" "EventId vs \<noteq> []"
      "clean es" "tick_ok (Envelope_Tick vs)" "move_fits (getz (accounts d)) p q n"
  shows "\<exists>d'. PurchaseConsumer_Run unmarshal PostgresLedger [Fetched mf ef cf, Fetched ms es True] d = (d', [ms])
    \<and> journal_of d' = journal_of d @ transfer_rows (EventId vs) p q n KindPurchase (Envelope_Tick vs)"
proof -
  have fail: "\<exists>er. PurchaseConsumer_handle unmarshal PostgresLedger ef d (msg_Value mf) = (Inl er, d)"
    using first by (simp add: PurchaseConsumer_handle_def BookPurchase_def PostgresLedger_def
        Postgres_Post_def run_tx_def)
  obtain d' where post: "Postgres_Post es d (EventId vs) p q n KindPurchase (Envelope_Tick vs) = (Inr (), d')"
    "books (getz (accounts d)) (journal_of d) (transfer_rows (EventId vs) p q n KindPurchase (Envelope_Tick vs))
      (getz (accounts d')) (journal_of d')"
    by (rule Postgres_Post_clean [OF keep second(5,6,4)])
  have "PurchaseConsumer_handle unmarshal PostgresLedger es d (msg_Value ms) = (Inr (), d')"
    using second post(1) by (simp add: PurchaseConsumer_handle_def BookPurchase_def PostgresLedger_def)
  with fail post(2) show ?thesis by (auto simp: PurchaseConsumer_Run_def books_def)
qed

theorem PurchaseConsumer_passes_failed_witness:
  "let v = \<lambda>i. \<lparr>EventId = i, Envelope_Tick = 9, OccurredAt = 0, Producer = ''sim-core'',
         Envelope_Payload = PurchaseMade ''pip:1'' ''workplace:2'' 50 1\<rparr>;
       m = \<lambda>x i. \<lparr>msg_Partition = 0, msg_Offset = x, msg_Value = i\<rparr>;
       down = (clean_env ''u1'')\<lparr>begin_error := Some ''connection refused''\<rparr>
   in snd (PurchaseConsumer_Run (\<lambda>s. Some (v s)) PostgresLedger
        [Fetched (m 4 ''ev-a'') down False, Fetched (m 5 ''ev-b'') (clean_env ''u2'') True] emptyDB) = [m 5 ''ev-b'']"
proof -
  let ?v = "\<lambda>i. \<lparr>EventId = i, Envelope_Tick = 9, OccurredAt = 0, Producer = ''sim-core'',
         Envelope_Payload = PurchaseMade ''pip:1'' ''workplace:2'' 50 1\<rparr>"
  let ?m = "\<lambda>x i. \<lparr>msg_Partition = 0, msg_Offset = x, msg_Value = i\<rparr>"
  let ?down = "(clean_env ''u1'')\<lparr>begin_error := Some ''connection refused''\<rparr>"
  have "\<exists>d'. PurchaseConsumer_Run (\<lambda>s. Some (?v s)) PostgresLedger
      [Fetched (?m 4 ''ev-a'') ?down False, Fetched (?m 5 ''ev-b'') (clean_env ''u2'') True] emptyDB
      = (d', [?m 5 ''ev-b''])
    \<and> journal_of d' = journal_of emptyDB @ transfer_rows (EventId (?v ''ev-b'')) ''pip:1'' ''workplace:2'' 50
        KindPurchase (Envelope_Tick (?v ''ev-b''))"
    by (rule PurchaseConsumer_passes_failed [where pf = "''pip:1''" and qf = "''workplace:2''" and nf = 50
        and vf = "?v ''ev-a''" and err = "''connection refused''"])
       (simp_all add: GetPurchaseMade_def tick_ok_def move_fits_def fits64_def emptyDB_def [THEN arg_cong [where f = accounts]])
  then show ?thesis unfolding Let_def by auto
qed

end
