(* ===== verification/ShiftStore.thy ===== *)
theory ShiftStore
  imports GoStrings
begin

text \<open>
  The rules of a workplace's shifts and the store interface
  (\<^verbatim>\<open>services/workplaces/farm/internal/farm/store.go\<close>): \<open>shiftSet\<close> is what a store decides, \<open>Store\<close> is
  the Go interface as a record of operations, \<open>memStore\<close> keeps a \<open>shiftSet\<close> behind a mutex. The locale
  \<open>shift_store\<close> is what the service relies on; every store interprets it.

  Time is a count of nanoseconds. The clock is read more than once in an operation: \<open>reap_at\<close> is what it
  shows when the reaping loop reaches a pip, in whatever order the map is walked, and \<open>now_at\<close> what it
  shows at the end.
\<close>

section \<open>The rules\<close>

record shift =
  startedTick :: u64
  lastWorkTick :: u64
  lastWork :: int

record shiftSet =
  shifts :: "(u64, shift) fmap"
  s_max :: int
  s_lease :: int
  s_maxGap :: u64

record clock =
  reap_at :: "u64 \<Rightarrow> int"
  now_at :: int

definition newShiftSet :: "int \<Rightarrow> int \<Rightarrow> u64 \<Rightarrow> shiftSet" where
  "newShiftSet mx ls gap = \<lparr>shifts = fmempty, s_max = mx, s_lease = ls, s_maxGap = gap\<rparr>"

text \<open>\<^verbatim>\<open>time.Time.Sub\<close> saturates at the bounds of a 64-bit duration.\<close>

definition time_sub :: "int \<Rightarrow> int \<Rightarrow> int" where
  "time_sub t u = max (- (2 ^ 63)) (min (2 ^ 63 - 1) (t - u))"

definition shift_expired :: "int \<Rightarrow> int \<Rightarrow> shift \<Rightarrow> bool" where
  "shift_expired ls now sh \<longleftrightarrow> ls < time_sub now (lastWork sh)"

definition reap :: "clock \<Rightarrow> shiftSet \<Rightarrow> shiftSet" where
  "reap c s = s\<lparr>shifts := fmfilter (\<lambda>pip. case fmlookup (shifts s) pip of
       None \<Rightarrow> False | Some sh \<Rightarrow> \<not> shift_expired (s_lease s) (reap_at c pip) sh) (shifts s)\<rparr>"

definition shiftSet_count :: "shiftSet \<Rightarrow> int" where
  "shiftSet_count s = int (fcard (fmdom (shifts s)))"

definition shiftSet_claim :: "clock \<Rightarrow> u64 \<Rightarrow> u64 \<Rightarrow> shiftSet \<Rightarrow> (bool \<times> string) \<times> shiftSet" where
  "shiftSet_claim c pip tick s0 =
     (let s = reap c s0 in
      case fmlookup (shifts s) pip of
        Some _ \<Rightarrow> ((False, ''already on shift here''), s)
      | None \<Rightarrow>
        if s_max s \<le> shiftSet_count s then ((False, ''no free positions''), s)
        else ((True, []), s\<lparr>shifts := fmupd pip
               \<lparr>startedTick = tick, lastWorkTick = tick, lastWork = now_at c\<rparr> (shifts s)\<rparr>))"

definition elapsed_ticks :: "u64 \<Rightarrow> u64 \<Rightarrow> u64 \<Rightarrow> i32" where
  "elapsed_ticks gap prev tick = (if prev < tick then ucast (min (tick - prev) gap) else 0)"

definition shiftSet_touch :: "clock \<Rightarrow> u64 \<Rightarrow> u64 \<Rightarrow> shiftSet \<Rightarrow> (i32 \<times> bool) \<times> shiftSet" where
  "shiftSet_touch c pip tick s =
     (case fmlookup (shifts s) pip of
        None \<Rightarrow> ((0, False), s)
      | Some sh \<Rightarrow>
        ((elapsed_ticks (s_maxGap s) (lastWorkTick sh) tick, True),
         s\<lparr>shifts := fmupd pip (sh\<lparr>lastWorkTick := tick, lastWork := now_at c\<rparr>) (shifts s)\<rparr>))"

definition shiftSet_release :: "u64 \<Rightarrow> shiftSet \<Rightarrow> (u64 \<times> bool) \<times> shiftSet" where
  "shiftSet_release pip s =
     (case fmlookup (shifts s) pip of
        None \<Rightarrow> ((0, False), s)
      | Some sh \<Rightarrow> ((startedTick sh, True), s\<lparr>shifts := fmdrop pip (shifts s)\<rparr>))"

section \<open>The store interface\<close>

text \<open>As in Go, a result comes with an error or is valid; \<open>'e\<close> is the environment of a call.\<close>

record ('e, 's) Store =
  Claim :: "'e \<Rightarrow> 's \<Rightarrow> u64 \<Rightarrow> u64 \<Rightarrow> (bool \<times> string) fallible \<times> 's"
  Touch :: "'e \<Rightarrow> 's \<Rightarrow> u64 \<Rightarrow> u64 \<Rightarrow> (i32 \<times> bool) fallible \<times> 's"
  Release :: "'e \<Rightarrow> 's \<Rightarrow> u64 \<Rightarrow> u64 \<Rightarrow> (u64 \<times> bool) fallible \<times> 's"
  Count :: "'e \<Rightarrow> 's \<Rightarrow> int fallible \<times> 's"

text \<open>
  The contract: \<open>held s\<close> are the pips the store has on shift, \<open>cap\<close> and \<open>gap\<close> are what it was built
  with, \<open>keep\<close> holds of its states.
  \<^item> never more than \<open>cap\<close> on shift;
  \<^item> a claim that succeeds adds its pip; no claim, whatever it answers, adds anybody else;
  \<^item> a touch pays between 0 and \<open>gap\<close> ticks, only to a pip on shift, and changes nobody's employment;
  \<^item> a release takes at most its pip off;
  \<^item> a count that answers is right.
\<close>

locale shift_store =
  fixes S :: "('e, 's) Store" and held :: "'s \<Rightarrow> u64 fset" and cap :: nat and gap :: int
    and keep :: "'s \<Rightarrow> bool" and legal :: "'e \<Rightarrow> bool"
  assumes within_cap: "keep s \<Longrightarrow> fcard (held s) \<le> cap"
    and claim_law: "keep s \<Longrightarrow> legal e \<Longrightarrow> Claim S e s pip tick = (rc, s') \<Longrightarrow>
      keep s' \<and> held s' |\<subseteq>| finsert pip (held s)
      \<and> (\<forall>why. rc = Inr (True, why) \<longrightarrow> pip |\<in>| held s')
      \<and> (\<forall>why. rc = Inr (False, why) \<longrightarrow> held s' |\<subseteq>| held s)"
    and touch_law: "keep s \<Longrightarrow> legal e \<Longrightarrow> Touch S e s pip tick = (rt, s') \<Longrightarrow>
      keep s' \<and> held s' = held s
      \<and> (\<forall>n. rt = Inr (n, True) \<longrightarrow> pip |\<in>| held s \<and> 0 \<le> sint n \<and> sint n \<le> gap)
      \<and> (\<forall>n. rt = Inr (n, False) \<longrightarrow> pip |\<notin>| held s)"
    and release_law: "keep s \<Longrightarrow> legal e \<Longrightarrow> Release S e s pip tick = (rr, s') \<Longrightarrow>
      keep s' \<and> held s |-| {|pip|} |\<subseteq>| held s' \<and> held s' |\<subseteq>| held s
      \<and> (\<forall>st found. rr = Inr (st, found) \<longrightarrow> pip |\<notin>| held s' \<and> (found \<longleftrightarrow> pip |\<in>| held s))"
    and count_law: "keep s \<Longrightarrow> legal e \<Longrightarrow> Count S e s = (rn, s') \<Longrightarrow>
      s' = s \<and> (\<forall>n. rn = Inr n \<longrightarrow> n = int (fcard (held s)))"

section \<open>Facts about the rules\<close>

lemma reap_sel [simp]:
  "s_max (reap c s) = s_max s" "s_lease (reap c s) = s_lease s" "s_maxGap (reap c s) = s_maxGap s"
  by (simp_all add: reap_def)

lemma reap_lookup: "fmlookup (shifts (reap c s)) pip =
    (case fmlookup (shifts s) pip of None \<Rightarrow> None
     | Some sh \<Rightarrow> if shift_expired (s_lease s) (reap_at c pip) sh then None else Some sh)"
  by (auto simp: reap_def split: option.splits)

lemma reap_dom: "fmdom (shifts (reap c s)) |\<subseteq>| fmdom (shifts s)"
  by (auto simp: reap_def)

lemma reap_count: "shiftSet_count (reap c s) \<le> shiftSet_count s"
  using reap_dom [THEN fcard_mono] by (simp add: shiftSet_count_def)

lemma shiftSet_claim_cases:
  obtains (already) "pip |\<in>| fmdom (shifts (reap c s))"
      "shiftSet_claim c pip tick s = ((False, ''already on shift here''), reap c s)"
  | (full) "pip |\<notin>| fmdom (shifts (reap c s))" "s_max s \<le> shiftSet_count (reap c s)"
      "shiftSet_claim c pip tick s = ((False, ''no free positions''), reap c s)"
  | (taken) "pip |\<notin>| fmdom (shifts (reap c s))" "shiftSet_count (reap c s) < s_max s"
      "shiftSet_claim c pip tick s = ((True, []), (reap c s)\<lparr>shifts := fmupd pip
         \<lparr>startedTick = tick, lastWorkTick = tick, lastWork = now_at c\<rparr> (shifts (reap c s))\<rparr>)"
proof (cases "fmlookup (shifts (reap c s)) pip")
  case (Some sh)
  then show ?thesis by (intro already) (auto simp: shiftSet_claim_def fmdomI)
next
  case None
  note none = this
  show ?thesis
  proof (cases "s_max s \<le> shiftSet_count (reap c s)")
    case True
    with none show ?thesis by (intro full) (simp_all add: shiftSet_claim_def fmdom_notI Let_def)
  next
    case False
    with none show ?thesis by (intro taken) (simp_all add: shiftSet_claim_def fmdom_notI Let_def)
  qed
qed

lemma elapsed_ticks_bounds:
  assumes "uint gap < 2 ^ 31"
  shows "0 \<le> sint (elapsed_ticks gap prev tick)" "sint (elapsed_ticks gap prev tick) \<le> uint gap"
    "sint (elapsed_ticks gap prev tick) \<le> max 0 (uint tick - uint prev)"
proof -
  let ?m = "min (tick - prev) gap"
  have le: "?m \<le> gap" by simp
  then have "uint ?m \<le> uint gap" by (simp only: word_le_def)
  with assms have small: "uint ?m < 2 ^ 31" by linarith
  have val: "sint (ucast ?m :: i32) = uint ?m"
  proof -
    have "- (2 ^ 31) \<le> uint ?m" by (rule order_trans [OF _ unsigned_greater_eq]) simp
    then have "signed_take_bit 31 (uint ?m) = uint ?m"
      using small by (rule signed_take_bit_int_eq_self)
    then show ?thesis by (simp add: sint_uint unsigned_ucast_eq signed_take_bit_take_bit)
  qed
  have "uint ?m \<le> uint tick - uint prev" if "prev < tick"
  proof -
    have "?m \<le> tick - prev" by simp
    then have "uint ?m \<le> uint (tick - prev)" by (simp only: word_le_def)
    also have "\<dots> = uint tick - uint prev"
      using that by (simp only: uint_minus_simple_alt [symmetric] less_imp_le)
    finally show ?thesis .
  qed
  then show "0 \<le> sint (elapsed_ticks gap prev tick)" "sint (elapsed_ticks gap prev tick) \<le> uint gap"
    "sint (elapsed_ticks gap prev tick) \<le> max 0 (uint tick - uint prev)"
    using val le by (auto simp: elapsed_ticks_def word_le_def)
qed

section \<open>The in-memory store\<close>

type_synonym memStore = shiftSet

definition newMemStore :: "int \<Rightarrow> int \<Rightarrow> u64 \<Rightarrow> memStore" where
  "newMemStore mx ls gap = newShiftSet mx ls gap"

definition memStore_Claim :: "clock \<Rightarrow> memStore \<Rightarrow> u64 \<Rightarrow> u64 \<Rightarrow> (bool \<times> string) fallible \<times> memStore" where
  "memStore_Claim c m pip tick = map_prod Inr id (shiftSet_claim c pip tick m)"

definition memStore_Touch :: "clock \<Rightarrow> memStore \<Rightarrow> u64 \<Rightarrow> u64 \<Rightarrow> (i32 \<times> bool) fallible \<times> memStore" where
  "memStore_Touch c m pip tick = map_prod Inr id (shiftSet_touch c pip tick m)"

definition memStore_Release :: "clock \<Rightarrow> memStore \<Rightarrow> u64 \<Rightarrow> u64 \<Rightarrow> (u64 \<times> bool) fallible \<times> memStore" where
  "memStore_Release c m pip tick = map_prod Inr id (shiftSet_release pip m)"

definition memStore_Count :: "clock \<Rightarrow> memStore \<Rightarrow> int fallible \<times> memStore" where
  "memStore_Count c m = (Inr (shiftSet_count m), m)"

definition MemStore :: "(clock, memStore) Store" where
  "MemStore = \<lparr>Claim = memStore_Claim, Touch = memStore_Touch, Release = memStore_Release, Count = memStore_Count\<rparr>"

text \<open>A shift set as the farm builds it and keeps it: within capacity, and a gap that fits an \<^verbatim>\<open>int32\<close>.\<close>

definition shiftSet_ok :: "nat \<Rightarrow> u64 \<Rightarrow> shiftSet \<Rightarrow> bool" where
  "shiftSet_ok mx gap s \<longleftrightarrow> s_max s = int mx \<and> s_maxGap s = gap \<and> uint gap < 2 ^ 31 \<and>
     fcard (fmdom (shifts s)) \<le> mx"

lemma shiftSet_ok_new: "uint gap < 2 ^ 31 \<Longrightarrow> shiftSet_ok mx gap (newShiftSet (int mx) ls gap)"
  by (simp add: shiftSet_ok_def newShiftSet_def fcard_fempty)

lemma shiftSet_ok_reap: "shiftSet_ok mx gap s \<Longrightarrow> shiftSet_ok mx gap (reap c s)"
  using reap_dom [of c s, THEN fcard_mono] by (simp add: shiftSet_ok_def)

lemma shiftSet_claim_ok:
  assumes "shiftSet_ok mx gap s"
  shows "shiftSet_ok mx gap (snd (shiftSet_claim c pip tick s))"
  by (cases rule: shiftSet_claim_cases [of pip c s tick])
     (use shiftSet_ok_reap [OF assms, of c] in
       \<open>auto simp: shiftSet_ok_def shiftSet_count_def fcard_finsert_if\<close>)

lemma shiftSet_claim_dom:
  "fmdom (shifts (snd (shiftSet_claim c pip tick s))) |\<subseteq>| finsert pip (fmdom (shifts s))"
  "fst (shiftSet_claim c pip tick s) = (True, why) \<Longrightarrow> pip |\<in>| fmdom (shifts (snd (shiftSet_claim c pip tick s)))"
  "fst (shiftSet_claim c pip tick s) = (False, why) \<Longrightarrow> fmdom (shifts (snd (shiftSet_claim c pip tick s))) |\<subseteq>| fmdom (shifts s)"
  by (cases rule: shiftSet_claim_cases [of pip c s tick]; use reap_dom [of c s] in auto)+

lemma shiftSet_touch_dom: "fmdom (shifts (snd (shiftSet_touch c pip tick s))) = fmdom (shifts s)"
  by (auto simp: shiftSet_touch_def fmdomI split: option.splits)

lemma shiftSet_touch_ok: "shiftSet_ok mx gap s \<Longrightarrow> shiftSet_ok mx gap (snd (shiftSet_touch c pip tick s))"
  using shiftSet_touch_dom [of c pip tick s]
  by (auto simp: shiftSet_ok_def) (auto simp: shiftSet_touch_def split: option.splits)

lemma shiftSet_touch_pay:
  assumes "shiftSet_ok mx gap s"
  shows "fst (shiftSet_touch c pip tick s) = (n, True) \<Longrightarrow> pip |\<in>| fmdom (shifts s) \<and> 0 \<le> sint n \<and> sint n \<le> uint gap"
    and "fst (shiftSet_touch c pip tick s) = (n, False) \<Longrightarrow> pip |\<notin>| fmdom (shifts s)"
  using assms elapsed_ticks_bounds [of gap]
  by (auto simp: shiftSet_touch_def shiftSet_ok_def fmdomI fmdom_notI split: option.splits)

lemma shiftSet_release_dom: "fmdom (shifts (snd (shiftSet_release pip s))) = fmdom (shifts s) |-| {|pip|}"
  by (auto simp: shiftSet_release_def fmdom_notI split: option.splits)

lemma shiftSet_release_ok: "shiftSet_ok mx gap s \<Longrightarrow> shiftSet_ok mx gap (snd (shiftSet_release pip s))"
  using fcard_fmdom_drop_le [of pip "shifts s"]
  by (auto simp: shiftSet_ok_def shiftSet_release_def split: option.splits)

lemma shiftSet_release_found:
  "fst (shiftSet_release pip s) = (st, found) \<Longrightarrow> found \<longleftrightarrow> pip |\<in>| fmdom (shifts s)"
  by (auto simp: shiftSet_release_def fmdomI fmdom_notI split: option.splits)

lemmas shiftSet_keeps = shiftSet_claim_ok shiftSet_touch_ok shiftSet_release_ok
lemmas shiftSet_facts = shiftSet_claim_dom shiftSet_touch_dom shiftSet_touch_pay shiftSet_release_dom
  shiftSet_release_found

text \<open>The capacity and the gap are those the farm builds its stores with.\<close>

definition MaxWorkers :: nat where "MaxWorkers = 24"
definition MaxTicksPerWork :: u64 where "MaxTicksPerWork = 40"
definition ShiftLease :: int where "ShiftLease = 15 * 10 ^ 9"

interpretation mem_shifts: shift_store MemStore "\<lambda>s. fmdom (shifts s)" MaxWorkers 40
  "shiftSet_ok MaxWorkers MaxTicksPerWork" "\<lambda>_. True"
proof (unfold_locales, goal_cases)
  case (1 s)
  then show ?case by (simp add: shiftSet_ok_def)
next
  case (2 s e pip tick rc s')
  then have "s' = snd (shiftSet_claim e pip tick s)" "rc = Inr (fst (shiftSet_claim e pip tick s))"
    by (auto simp: MemStore_def memStore_Claim_def map_prod_def split: prod.splits)
  with 2(1) show ?case
    using shiftSet_claim_dom(1) [of e pip tick s]
    by (auto simp: shiftSet_keeps dest: shiftSet_claim_dom(2,3))
next
  case (3 s e pip tick rt s')
  then have "s' = snd (shiftSet_touch e pip tick s)" "rt = Inr (fst (shiftSet_touch e pip tick s))"
    by (auto simp: MemStore_def memStore_Touch_def map_prod_def split: prod.splits)
  with 3(1) show ?case
    using shiftSet_touch_pay [OF 3(1), of e pip tick]
    by (auto simp: shiftSet_keeps shiftSet_touch_dom MaxTicksPerWork_def)
next
  case (4 s e pip tick rr s')
  then have "s' = snd (shiftSet_release pip s)" "rr = Inr (fst (shiftSet_release pip s))"
    by (auto simp: MemStore_def memStore_Release_def map_prod_def split: prod.splits)
  with 4(1) show ?case
    by (auto simp: shiftSet_keeps shiftSet_release_dom dest: shiftSet_release_found)
next
  case (5 s e rn s')
  then show ?case by (auto simp: MemStore_def memStore_Count_def shiftSet_count_def)
qed

end
