(* ===== verification/FarmService.thy ===== *)
theory FarmService
  imports ShiftStore
begin

text \<open>
  The farm service and its host (\<^verbatim>\<open>farm.go\<close>, \<^verbatim>\<open>host.go\<close>), over the store interface: one \<open>Service\<close>
  is a building, a function of its store's state; a \<open>Host\<close> keeps the buildings of a process, each with
  a store of its own, and routes on the workplace id. \<open>S id\<close> is the store of building \<open>id\<close>.
\<close>

section \<open>Messages\<close>

datatype ResourceKind =
  RESOURCE_KIND_UNSPECIFIED | RESOURCE_KIND_GRAIN | RESOURCE_KIND_FOOD | RESOURCE_KIND_TOOL | RESOURCE_KIND_ALE

record Offer =
  of_Kind :: ResourceKind
  of_Price :: i64

record DescribeResponse =
  dr_WorkplaceId :: u64
  dr_Kind :: string
  dr_DisplayName :: string
  dr_MaxWorkers :: i32
  dr_CurrentWorkers :: i32
  dr_Produces :: "ResourceKind list"
  dr_Wage :: i64
  dr_Effort :: i32
  dr_Sells :: "Offer list"

record WorkResponse =
  wr_Produced :: "(ResourceKind \<times> i32) list"
  wr_NeedDeltas :: "(i32 \<times> i32) list"
  wr_ShiftShouldEnd :: bool
  wr_Wage :: i64

record BuyResponse =
  br_Ok :: bool
  br_Reason :: string
  br_Price :: i64

section \<open>The service\<close>

definition grainPerTick :: i32 where "grainPerTick = 3"
definition wagePerTick :: i32 where "wagePerTick = 6"
definition foodPrice :: i64 where "foodPrice = 50"
definition effort :: i32 where "effort = 1"

definition unavailable :: "'a fallible \<Rightarrow> 'a response" where
  "unavailable r = (case r of Inl err \<Rightarrow> Inl (CodeUnavailable, err) | Inr x \<Rightarrow> Inr x)"

text \<open>A \<^verbatim>\<open>Service\<close> is its id and the state of its store; \<^verbatim>\<open>New\<close> holds its shifts in memory.\<close>

definition NewWithStore :: "'s \<Rightarrow> u64 \<Rightarrow> u64 \<times> 's" where
  "NewWithStore st workplaceID = (workplaceID, st)"

definition Service_New :: "u64 \<Rightarrow> u64 \<times> memStore" where
  "Service_New workplaceID = NewWithStore (newMemStore (int MaxWorkers) ShiftLease MaxTicksPerWork) workplaceID"

definition Service_Describe :: "('e, 's) Store \<Rightarrow> u64 \<Rightarrow> 'e \<Rightarrow> 's \<Rightarrow> DescribeResponse response \<times> 's" where
  "Service_Describe S wid e s =
     (case Count S e s of
        (Inl err, s') \<Rightarrow> (Inl (CodeUnavailable, err), s')
      | (Inr workers, s') \<Rightarrow>
          (Inr \<lparr>dr_WorkplaceId = wid, dr_Kind = ''farm'', dr_DisplayName = ''Farm #'' @ FormatUint wid,
                dr_MaxWorkers = of_nat MaxWorkers, dr_CurrentWorkers = of_int workers,
                dr_Produces = [RESOURCE_KIND_GRAIN], dr_Wage = scast wagePerTick, dr_Effort = effort,
                dr_Sells = [\<lparr>of_Kind = RESOURCE_KIND_FOOD, of_Price = foodPrice\<rparr>]\<rparr>, s'))"

definition Service_CanEmploy :: "('e, 's) Store \<Rightarrow> 'e \<Rightarrow> 's \<Rightarrow> (bool \<times> string) response \<times> 's" where
  "Service_CanEmploy S e s =
     (case Count S e s of
        (Inl err, s') \<Rightarrow> (Inl (CodeUnavailable, err), s')
      | (Inr workers, s') \<Rightarrow>
          if int MaxWorkers \<le> workers then (Inr (False, ''no free positions''), s')
          else (Inr (True, []), s'))"

definition Service_StartShift ::
  "('e, 's) Store \<Rightarrow> 'e \<Rightarrow> 's \<Rightarrow> u64 \<Rightarrow> u64 \<Rightarrow> (bool \<times> string) response \<times> 's"
where
  "Service_StartShift S e s pip tick =
     (case Claim S e s pip tick of
        (Inl err, s') \<Rightarrow> (Inl (CodeUnavailable, err), s')
      | (Inr (accepted, reason), s') \<Rightarrow>
          if \<not> accepted then (Inr (False, reason), s') else (Inr (True, []), s'))"

definition no_work :: WorkResponse where
  "no_work = \<lparr>wr_Produced = [], wr_NeedDeltas = [], wr_ShiftShouldEnd = False, wr_Wage = 0\<rparr>"

definition Service_Work :: "('e, 's) Store \<Rightarrow> 'e \<Rightarrow> 's \<Rightarrow> u64 \<Rightarrow> u64 \<Rightarrow> WorkResponse response \<times> 's" where
  "Service_Work S e s pip tick =
     (case Touch S e s pip tick of
        (Inl err, s') \<Rightarrow> (Inl (CodeUnavailable, err), s')
      | (Inr (elapsed, working), s') \<Rightarrow>
          if \<not> working then (Inr (no_work\<lparr>wr_ShiftShouldEnd := True\<rparr>), s')
          else if elapsed = 0 then (Inr no_work, s')
          else (Inr (no_work\<lparr>wr_Produced := [(RESOURCE_KIND_GRAIN, grainPerTick * elapsed)],
                  wr_Wage := scast (wagePerTick * elapsed)\<rparr>), s'))"

definition Service_EndShift :: "('e, 's) Store \<Rightarrow> 'e \<Rightarrow> 's \<Rightarrow> u64 \<Rightarrow> u64 \<Rightarrow> unit response \<times> 's" where
  "Service_EndShift S e s pip tick =
     (case Release S e s pip tick of
        (Inl err, s') \<Rightarrow> (Inl (CodeUnavailable, err), s')
      | (Inr _, s') \<Rightarrow> (Inr (), s'))"

definition Service_Buy :: "ResourceKind \<Rightarrow> BuyResponse response" where
  "Service_Buy k =
     (if k \<noteq> RESOURCE_KIND_FOOD
      then Inr \<lparr>br_Ok = False, br_Reason = ''the farm sells only food'', br_Price = 0\<rparr>
      else Inr \<lparr>br_Ok = True, br_Reason = [], br_Price = foodPrice\<rparr>)"

definition Service_ConsiderOffer :: "('e, 's) Store \<Rightarrow> 'e \<Rightarrow> 's \<Rightarrow> u64 \<Rightarrow> u64 \<Rightarrow> (bool \<times> string) \<times> 's" where
  "Service_ConsiderOffer S e s pip tick =
     (case Claim S e s pip tick of
        (Inl err, s') \<Rightarrow> ((False, ''store unavailable''), s')
      | (Inr (accepted, reason), s') \<Rightarrow> ((accepted, reason), s'))"

definition Service_Workers :: "('e, 's) Store \<Rightarrow> 'e \<Rightarrow> 's \<Rightarrow> int" where
  "Service_Workers S e s = (case Count S e s of (Inl err, _) \<Rightarrow> - 1 | (Inr n, _) \<Rightarrow> n)"

section \<open>Configuration\<close>

definition parse_spec :: "string \<Rightarrow> u64 option fallible" where
  "parse_spec part =
     (let p = TrimSpace part in
      if p = [] then Inr None
      else case ParseUint p of
             None \<Rightarrow> Inl (''bad workplace id in '' @ p)
           | Some i \<Rightarrow> if i = 0 then Inl (''bad workplace id in '' @ p) else Inr (Some i))"

fun parse_parts :: "string list \<Rightarrow> u64 list \<Rightarrow> u64 list fallible" where
  "parse_parts [] out = Inr out"
| "parse_parts (part # ps) out =
     (case parse_spec part of
        Inl err \<Rightarrow> Inl err
      | Inr None \<Rightarrow> parse_parts ps out
      | Inr (Some i) \<Rightarrow> parse_parts ps (out @ [i]))"

definition ParseSpecs :: "string \<Rightarrow> u64 list fallible" where
  "ParseSpecs raw =
     (case parse_parts (split_on CHR '','' raw) [] of
        Inl err \<Rightarrow> Inl err
      | Inr out \<Rightarrow> if out = [] then Inl ''no buildings configured'' else Inr out)"

section \<open>The host\<close>

text \<open>
  The stores of the hosted buildings by id, and the rotation counter (an \<^verbatim>\<open>int\<close>, which no process
  lives long enough to wrap).
\<close>

record 's Host =
  buildings :: "(u64, 's) fmap"
  next_first :: nat

text \<open>A later building with the same id replaces an earlier one, as the map assignment does.\<close>

definition NewHost :: "(u64 \<times> 's) list \<Rightarrow> 's Host" where
  "NewHost bs = \<lparr>buildings = fold (\<lambda>(i, s). fmupd i s) bs fmempty, next_first = 0\<rparr>"

definition Host_ids :: "'s Host \<Rightarrow> u64 list" where
  "Host_ids h = sorted_list_of_set (fmdom' (buildings h))"

text \<open>\<^verbatim>\<open>resolve\<close> gives the id of the building found; with one building the id zero means that one.\<close>

definition Host_resolve :: "'s Host \<Rightarrow> u64 \<Rightarrow> u64 response" where
  "Host_resolve h wid =
     (if wid = 0 then
        (case Host_ids h of
           [only] \<Rightarrow> Inr only
         | _ \<Rightarrow> Inl (CodeInvalidArgument, ''workplace_id is required: this service hosts '' @
                  show_nat (length (Host_ids h)) @ '' buildings''))
      else if wid \<in> fmdom' (buildings h) then Inr wid
      else Inl (CodeNotFound, ''no workplace '' @ FormatUint wid @ '' here''))"

text \<open>Every RPC: resolve the building, run the service's method on its store.\<close>

definition Host_on :: "(u64 \<Rightarrow> 's \<Rightarrow> 'r response \<times> 's) \<Rightarrow> 's Host \<Rightarrow> u64 \<Rightarrow> 'r response \<times> 's Host" where
  "Host_on f h wid =
     (case Host_resolve h wid of
        Inl err \<Rightarrow> (Inl err, h)
      | Inr i \<Rightarrow>
        (case fmlookup (buildings h) i of
           None \<Rightarrow> (Inl (CodeNotFound, []), h)
         | Some s \<Rightarrow> (let (r, s') = f i s in (r, h\<lparr>buildings := fmupd i s' (buildings h)\<rparr>))))"

definition Host_Describe where
  "Host_Describe S e h wid = Host_on (\<lambda>i. Service_Describe (S i) i (e i)) h wid"

definition Host_CanEmploy where
  "Host_CanEmploy S e h wid = Host_on (\<lambda>i. Service_CanEmploy (S i) (e i)) h wid"

definition Host_StartShift where
  "Host_StartShift S e h wid pip tick = Host_on (\<lambda>i s. Service_StartShift (S i) (e i) s pip tick) h wid"

definition Host_Work where
  "Host_Work S e h wid pip tick = Host_on (\<lambda>i s. Service_Work (S i) (e i) s pip tick) h wid"

definition Host_EndShift where
  "Host_EndShift S e h wid pip tick = Host_on (\<lambda>i s. Service_EndShift (S i) (e i) s pip tick) h wid"

definition Host_Buy :: "'s Host \<Rightarrow> u64 \<Rightarrow> ResourceKind \<Rightarrow> BuyResponse response" where
  "Host_Buy h wid k = fst (Host_on (\<lambda>i s. (Service_Buy k, s)) h wid)"

text \<open>\<^verbatim>\<open>List\<close> describes the buildings in order; the first error ends it.\<close>

fun describe_all ::
  "(u64 \<Rightarrow> ('e, 's) Store) \<Rightarrow> (u64 \<Rightarrow> 'e) \<Rightarrow> u64 list \<Rightarrow> 's Host \<Rightarrow> DescribeResponse list response \<times> 's Host"
where
  "describe_all S e [] h = (Inr [], h)"
| "describe_all S e (i # is) h =
     (case Host_Describe S e h i of
        (Inl err, h') \<Rightarrow> (Inl err, h')
      | (Inr d, h') \<Rightarrow>
        (case describe_all S e is h' of
           (Inl err, h'') \<Rightarrow> (Inl err, h'')
         | (Inr ds, h'') \<Rightarrow> (Inr (d # ds), h'')))"

definition Host_List where
  "Host_List S e h = describe_all S e (Host_ids h) h"

text \<open>
  \<^verbatim>\<open>ConsiderOffer\<close>: the buildings in rotation from a moving start, until one claims the pip. \<open>e i\<close> is
  the environment of the claim in building \<open>i\<close>.
\<close>

fun offer_round ::
  "(u64 \<Rightarrow> ('e, 's) Store) \<Rightarrow> (u64 \<Rightarrow> 'e) \<Rightarrow> u64 list \<Rightarrow> u64 \<Rightarrow> u64 \<Rightarrow> string \<Rightarrow> 's Host \<Rightarrow>
    (bool \<times> string \<times> u64) \<times> 's Host"
where
  "offer_round S e [] pip tick lastReason h = ((False, lastReason, 0), h)"
| "offer_round S e (i # is) pip tick lastReason h =
     (case Host_resolve h i of
        Inl err \<Rightarrow> offer_round S e is pip tick lastReason h
      | Inr b \<Rightarrow>
        (case fmlookup (buildings h) b of
           None \<Rightarrow> offer_round S e is pip tick lastReason h
         | Some s \<Rightarrow>
           (let ((accepted, reason), s') = Service_ConsiderOffer (S b) (e b) s pip tick;
                h' = h\<lparr>buildings := fmupd b s' (buildings h)\<rparr>
            in if accepted then ((True, [], i), h')
               else offer_round S e is pip tick (if reason \<noteq> [] then reason else lastReason) h')))"

definition Host_ConsiderOffer ::
  "(u64 \<Rightarrow> ('e, 's) Store) \<Rightarrow> (u64 \<Rightarrow> 'e) \<Rightarrow> 's Host \<Rightarrow> u64 \<Rightarrow> u64 \<Rightarrow> (bool \<times> string \<times> u64) \<times> 's Host"
where
  "Host_ConsiderOffer S e h pip tick =
     (let ids = Host_ids h in
      if ids = [] then ((False, ''no buildings'', 0), h)
      else
        (let start = next_first h; h' = h\<lparr>next_first := Suc start\<rparr> in
         offer_round S e (map (\<lambda>i. ids ! ((start + i) mod length ids)) [0..<length ids]) pip tick
           ''no free positions'' h'))"

definition Host_Workers :: "(u64 \<Rightarrow> ('e, 's) Store) \<Rightarrow> (u64 \<Rightarrow> 'e) \<Rightarrow> 's Host \<Rightarrow> int" where
  "Host_Workers S e h =
     sum_list (map (\<lambda>i. case fmlookup (buildings h) i of
         None \<Rightarrow> 0
       | Some s \<Rightarrow> let n = Service_Workers (S i) (e i) s in if n < 0 then 0 else n) (Host_ids h))"

end
