(* ===== verification/RedisStore.thy ===== *)
theory RedisStore
  imports ShiftStore "HOL-Library.AList" "HOL-Library.Multiset"
begin

text \<open>
  The Redis store (\<^verbatim>\<open>redisStore\<close> in \<^verbatim>\<open>store.go\<close>): one hash per building, a field per pip, whose rules are
  two Lua scripts that Redis runs one at a time. The hash is the list of its entries; the environment
  of a call gives the wall clock in milliseconds, the order in which \<^verbatim>\<open>HGETALL\<close> lists the entries,
  and whether each command is applied and answered. Lua computes with doubles, which are exact on
  integers up to \<open>2 ^ 53\<close>: the model computes with integers.
\<close>

section \<open>Values\<close>

type_synonym redis_hash = "(string \<times> string) list"

text \<open>\<^verbatim>\<open>started:lastTick:lastMs\<close>\<close>

definition shift_value :: "string \<Rightarrow> string \<Rightarrow> string \<Rightarrow> string" where
  "shift_value started last_tick last_ms = started @ CHR '':'' # last_tick @ CHR '':'' # last_ms"

text \<open>
  The pattern \<open>([^:]+):([^:]+):\<close> anchored at the start of a string: the two captures and the rest. A
  run of \<open>[^:]+\<close> is maximal, since a shorter one is not followed by a colon. \<open>lua_match\<close> tries each
  position in turn, as \<^verbatim>\<open>string.match\<close> does.
\<close>

definition match_two :: "string \<Rightarrow> (string \<times> string \<times> string) option" where
  "match_two s =
     (let a = takeWhile (\<lambda>c. c \<noteq> CHR '':'') s; r = dropWhile (\<lambda>c. c \<noteq> CHR '':'') s in
      if a = [] \<or> r = [] then None
      else (let b = takeWhile (\<lambda>c. c \<noteq> CHR '':'') (tl r); q = dropWhile (\<lambda>c. c \<noteq> CHR '':'') (tl r) in
            if b = [] \<or> q = [] then None else Some (a, b, tl q)))"

fun lua_match :: "(string \<Rightarrow> 'a option) \<Rightarrow> string \<Rightarrow> 'a option" where
  "lua_match f [] = f []"
| "lua_match f (c # s) = (case f (c # s) of Some x \<Rightarrow> Some x | None \<Rightarrow> lua_match f s)"

definition lua_tonumber :: "string \<Rightarrow> int option" where
  "lua_tonumber s = (if s \<noteq> [] \<and> list_all is_digit s then Some (int (decimal_value s)) else None)"

definition entry_ms :: "string \<Rightarrow> int option" where
  "entry_ms v =
     (case lua_match (\<lambda>s. case match_two s of Some (a, b, c) \<Rightarrow> if c = [] then None else Some c | None \<Rightarrow> None) v of
        None \<Rightarrow> None | Some c \<Rightarrow> lua_tonumber c)"

section \<open>The scripts\<close>

definition entry_expired :: "int \<Rightarrow> int \<Rightarrow> string \<Rightarrow> bool" where
  "entry_expired lease now v = (case entry_ms v of None \<Rightarrow> True | Some ms \<Rightarrow> lease < now - ms)"

text \<open>The loop of \<^verbatim>\<open>claimScript\<close>: \<open>Inl\<close> is the early return, \<open>Inr\<close> the number of entries that count.\<close>

fun claim_loop :: "string \<Rightarrow> int \<Rightarrow> int \<Rightarrow> redis_hash \<Rightarrow> redis_hash \<Rightarrow> nat \<Rightarrow> redis_hash + nat \<times> redis_hash" where
  "claim_loop pip now lease [] h held = Inr (held, h)"
| "claim_loop pip now lease ((f, v) # es) h held =
     (if entry_expired lease now v then claim_loop pip now lease es (AList.delete f h) held
      else if f = pip then Inl h
      else claim_loop pip now lease es h (Suc held))"

definition claimScript ::
  "(redis_hash \<Rightarrow> redis_hash) \<Rightarrow> string \<Rightarrow> string \<Rightarrow> nat \<Rightarrow> int \<Rightarrow> int \<Rightarrow> redis_hash \<Rightarrow> (bool \<times> string) \<times> redis_hash"
where
  "claimScript order pip tick now lease mx h =
     (case claim_loop pip (int now) lease (order h) h 0 of
        Inl h' \<Rightarrow> ((False, ''already on shift here''), h')
      | Inr (held, h') \<Rightarrow>
          if mx \<le> int held then ((False, ''no free positions''), h')
          else ((True, []), AList.update pip (shift_value tick tick (show_nat now)) h'))"

text \<open>\<^verbatim>\<open>touchScript\<close>; a value without two fields, or a last tick that is no number, is a script error.\<close>

definition touchScript ::
  "string \<Rightarrow> u64 \<Rightarrow> nat \<Rightarrow> int \<Rightarrow> redis_hash \<Rightarrow> go_error + (bool \<times> int) \<times> redis_hash"
where
  "touchScript pip tick now gap h =
     (case map_of h pip of
        None \<Rightarrow> Inr ((False, 0), h)
      | Some value \<Rightarrow>
        (case lua_match match_two value of
           None \<Rightarrow> Inl ''attempt to perform arithmetic on a nil value''
         | Some (started, last_tick, _) \<Rightarrow>
           (case lua_tonumber last_tick of
              None \<Rightarrow> Inl ''attempt to perform arithmetic on a nil value''
            | Some prev \<Rightarrow>
              (let elapsed0 = uint tick - prev;
                   elapsed1 = (if elapsed0 < 0 then 0 else elapsed0);
                   elapsed = (if gap < elapsed1 then gap else elapsed1)
               in Inr ((True, elapsed),
                    AList.update pip (shift_value started (FormatUint tick) (show_nat now)) h)))))"

section \<open>The store\<close>

text \<open>A command is applied and answered, or fails before it, or is applied and its answer lost.\<close>

datatype cmd_outcome = Answered | NotRun go_error | AnswerLost go_error

record redis_env =
  now_ms :: nat
  hgetall :: "redis_hash \<Rightarrow> redis_hash"
  first_cmd :: cmd_outcome
  second_cmd :: cmd_outcome

record redisStore =
  rs_key :: string
  rs_max :: int
  rs_lease :: int
  rs_maxGap :: int

definition NewRedisStore :: "u64 \<Rightarrow> int \<Rightarrow> int \<Rightarrow> int \<Rightarrow> redisStore" where
  "NewRedisStore workplaceID mx lease gap =
     \<lparr>rs_key = ''pipsim:workplace:'' @ FormatUint workplaceID @ '':shifts'',
      rs_max = mx, rs_lease = lease, rs_maxGap = gap\<rparr>"

definition run_cmd :: "cmd_outcome \<Rightarrow> redis_hash \<Rightarrow> go_error + 'a \<times> redis_hash \<Rightarrow> 'a fallible \<times> redis_hash" where
  "run_cmd out h res =
     (case out of
        NotRun err \<Rightarrow> (Inl err, h)
      | Answered \<Rightarrow> (case res of Inl err \<Rightarrow> (Inl err, h) | Inr (x, h') \<Rightarrow> (Inr x, h'))
      | AnswerLost err \<Rightarrow> (Inl err, case res of Inl _ \<Rightarrow> h | Inr (x, h') \<Rightarrow> h'))"

definition redisStore_Claim ::
  "redisStore \<Rightarrow> redis_env \<Rightarrow> redis_hash \<Rightarrow> u64 \<Rightarrow> u64 \<Rightarrow> (bool \<times> string) fallible \<times> redis_hash"
where
  "redisStore_Claim s e h pip tick =
     run_cmd (first_cmd e) h
       (Inr (claimScript (hgetall e) (FormatUint pip) (FormatUint tick) (now_ms e)
          (rs_lease s div 10 ^ 6) (rs_max s) h))"

definition redisStore_Touch ::
  "redisStore \<Rightarrow> redis_env \<Rightarrow> redis_hash \<Rightarrow> u64 \<Rightarrow> u64 \<Rightarrow> (i32 \<times> bool) fallible \<times> redis_hash"
where
  "redisStore_Touch s e h pip tick =
     (case run_cmd (first_cmd e) h (touchScript (FormatUint pip) tick (now_ms e) (rs_maxGap s) h) of
        (Inl err, h') \<Rightarrow> (Inl err, h')
      | (Inr (found, elapsed), h') \<Rightarrow> (Inr (of_int elapsed, found), h'))"

text \<open>
  \<^verbatim>\<open>Release\<close> is two commands. The answer of a failed \<^verbatim>\<open>HDEL\<close> is its error.
\<close>

definition redisStore_Release ::
  "redisStore \<Rightarrow> redis_env \<Rightarrow> redis_hash \<Rightarrow> u64 \<Rightarrow> u64 \<Rightarrow> (u64 \<times> bool) fallible \<times> redis_hash"
where
  "redisStore_Release s e h pip tick =
     (let field = FormatUint pip in
      case run_cmd (first_cmd e) h (Inr (map_of h field, h)) of
        (Inl err, h') \<Rightarrow> (Inl err, h')
      | (Inr None, h') \<Rightarrow> (Inr (0, False), h')
      | (Inr (Some value), h') \<Rightarrow>
          (let started = (case ParseUint (hd (split_on CHR '':'' value)) of None \<Rightarrow> 0 | Some u \<Rightarrow> u) in
           case run_cmd (second_cmd e) h' (Inr ((), AList.delete field h')) of
             (Inl err, h'') \<Rightarrow> (Inl err, h'')
           | (Inr _, h'') \<Rightarrow> (Inr (started, True), h'')))"

definition redisStore_Count :: "redisStore \<Rightarrow> redis_env \<Rightarrow> redis_hash \<Rightarrow> int fallible \<times> redis_hash" where
  "redisStore_Count s e h = run_cmd (first_cmd e) h (Inr (int (length h), h))"

definition RedisStore :: "redisStore \<Rightarrow> (redis_env, redis_hash) Store" where
  "RedisStore s = \<lparr>Claim = redisStore_Claim s, Touch = redisStore_Touch s, Release = redisStore_Release s,
     Count = redisStore_Count s\<rparr>"

section \<open>Reading back what was written\<close>

lemma digits_no_colon: "CHR '':'' \<notin> set (FormatUint u)" "CHR '':'' \<notin> set (show_nat n)"
  using show_nat_digits [of "unat u"] show_nat_digits [of n]
  by (auto simp: FormatUint_def list_all_iff is_digit_def)

lemma show_nat_nonempty [simp]: "show_nat n \<noteq> []" "FormatUint u \<noteq> []"
  by (simp_all add: FormatUint_def)

lemma match_two_value:
  assumes "a \<noteq> []" "b \<noteq> []" "CHR '':'' \<notin> set a" "CHR '':'' \<notin> set b"
  shows "match_two (shift_value a b c) = Some (a, b, c)"
proof -
  have "takeWhile (\<lambda>x. x \<noteq> CHR '':'') (a @ CHR '':'' # r) = a"
    "dropWhile (\<lambda>x. x \<noteq> CHR '':'') (a @ CHR '':'' # r) = CHR '':'' # r"
    "takeWhile (\<lambda>x. x \<noteq> CHR '':'') (b @ CHR '':'' # r) = b"
    "dropWhile (\<lambda>x. x \<noteq> CHR '':'') (b @ CHR '':'' # r) = CHR '':'' # r" for r
    using assms(3,4) by (auto simp: takeWhile_append dropWhile_append)
  with assms show ?thesis by (simp add: match_two_def shift_value_def)
qed

lemma lua_match_first: "f s = Some x \<Longrightarrow> lua_match f s = Some x"
  by (cases s) auto

lemma lua_tonumber_show [simp]: "lua_tonumber (show_nat n) = Some (int n)"
  "lua_tonumber (FormatUint u) = Some (uint u)"
  by (simp_all add: lua_tonumber_def FormatUint_def)

lemma entry_ms_value [simp]:
  "entry_ms (shift_value (FormatUint a) (FormatUint b) (show_nat n)) = Some (int n)"
proof -
  let ?f = "\<lambda>s. case match_two s of Some (a, b, c) \<Rightarrow> if c = [] then None else Some c | None \<Rightarrow> None"
  have "lua_match ?f (shift_value (FormatUint a) (FormatUint b) (show_nat n)) = Some (show_nat n)"
    by (rule lua_match_first) (simp add: match_two_value digits_no_colon)
  then show ?thesis by (simp add: entry_ms_def)
qed

lemma lua_match_value [simp]:
  "lua_match match_two (shift_value (FormatUint a) (FormatUint b) (show_nat n)) =
    Some (FormatUint a, FormatUint b, show_nat n)"
  by (rule lua_match_first) (simp add: match_two_value digits_no_colon)

section \<open>The scripts keep the hash\<close>

text \<open>A hash the store wrote: distinct fields, each a pip, each with a value of the three numbers.\<close>

definition redis_ok :: "nat \<Rightarrow> redis_hash \<Rightarrow> bool" where
  "redis_ok mx h \<longleftrightarrow> distinct (map fst h) \<and> length h \<le> mx \<and>
     (\<forall>(f, v) \<in> set h. (\<exists>pip. f = FormatUint pip) \<and>
        (\<exists>a b n. v = shift_value (FormatUint a) (FormatUint b) (show_nat n)))"

definition field_pip :: "string \<times> string \<Rightarrow> u64" where
  "field_pip fv = (case ParseUint (fst fv) of None \<Rightarrow> 0 | Some p \<Rightarrow> p)"

definition redis_held :: "redis_hash \<Rightarrow> u64 fset" where
  "redis_held h = fset_of_list (map field_pip h)"

lemma redis_held_iff:
  "redis_ok mx h \<Longrightarrow> pip |\<in>| redis_held h \<longleftrightarrow> FormatUint pip \<in> set (map fst h)"
  by (force simp: redis_held_def redis_ok_def field_pip_def fset_of_list_elem)

lemma redis_held_card:
  assumes "redis_ok mx h"
  shows "fcard (redis_held h) = length h"
proof -
  have "FormatUint (field_pip fv) = fst fv" if "fv \<in> set h" for fv
    using assms that by (cases fv) (auto simp: redis_ok_def field_pip_def)
  then have "map FormatUint (map field_pip h) = map fst h" by simp
  moreover have "distinct (map fst h)" using assms by (simp add: redis_ok_def)
  ultimately have "distinct (map FormatUint (map field_pip h))" by (simp only:)
  then have "distinct (map field_pip h)" by (simp only: distinct_map)
  then show ?thesis
    by (simp add: redis_held_def fcard.rep_eq fset_of_list.rep_eq distinct_card [of "map field_pip h", simplified])
qed

lemma redis_ok_filter:
  "redis_ok mx h \<Longrightarrow> redis_ok mx (filter P h)"
  by (auto simp: redis_ok_def distinct_map_filter intro: order_trans [OF length_filter_le])

lemma redis_held_filter: "redis_held (filter P h) |\<subseteq>| redis_held h"
  by (auto simp: redis_held_def fset_of_list_elem)

lemma delete_filter: "AList.delete f h = filter (\<lambda>fv. fst fv \<noteq> f) h"
  by (simp add: AList.delete_eq case_prod_beta' eq_commute [of f])

lemma set_update_subset: "set (AList.update f v h) \<subseteq> insert (f, v) (set h)"
  by (induction h) auto

lemma length_update: "length (AList.update f v h) = (if f \<in> set (map fst h) then length h else Suc (length h))"
  by (induction h) auto

lemma redis_ok_update:
  assumes "redis_ok mx h" and "FormatUint pip \<in> set (map fst h) \<or> length h < mx"
  shows "redis_ok mx (AList.update (FormatUint pip) (shift_value (FormatUint a) (FormatUint b) (show_nat n)) h)"
proof -
  let ?v = "shift_value (FormatUint a) (FormatUint b) (show_nat n)"
  let ?ok = "\<lambda>(f, v). (\<exists>pip. f = FormatUint pip) \<and> (\<exists>a b n. v = shift_value (FormatUint a) (FormatUint b) (show_nat n))"
  have "?ok x" if "x \<in> set (AList.update (FormatUint pip) ?v h)" for x
    using that set_update_subset [of "FormatUint pip" ?v h] assms(1) unfolding redis_ok_def by fast
  moreover have "distinct (map fst (AList.update (FormatUint pip) ?v h))"
    using assms(1) by (simp add: redis_ok_def distinct_update)
  moreover have "length (AList.update (FormatUint pip) ?v h) \<le> mx"
    using assms by (auto simp: redis_ok_def length_update)
  ultimately show ?thesis by (simp add: redis_ok_def)
qed

lemma claim_loop_inl: "claim_loop pip now lease es h n = Inl h' \<Longrightarrow> \<exists>P. h' = filter P h"
proof (induction pip now lease es h n rule: claim_loop.induct)
  case (2 pip now lease f v es h held)
  then show ?case
    by (cases "entry_expired lease now v"; cases "f = pip")
       (auto simp: delete_filter intro: exI [of _ "\<lambda>_. True"])
qed simp

lemma claim_loop_inr:
  "claim_loop pip now lease es h n = Inr (k, h') \<Longrightarrow>
    h' = filter (\<lambda>fv. fst fv \<notin> fst ` {fv \<in> set es. entry_expired lease now (snd fv)}) h \<and>
    k = n + length (filter (\<lambda>fv. \<not> entry_expired lease now (snd fv)) es) \<and>
    pip \<notin> fst ` {fv \<in> set es. \<not> entry_expired lease now (snd fv)}"
proof (induction pip now lease es h n rule: claim_loop.induct)
  case (2 pip now lease f v es h held)
  show ?case
  proof (cases "entry_expired lease now v")
    case True
    have "{fv \<in> set ((f, v) # es). entry_expired lease now (snd fv)} =
        insert (f, v) {fv \<in> set es. entry_expired lease now (snd fv)}" using True by auto
    moreover have "{fv \<in> set ((f, v) # es). \<not> entry_expired lease now (snd fv)} =
        {fv \<in> set es. \<not> entry_expired lease now (snd fv)}" using True by auto
    ultimately show ?thesis
      using 2 True by (simp add: delete_filter filter_filter conj_commute)
  next
    case False
    have "{fv \<in> set ((f, v) # es). entry_expired lease now (snd fv)} =
        {fv \<in> set es. entry_expired lease now (snd fv)}" using False by auto
    moreover have "{fv \<in> set ((f, v) # es). \<not> entry_expired lease now (snd fv)} =
        insert (f, v) {fv \<in> set es. \<not> entry_expired lease now (snd fv)}" using False by auto
    ultimately show ?thesis using 2 False by (simp split: if_splits)
  qed
qed simp

text \<open>
  The claim script: an early return drops entries only; otherwise every expired entry is gone, and
  what remains is counted.
\<close>

definition redis_live :: "int \<Rightarrow> int \<Rightarrow> redis_hash \<Rightarrow> redis_hash" where
  "redis_live lease now h = filter (\<lambda>fv. \<not> entry_expired lease now (snd fv)) h"

lemma claimScript_cases:
  assumes ok: "redis_ok mx h" and perm: "mset (order h) = mset h"
  obtains (already) P where "claimScript order pip tick now lease m h = ((False, ''already on shift here''), filter P h)"
  | (full) "m \<le> int (length (redis_live lease (int now) h))"
      "claimScript order pip tick now lease m h = ((False, ''no free positions''), redis_live lease (int now) h)"
  | (taken) "int (length (redis_live lease (int now) h)) < m" "pip \<notin> set (map fst (redis_live lease (int now) h))"
      "claimScript order pip tick now lease m h =
        ((True, []), AList.update pip (shift_value tick tick (show_nat now)) (redis_live lease (int now) h))"
proof (cases "claim_loop pip (int now) lease (order h) h 0")
  case (Inl h')
  then obtain P where "h' = filter P h" using claim_loop_inl by blast
  with Inl show ?thesis by (intro already) (simp add: claimScript_def)
next
  case (Inr r)
  obtain k h' where r: "r = (k, h')" by (cases r)
  let ?ex = "\<lambda>fv :: string \<times> string. entry_expired lease (int now) (snd fv)"
  note loop = claim_loop_inr [OF Inr [unfolded r]]
  have dist: "distinct (map fst h)" using ok by (simp add: redis_ok_def)
  have same: "set (order h) = set h" using perm by (rule mset_eq_setD)
  have "fst fv \<notin> fst ` {fv \<in> set h. ?ex fv} \<longleftrightarrow> \<not> ?ex fv" if "fv \<in> set h" for fv
  proof -
    have uniq: "gv = fv" if "gv \<in> set h" "fst gv = fst fv" for gv
      using eq_key_imp_eq_value [OF dist, of "fst fv" "snd gv" "snd fv"] that \<open>fv \<in> set h\<close>
      by (metis prod.collapse)
    show ?thesis
    proof
      assume "fst fv \<notin> fst ` {fv \<in> set h. ?ex fv}"
      with that show "\<not> ?ex fv" by blast
    next
      assume not: "\<not> ?ex fv"
      show "fst fv \<notin> fst ` {fv \<in> set h. ?ex fv}"
      proof
        assume "fst fv \<in> fst ` {fv \<in> set h. ?ex fv}"
        then obtain gv where "gv \<in> set h" "?ex gv" "fst gv = fst fv" by fastforce
        with uniq [of gv] not show False by simp
      qed
    qed
  qed
  then have h': "h' = redis_live lease (int now) h"
    using loop by (simp add: same redis_live_def cong: filter_cong)
  have "mset (filter (\<lambda>fv. \<not> ?ex fv) (order h)) = mset (filter (\<lambda>fv. \<not> ?ex fv) h)"
    by (simp add: perm)
  then have "length (filter (\<lambda>fv. \<not> ?ex fv) (order h)) = length (filter (\<lambda>fv. \<not> ?ex fv) h)"
    by (rule mset_eq_length)
  then have k: "k = length (redis_live lease (int now) h)"
    using loop by (simp add: redis_live_def)
  have pip: "pip \<notin> set (map fst (redis_live lease (int now) h))"
    using loop by (auto simp: same redis_live_def)
  show ?thesis
  proof (cases "m \<le> int k")
    case True
    with Inr r h' k show ?thesis by (intro full) (simp_all add: claimScript_def)
  next
    case False
    with Inr r h' k pip show ?thesis by (intro taken) (simp_all add: claimScript_def)
  qed
qed

lemma redis_held_update:
  "redis_held (AList.update (FormatUint pip) v h) |\<subseteq>| finsert pip (redis_held h)"
  "pip |\<in>| redis_held (AList.update (FormatUint pip) v h)"
proof -
  show "redis_held (AList.update (FormatUint pip) v h) |\<subseteq>| finsert pip (redis_held h)"
    using set_update_subset [of "FormatUint pip" v h]
    by (fastforce simp: redis_held_def fset_of_list_elem field_pip_def)
  have "(FormatUint pip, v) \<in> set (AList.update (FormatUint pip) v h)" by (induction h) auto
  then show "pip |\<in>| redis_held (AList.update (FormatUint pip) v h)"
    by (force simp: redis_held_def fset_of_list_elem field_pip_def)
qed

lemma redis_held_touch:
  assumes "FormatUint pip \<in> set (map fst h)"
  shows "redis_held (AList.update (FormatUint pip) v h) = redis_held h"
proof -
  have "map fst (AList.update (FormatUint pip) v h) = map fst h"
    using assms by (induction h) auto
  moreover have "map field_pip xs = map (\<lambda>f. case ParseUint f of None \<Rightarrow> 0 | Some p \<Rightarrow> p) (map fst xs)"
    for xs :: redis_hash by (simp add: field_pip_def)
  ultimately have "map field_pip (AList.update (FormatUint pip) v h) = map field_pip h" by (simp only:)
  then show ?thesis by (simp add: redis_held_def)
qed

definition redis_legal :: "redis_env \<Rightarrow> bool" where
  "redis_legal e \<longleftrightarrow> (\<forall>h. mset (hgetall e h) = mset h)"

text \<open>The building's store, with the constants the farm passes.\<close>

definition FarmRedis :: "u64 \<Rightarrow> redisStore" where
  "FarmRedis workplaceID = NewRedisStore workplaceID (int MaxWorkers) ShiftLease (uint MaxTicksPerWork)"

lemma sint_small: "0 \<le> n \<Longrightarrow> n \<le> 40 \<Longrightarrow> sint (of_int n :: i32) = n"
  by (simp add: sint_uint unsigned_of_int take_bit_int_eq_self signed_take_bit_int_eq_self)

lemma run_cmd_cases:
  assumes "run_cmd out h res = (r, h')"
  obtains (kept) er where "r = Inl er" "h' = h"
  | (lost) er x where "r = Inl er" "res = Inr (x, h')"
  | (answered) x where "r = Inr x" "res = Inr (x, h')"
proof (cases res)
  case (Inl er)
  with assms have "h' = h" "\<exists>er. r = Inl er" by (auto simp: run_cmd_def split: cmd_outcome.splits)
  then show ?thesis by (auto intro: kept)
next
  case (Inr y)
  obtain x h1 where y: "y = (x, h1)" by (cases y)
  show ?thesis
  proof (cases out)
    case Answered
    with assms Inr y have "r = Inr x" "h' = h1" by (simp_all add: run_cmd_def)
    with Inr y show ?thesis by (intro answered) auto
  next
    case (NotRun er)
    with assms have "r = Inl er" "h' = h" by (simp_all add: run_cmd_def)
    then show ?thesis by (rule kept)
  next
    case (AnswerLost er)
    with assms Inr y have "r = Inl er" "h' = h1" by (simp_all add: run_cmd_def)
    with Inr y show ?thesis by (intro lost) auto
  qed
qed

lemma redis_ok_live [simp]: "redis_ok mx h \<Longrightarrow> redis_ok mx (redis_live lease now h)"
  by (simp add: redis_live_def redis_ok_filter)

lemma redis_held_live: "redis_held (redis_live lease now h) |\<subseteq>| redis_held h"
  by (simp add: redis_live_def redis_held_filter)

lemma claimScript_keeps:
  assumes ok: "redis_ok mx h" and perm: "mset (order h) = mset h"
    and run: "claimScript order (FormatUint pip) (FormatUint tick) now lease (int mx) h = (r, h')"
  shows "redis_ok mx h' \<and> redis_held h' |\<subseteq>| finsert pip (redis_held h)
    \<and> (\<forall>why. r = (True, why) \<longrightarrow> pip |\<in>| redis_held h') \<and> (\<forall>why. r = (False, why) \<longrightarrow> redis_held h' |\<subseteq>| redis_held h)"
  using ok perm
proof (cases rule: claimScript_cases [where h = h and order = order and pip = "FormatUint pip"
      and tick = "FormatUint tick" and now = now and lease = lease and m = "int mx"])
  case (already P)
  with run ok redis_held_filter [of P h] show ?thesis by (auto simp: redis_ok_filter)
next
  case full
  with run ok redis_held_live [of lease "int now" h] show ?thesis by auto
next
  case taken
  let ?l = "redis_live lease (int now) h" and ?v = "shift_value (FormatUint tick) (FormatUint tick) (show_nat now)"
  from run taken(3) have h': "h' = AList.update (FormatUint pip) ?v ?l" "r = (True, [])" by simp_all
  have "redis_ok mx h'" unfolding h'
    by (rule redis_ok_update) (use ok taken(1) in simp_all)
  moreover have "redis_held h' |\<subseteq>| finsert pip (redis_held h)"
    unfolding h' using redis_held_update(1) [of pip ?v ?l] redis_held_live [of lease "int now" h] by blast
  ultimately show ?thesis using h' redis_held_update(2) by simp
qed

lemma touchScript_keeps:
  assumes ok: "redis_ok mx h" and gap: "0 \<le> gap" and run: "touchScript (FormatUint pip) tick now gap h = Inr ((found, n), h')"
  shows "redis_ok mx h' \<and> redis_held h' = redis_held h \<and> (found \<longleftrightarrow> pip |\<in>| redis_held h) \<and> 0 \<le> n \<and> n \<le> gap"
proof (cases "map_of h (FormatUint pip)")
  case None
  then have "FormatUint pip \<notin> set (map fst h)" by (simp add: map_of_eq_None_iff)
  with None run ok gap show ?thesis by (simp add: touchScript_def redis_held_iff)
next
  case (Some v)
  then have inh: "(FormatUint pip, v) \<in> set h" by (rule map_of_SomeD)
  then have dom: "FormatUint pip \<in> set (map fst h)" by force
  from inh ok obtain a b m where v: "v = shift_value (FormatUint a) (FormatUint b) (show_nat m)"
    by (auto simp: redis_ok_def)
  from run Some v have h': "h' = AList.update (FormatUint pip) (shift_value (FormatUint a) (FormatUint tick) (show_nat now)) h"
    and n: "found" "0 \<le> n" "n \<le> gap"
    using gap by (auto simp: touchScript_def Let_def split: if_splits)
  have "redis_ok mx h'" unfolding h' by (rule redis_ok_update [OF ok]) (use dom in simp)
  moreover have "redis_held h' = redis_held h" unfolding h' by (rule redis_held_touch [OF dom])
  ultimately show ?thesis using n dom by (simp add: redis_held_iff [OF ok])
qed

lemma redis_delete:
  assumes ok: "redis_ok mx h"
  shows "redis_ok mx (AList.delete (FormatUint pip) h)"
    "redis_held (AList.delete (FormatUint pip) h) = redis_held h |-| {|pip|}"
proof -
  show ok': "redis_ok mx (AList.delete (FormatUint pip) h)"
    using ok by (simp add: delete_filter redis_ok_filter)
  show "redis_held (AList.delete (FormatUint pip) h) = redis_held h |-| {|pip|}"
    by (intro fset_eqI) (simp add: redis_held_iff [OF ok] redis_held_iff [OF ok'] delete_keys)
qed

interpretation redis_shifts: shift_store "RedisStore (FarmRedis wid)" redis_held MaxWorkers 40
  "redis_ok MaxWorkers" redis_legal for wid
proof (unfold_locales, goal_cases)
  case (1 s)
  then show ?case by (simp add: redis_held_card) (simp add: redis_ok_def)
next
  case (2 s e pip tick rc s')
  from 2(3) have run: "run_cmd (first_cmd e) s (Inr (claimScript (hgetall e) (FormatUint pip) (FormatUint tick)
      (now_ms e) (ShiftLease div 10 ^ 6) (int MaxWorkers) s)) = (rc, s')"
    by (simp add: RedisStore_def redisStore_Claim_def FarmRedis_def NewRedisStore_def)
  have "mset (hgetall e s) = mset s" using 2(2) by (simp add: redis_legal_def)
  note keeps = claimScript_keeps [where order = "hgetall e", OF 2(1) this]
  from run show ?case
  proof (cases rule: run_cmd_cases)
    case (kept er)
    with 2(1) show ?thesis by auto
  next
    case (lost er x)
    then show ?thesis using keeps by simp
  next
    case (answered x)
    then show ?thesis using keeps by simp
  qed
next
  case (3 s e pip tick rt s')
  obtain r0 s0 where run: "run_cmd (first_cmd e) s
      (touchScript (FormatUint pip) tick (now_ms e) 40 s) = (r0, s0)" by fastforce
  with 3(3) have out: "s' = s0" "rt = (case r0 of Inl er \<Rightarrow> Inl er | Inr (found, n) \<Rightarrow> Inr (of_int n, found))"
    by (auto simp: RedisStore_def redisStore_Touch_def FarmRedis_def NewRedisStore_def MaxTicksPerWork_def
        split: sum.splits prod.splits)
  from run show ?case
  proof (cases rule: run_cmd_cases)
    case (kept er)
    with 3(1) out show ?thesis by simp
  next
    case (lost er x)
    with touchScript_keeps [OF 3(1), of 40 pip tick "now_ms e" "fst x" "snd x" s0] out show ?thesis by simp
  next
    case (answered x)
    with touchScript_keeps [OF 3(1), of 40 pip tick "now_ms e" "fst x" "snd x" s0] out
    show ?thesis by (cases x) (auto simp: sint_small)
  qed
next
  case (4 s e pip tick rr s')
  let ?field = "FormatUint pip"
  obtain r0 s0 where first: "run_cmd (first_cmd e) s (Inr (map_of s ?field, s)) = (r0, s0)" by fastforce
  then have s0: "s0 = s" by (cases rule: run_cmd_cases) auto
  show ?case
  proof (cases "\<exists>v. r0 = Inr (Some v)")
    case False
    then have "s' = s" "rr = Inr (st, found) \<Longrightarrow> \<not> found \<and> map_of s ?field = None" for st found
      using 4(3) first s0
      by (auto simp: RedisStore_def redisStore_Release_def run_cmd_def
          split: sum.splits option.splits cmd_outcome.splits)
    then show ?thesis
      using 4(1) by (auto simp: redis_held_iff map_of_eq_None_iff)
  next
    case True
    then obtain v where v: "r0 = Inr (Some v)" by blast
    with first have dom: "?field \<in> set (map fst s)"
      by (auto simp: run_cmd_def dest!: map_of_SomeD split: cmd_outcome.splits) force
    obtain r1 s1 where second: "run_cmd (second_cmd e) s (Inr ((), AList.delete ?field s)) = (r1, s1)" by fastforce
    from 4(3) first second v s0 have out: "s' = s1" "(\<exists>er. rr = Inl er) \<or> (\<exists>st. rr = Inr (st, True) \<and> r1 = Inr ())"
      by (auto simp: RedisStore_def redisStore_Release_def Let_def split: sum.splits)
    from second show ?thesis
      by (cases rule: run_cmd_cases)
         (use out dom 4(1) redis_delete [OF 4(1), of pip] in \<open>auto simp: redis_held_iff [OF 4(1)]\<close>)
  qed
next
  case (5 s e rn s')
  then show ?case
    by (cases "first_cmd e") (auto simp: RedisStore_def redisStore_Count_def run_cmd_def redis_held_card)
qed

end
