(* ===== verification/DaprStore.thy ===== *)
theory DaprStore
  imports RedisStore
begin

text \<open>
  The Dapr store (\<^verbatim>\<open>daprStore\<close> in \<^verbatim>\<open>dapr.go\<close>): the shift set of one building under one key of the actor
  state store. Each operation loads the set, runs one of the shared rules on it and writes it back;
  the actor runtime runs one invocation at a time per building, so an operation is one step. What is
  stored is the wire form, or nothing for an actor never written. The environment says whether the
  load is answered and what becomes of the save.
\<close>

section \<open>The wire form\<close>

record wireShift =
  StartedTick :: u64
  LastWorkTick :: u64
  LastWork :: int

definition to_wire :: "shift \<Rightarrow> wireShift" where
  "to_wire sh = \<lparr>StartedTick = startedTick sh, LastWorkTick = lastWorkTick sh, LastWork = lastWork sh\<rparr>"

definition from_wire :: "wireShift \<Rightarrow> shift" where
  "from_wire w = \<lparr>startedTick = StartedTick w, lastWorkTick = LastWorkTick w, lastWork = LastWork w\<rparr>"

lemma from_to_wire [simp]: "from_wire (to_wire sh) = sh"
  by (simp add: from_wire_def to_wire_def)

type_synonym actor_state = "(u64, wireShift) fmap option"

definition ActorType :: string where "ActorType = ''farm''"

definition stateKey :: string where "stateKey = ''shifts''"

record daprStore =
  ds_base :: string
  ds_id :: u64
  ds_max :: int
  ds_lease :: int
  ds_maxGap :: u64

definition NewDaprStore :: "string \<Rightarrow> u64 \<Rightarrow> int \<Rightarrow> int \<Rightarrow> u64 \<Rightarrow> daprStore" where
  "NewDaprStore base workplaceID mx lease gap =
     \<lparr>ds_base = TrimSuffix ''/'' base, ds_id = workplaceID, ds_max = mx, ds_lease = lease, ds_maxGap = gap\<rparr>"

text \<open>Where the sidecar keeps a building's set: the key is read at the first, a transaction is posted to the second.\<close>

definition stateURL :: "daprStore \<Rightarrow> string \<Rightarrow> string" where
  "stateURL d suffix =
     ds_base d @ ''/v1.0/actors/'' @ ActorType @ ''/'' @ FormatUint (ds_id d) @ ''/state'' @ suffix"

lemma stateURL_inj:
  "ds_base d = ds_base d' \<Longrightarrow> stateURL d suffix = stateURL d' suffix \<longleftrightarrow> ds_id d = ds_id d'"
  by (auto simp: stateURL_def)

record dapr_env =
  dapr_clock :: clock
  load_error :: "go_error option"
  save_outcome :: cmd_outcome

section \<open>Load and save\<close>

definition daprStore_load :: "daprStore \<Rightarrow> dapr_env \<Rightarrow> actor_state \<Rightarrow> shiftSet fallible" where
  "daprStore_load d e st =
     (case load_error e of
        Some err \<Rightarrow> Inl err
      | None \<Rightarrow>
        (let empty = newShiftSet (ds_max d) (ds_lease d) (ds_maxGap d) in
         case st of
           None \<Rightarrow> Inr empty
         | Some wire \<Rightarrow> Inr (empty\<lparr>shifts := fmmap from_wire wire\<rparr>)))"

definition daprStore_save :: "dapr_env \<Rightarrow> shiftSet \<Rightarrow> actor_state \<Rightarrow> unit fallible \<times> actor_state" where
  "daprStore_save e ss st =
     (case save_outcome e of
        Answered \<Rightarrow> (Inr (), Some (fmmap to_wire (shifts ss)))
      | NotRun err \<Rightarrow> (Inl err, st)
      | AnswerLost err \<Rightarrow> (Inl err, Some (fmmap to_wire (shifts ss))))"

section \<open>The operations\<close>

text \<open>
  The same over HTTP: what the client got back, and what \<^verbatim>\<open>load\<close> and \<^verbatim>\<open>save\<close> make of it. An actor never
  written answers 204 or 404, or 200 with nothing in it.
\<close>

datatype http_answer = NoAnswer go_error | HttpReply nat string

definition daprStore_get ::
  "(string \<Rightarrow> (u64, wireShift) fmap fallible) \<Rightarrow> daprStore \<Rightarrow> http_answer \<Rightarrow> shiftSet fallible"
where
  "daprStore_get decode d answer =
     (case answer of
        NoAnswer err \<Rightarrow> Inl err
      | HttpReply status body \<Rightarrow>
        (let empty = newShiftSet (ds_max d) (ds_lease d) (ds_maxGap d) in
         if status = 204 \<or> status = 404 then Inr empty
         else if status \<noteq> 200 then Inl (''actor state get: '' @ show_nat status @ '' '' @ body)
         else if TrimSpace body = [] then Inr empty
         else
           (case decode body of
              Inl err \<Rightarrow> Inl (''actor state decode: '' @ err)
            | Inr wire \<Rightarrow> Inr (empty\<lparr>shifts := fmmap from_wire wire\<rparr>))))"

definition daprStore_post ::
  "((u64, wireShift) fmap \<Rightarrow> string fallible) \<Rightarrow> shiftSet \<Rightarrow> http_answer \<Rightarrow> unit fallible"
where
  "daprStore_post encode ss answer =
     (case encode (fmmap to_wire (shifts ss)) of
        Inl err \<Rightarrow> Inl err
      | Inr body \<Rightarrow>
        (case answer of
           NoAnswer err \<Rightarrow> Inl err
         | HttpReply status msg \<Rightarrow>
             if 300 \<le> status then Inl (''actor state post: '' @ show_nat status @ '' '' @ msg) else Inr ()))"

text \<open>The answers a sidecar that holds \<open>st\<close> gives to a read of it.\<close>

fun holds_answer :: "(string \<Rightarrow> (u64, wireShift) fmap fallible) \<Rightarrow> actor_state \<Rightarrow> http_answer \<Rightarrow> bool" where
  "holds_answer decode st (NoAnswer err) = False"
| "holds_answer decode None (HttpReply status body) \<longleftrightarrow> status \<in> {204, 404} \<or> status = 200 \<and> TrimSpace body = []"
| "holds_answer decode (Some wire) (HttpReply status body) \<longleftrightarrow>
     status = 200 \<and> TrimSpace body \<noteq> [] \<and> decode body = Inr wire"

lemma get_is_load:
  "holds_answer decode st answer \<Longrightarrow> load_error e = None \<Longrightarrow> daprStore_get decode d answer = daprStore_load d e st"
  "daprStore_get decode d answer = Inl err \<Longrightarrow> load_error e = Some err \<Longrightarrow>
    daprStore_get decode d answer = daprStore_load d e st"
  by (cases "(decode, st, answer)" rule: holds_answer.cases)
     (auto simp: daprStore_get_def daprStore_load_def Let_def)

text \<open>A set that was posted is the set that is read back.\<close>

lemma post_then_get:
  assumes "daprStore_post encode ss answer = Inr ()"
    and "\<And>wire body. encode wire = Inr body \<Longrightarrow> TrimSpace body \<noteq> [] \<and> decode body = Inr wire"
    and "s_max ss = ds_max d" "s_lease ss = ds_lease d" "s_maxGap ss = ds_maxGap d"
  obtains body where "encode (fmmap to_wire (shifts ss)) = Inr body" "daprStore_get decode d (HttpReply 200 body) = Inr ss"
proof -
  obtain body where body: "encode (fmmap to_wire (shifts ss)) = Inr body"
    using assms(1) by (auto simp: daprStore_post_def split: sum.splits)
  have "fmmap from_wire (fmmap to_wire (shifts ss)) = shifts ss" by (rule fmap_ext) (simp add: option.map_comp comp_def option.map_ident)
  with assms(2) [OF body] assms(3-5) have "daprStore_get decode d (HttpReply 200 body) = Inr ss"
    by (simp add: daprStore_get_def newShiftSet_def)
  with body show thesis by (rule that)
qed

definition daprStore_Claim ::
  "daprStore \<Rightarrow> dapr_env \<Rightarrow> actor_state \<Rightarrow> u64 \<Rightarrow> u64 \<Rightarrow> (bool \<times> string) fallible \<times> actor_state"
where
  "daprStore_Claim d e st pip tick =
     (case daprStore_load d e st of
        Inl err \<Rightarrow> (Inl err, st)
      | Inr ss \<Rightarrow>
        (let ((accepted, reason), ss') = shiftSet_claim (dapr_clock e) pip tick ss in
         if \<not> accepted then (Inr (False, reason), st)
         else (case daprStore_save e ss' st of
                 (Inl err, st') \<Rightarrow> (Inl err, st')
               | (Inr _, st') \<Rightarrow> (Inr (True, []), st'))))"

definition daprStore_Touch ::
  "daprStore \<Rightarrow> dapr_env \<Rightarrow> actor_state \<Rightarrow> u64 \<Rightarrow> u64 \<Rightarrow> (i32 \<times> bool) fallible \<times> actor_state"
where
  "daprStore_Touch d e st pip tick =
     (case daprStore_load d e st of
        Inl err \<Rightarrow> (Inl err, st)
      | Inr ss \<Rightarrow>
        (let ((elapsed, ok), ss') = shiftSet_touch (dapr_clock e) pip tick ss in
         if \<not> ok then (Inr (0, False), st)
         else (case daprStore_save e ss' st of
                 (Inl err, st') \<Rightarrow> (Inl err, st')
               | (Inr _, st') \<Rightarrow> (Inr (elapsed, True), st'))))"

definition daprStore_Release ::
  "daprStore \<Rightarrow> dapr_env \<Rightarrow> actor_state \<Rightarrow> u64 \<Rightarrow> u64 \<Rightarrow> (u64 \<times> bool) fallible \<times> actor_state"
where
  "daprStore_Release d e st pip tick =
     (case daprStore_load d e st of
        Inl err \<Rightarrow> (Inl err, st)
      | Inr ss \<Rightarrow>
        (let ((started, found), ss') = shiftSet_release pip ss in
         if \<not> found then (Inr (0, False), st)
         else (case daprStore_save e ss' st of
                 (Inl err, st') \<Rightarrow> (Inl err, st')
               | (Inr _, st') \<Rightarrow> (Inr (started, True), st'))))"

definition daprStore_Count :: "daprStore \<Rightarrow> dapr_env \<Rightarrow> actor_state \<Rightarrow> int fallible \<times> actor_state" where
  "daprStore_Count d e st =
     (case daprStore_load d e st of
        Inl err \<Rightarrow> (Inl err, st)
      | Inr ss \<Rightarrow> (Inr (shiftSet_count ss), st))"

definition DaprStore :: "daprStore \<Rightarrow> (dapr_env, actor_state) Store" where
  "DaprStore d = \<lparr>Claim = daprStore_Claim d, Touch = daprStore_Touch d, Release = daprStore_Release d,
     Count = daprStore_Count d\<rparr>"

section \<open>The contract\<close>

definition dapr_held :: "actor_state \<Rightarrow> u64 fset" where
  "dapr_held st = (case st of None \<Rightarrow> {||} | Some wire \<Rightarrow> fmdom wire)"

definition dapr_ok :: "nat \<Rightarrow> actor_state \<Rightarrow> bool" where
  "dapr_ok mx st \<longleftrightarrow> fcard (dapr_held st) \<le> mx"

definition FarmDapr :: "string \<Rightarrow> u64 \<Rightarrow> daprStore" where
  "FarmDapr base workplaceID = NewDaprStore base workplaceID (int MaxWorkers) ShiftLease MaxTicksPerWork"

lemma daprStore_load_ok:
  assumes "dapr_ok MaxWorkers st" and "daprStore_load (FarmDapr base wid) e st = Inr ss"
  shows "shiftSet_ok MaxWorkers MaxTicksPerWork ss" "fmdom (shifts ss) = dapr_held st"
  using assms
  by (auto simp: daprStore_load_def FarmDapr_def NewDaprStore_def newShiftSet_def dapr_ok_def dapr_held_def
      shiftSet_ok_def MaxTicksPerWork_def fcard_fempty split: option.splits)

text \<open>Whatever becomes of a save, the state is the old one or the new one.\<close>

lemma daprStore_save_cases:
  assumes "daprStore_save e ss st = (r, st')"
  obtains (kept) er where "r = Inl er" "st' = st"
  | (lost) er where "r = Inl er" "st' = Some (fmmap to_wire (shifts ss))"
  | (saved) "r = Inr ()" "st' = Some (fmmap to_wire (shifts ss))"
  using assms by (cases "save_outcome e") (auto simp: daprStore_save_def)

lemma saved_held [simp]: "dapr_held (Some (fmmap to_wire m)) = fmdom m"
  by (simp add: dapr_held_def)

lemma saved_ok: "shiftSet_ok mx gap ss \<Longrightarrow> dapr_ok mx (Some (fmmap to_wire (shifts ss)))"
  by (simp add: dapr_ok_def shiftSet_ok_def)

interpretation dapr_shifts: shift_store "DaprStore (FarmDapr base wid)" dapr_held MaxWorkers 40
  "dapr_ok MaxWorkers" "\<lambda>_. True" for wid
proof (unfold_locales, goal_cases)
  case (1 st)
  then show ?case by (simp add: dapr_ok_def)
next
  case (2 st e pip tick rc st')
  show ?case
  proof (cases "daprStore_load (FarmDapr base wid) e st")
    case (Inl er)
    with 2 show ?thesis by (auto simp: DaprStore_def daprStore_Claim_def)
  next
    case (Inr ss)
    note ld = daprStore_load_ok [OF 2(1) Inr]
    obtain acc why ss' where cl: "shiftSet_claim (dapr_clock e) pip tick ss = ((acc, why), ss')"
      by (cases "shiftSet_claim (dapr_clock e) pip tick ss") auto
    note dom = shiftSet_claim_dom [of "dapr_clock e" pip tick ss, unfolded cl, simplified]
    obtain rs st1 where sv: "daprStore_save e ss' st = (rs, st1)" by fastforce
    have ok': "shiftSet_ok MaxWorkers MaxTicksPerWork ss'"
      using shiftSet_claim_ok [OF ld(1), of "dapr_clock e" pip tick] cl by simp
    show ?thesis
    proof (cases acc)
      case False
      with 2 Inr cl show ?thesis by (auto simp: DaprStore_def daprStore_Claim_def)
    next
      case True
      with 2(3) Inr cl sv have out: "st' = st1" "rc = map_sum id (\<lambda>_. (True, [])) rs"
        by (auto simp: DaprStore_def daprStore_Claim_def split: sum.splits)
      from sv show ?thesis
        by (cases rule: daprStore_save_cases)
           (use out 2(1) ok' ld(2) dom True in \<open>auto simp: saved_ok\<close>)
    qed
  qed
next
  case (3 st e pip tick rt st')
  show ?case
  proof (cases "daprStore_load (FarmDapr base wid) e st")
    case (Inl er)
    with 3 show ?thesis by (auto simp: DaprStore_def daprStore_Touch_def)
  next
    case (Inr ss)
    note ld = daprStore_load_ok [OF 3(1) Inr]
    obtain n ok ss' where cl: "shiftSet_touch (dapr_clock e) pip tick ss = ((n, ok), ss')"
      by (cases "shiftSet_touch (dapr_clock e) pip tick ss") auto
    have dom: "fmdom (shifts ss') = dapr_held st"
      using shiftSet_touch_dom [of "dapr_clock e" pip tick ss] cl ld(2) by simp
    have pay: "ok \<Longrightarrow> pip |\<in>| dapr_held st \<and> 0 \<le> sint n \<and> sint n \<le> 40" "\<not> ok \<Longrightarrow> pip |\<notin>| dapr_held st"
      using shiftSet_touch_pay [OF ld(1), of "dapr_clock e" pip tick] cl ld(2)
      by (auto simp: MaxTicksPerWork_def)
    have ok': "shiftSet_ok MaxWorkers MaxTicksPerWork ss'"
      using shiftSet_touch_ok [OF ld(1), of "dapr_clock e" pip tick] cl by simp
    obtain rs st1 where sv: "daprStore_save e ss' st = (rs, st1)" by fastforce
    show ?thesis
    proof (cases ok)
      case False
      with 3 Inr cl pay show ?thesis by (auto simp: DaprStore_def daprStore_Touch_def)
    next
      case True
      with 3(3) Inr cl sv have out: "st' = st1" "rt = map_sum id (\<lambda>_. (n, True)) rs"
        by (auto simp: DaprStore_def daprStore_Touch_def split: sum.splits)
      from sv show ?thesis
        by (cases rule: daprStore_save_cases)
           (use out 3(1) ok' dom pay True in \<open>auto simp: saved_ok\<close>)
    qed
  qed
next
  case (4 st e pip tick rr st')
  show ?case
  proof (cases "daprStore_load (FarmDapr base wid) e st")
    case (Inl er)
    with 4 show ?thesis by (auto simp: DaprStore_def daprStore_Release_def)
  next
    case (Inr ss)
    note ld = daprStore_load_ok [OF 4(1) Inr]
    obtain start ok ss' where cl: "shiftSet_release pip ss = ((start, ok), ss')"
      by (cases "shiftSet_release pip ss") auto
    have dom: "fmdom (shifts ss') = dapr_held st |-| {|pip|}"
      using shiftSet_release_dom [of pip ss] cl ld(2) by simp
    have fnd: "ok \<longleftrightarrow> pip |\<in>| dapr_held st"
      using shiftSet_release_found [of pip ss] cl ld(2) by simp
    have ok': "shiftSet_ok MaxWorkers MaxTicksPerWork ss'"
      using shiftSet_release_ok [OF ld(1), of pip] cl by simp
    obtain rs st1 where sv: "daprStore_save e ss' st = (rs, st1)" by fastforce
    show ?thesis
    proof (cases ok)
      case False
      with 4 Inr cl fnd show ?thesis by (auto simp: DaprStore_def daprStore_Release_def)
    next
      case True
      with 4(3) Inr cl sv have out: "st' = st1" "rr = map_sum id (\<lambda>_. (start, True)) rs"
        by (auto simp: DaprStore_def daprStore_Release_def split: sum.splits)
      from sv show ?thesis
        by (cases rule: daprStore_save_cases)
           (use out 4(1) ok' dom fnd True in \<open>auto simp: saved_ok\<close>)
    qed
  qed
next
  case (5 st e rn st')
  then show ?case
    using daprStore_load_ok(2) [OF 5(1)]
    by (auto simp: DaprStore_def daprStore_Count_def shiftSet_count_def split: sum.splits)
qed

end
