(* ===== verification/FarmHost.thy ===== *)
theory FarmHost
  imports FarmService DaprStore
begin

text \<open>
  What the service and the host promise over any store that meets the contract \<open>shift_store\<close>: the
  answers of \<^verbatim>\<open>Work\<close> are bounded, no building ever holds more than its capacity, and a pip is on shift
  only where it was claimed. Proved once in the locales, then interpreted for the three stores.
\<close>

section \<open>The service over any store\<close>

text \<open>The pay of a shift, in true integers.\<close>

lemma pay_exact:
  assumes "0 \<le> sint (n :: i32)" "sint n \<le> 40"
  shows "sint (scast (wagePerTick * n) :: i64) = 6 * sint n" and "sint (grainPerTick * n) = 3 * sint n"
proof -
  have w: "sint (wagePerTick * n) = 6 * sint n" and g: "sint (grainPerTick * n) = 3 * sint n"
    using assms by (simp_all add: sint_word_ariths wagePerTick_def grainPerTick_def signed_take_bit_int_eq_self)
  then show "sint (grainPerTick * n) = 3 * sint n" by simp
  show "sint (scast (wagePerTick * n) :: i64) = 6 * sint n"
    using w assms by (simp add: signed_scast_eq signed_take_bit_int_eq_self)
qed

context shift_store begin

lemma work_law:
  assumes "keep s" "legal e" "gap \<le> 40" "0 \<le> gap" and run: "Service_Work S e s pip tick = (r, s')"
  shows "keep s' \<and> held s' = held s
    \<and> (\<forall>w. r = Inr w \<longrightarrow> wr_ShiftShouldEnd w = (pip |\<notin>| held s) \<and> 0 \<le> sint (wr_Wage w) \<and> sint (wr_Wage w) \<le> 6 * gap
        \<and> (wr_ShiftShouldEnd w \<longrightarrow> wr_Wage w = 0 \<and> wr_Produced w = [])
        \<and> (\<forall>p \<in> set (wr_Produced w). fst p = RESOURCE_KIND_GRAIN \<and> sint (wr_Wage w) = 2 * sint (snd p)))"
proof -
  obtain rt s1 where t: "Touch S e s pip tick = (rt, s1)" by fastforce
  note law = touch_law [OF assms(1,2) t]
  show ?thesis
  proof (cases rt)
    case (Inl er)
    with run t law show ?thesis by (auto simp: Service_Work_def)
  next
    case (Inr x)
    obtain n ok where x: "x = (n, ok)" by (cases x)
    show ?thesis
    proof (cases ok)
      case False
      have "pip |\<notin>| held s" using law Inr x False by simp
      moreover have "r = Inr (no_work\<lparr>wr_ShiftShouldEnd := True\<rparr>)" "s' = s1"
        using run t Inr x False by (simp_all add: Service_Work_def)
      ultimately show ?thesis using law \<open>0 \<le> gap\<close> by (simp add: no_work_def)
    next
      case True
      then have n: "pip |\<in>| held s" "0 \<le> sint n" "sint n \<le> gap" using law Inr x by auto
      show ?thesis
      proof (cases "n = 0")
        case True
        with run t Inr x \<open>ok\<close> have "r = Inr no_work" "s' = s1" by (simp_all add: Service_Work_def)
        with law n \<open>0 \<le> gap\<close> show ?thesis by (simp add: no_work_def)
      next
        case False
        note pay = pay_exact [OF n(2) order_trans [OF n(3) assms(3)]]
        from run t law Inr x \<open>ok\<close> False have "r = Inr (no_work\<lparr>wr_Produced := [(RESOURCE_KIND_GRAIN, grainPerTick * n)],
            wr_Wage := scast (wagePerTick * n)\<rparr>)" "s' = s1"
          by (simp_all add: Service_Work_def)
        with law n pay show ?thesis by (simp add: no_work_def)
      qed
    qed
  qed
qed

lemma start_law:
  assumes "keep s" "legal e" and run: "Service_StartShift S e s pip tick = (r, s')"
  shows "keep s' \<and> held s' |\<subseteq>| finsert pip (held s) \<and> (\<forall>why. r = Inr (True, why) \<longrightarrow> pip |\<in>| held s')"
proof -
  obtain rc s1 where c: "Claim S e s pip tick = (rc, s1)" by fastforce
  note law = claim_law [OF assms(1,2) c]
  from run c have s1: "s' = s1" by (auto simp: Service_StartShift_def split: sum.splits prod.splits if_splits)
  have "\<exists>why'. rc = Inr (True, why')" if "r = Inr (True, why)" for why
    using run c that by (auto simp: Service_StartShift_def split: sum.splits prod.splits if_splits)
  with law s1 show ?thesis by blast
qed

lemma offer_law:
  assumes "keep s" "legal e" and run: "Service_ConsiderOffer S e s pip tick = ((acc, why), s')"
  shows "keep s' \<and> held s' |\<subseteq>| finsert pip (held s) \<and> (acc \<longrightarrow> pip |\<in>| held s')"
proof -
  obtain rc s1 where c: "Claim S e s pip tick = (rc, s1)" by fastforce
  note law = claim_law [OF assms(1,2) c]
  from run c have s1: "s' = s1" by (auto simp: Service_ConsiderOffer_def split: sum.splits prod.splits)
  have "acc \<Longrightarrow> \<exists>why'. rc = Inr (True, why')"
    using run c by (auto simp: Service_ConsiderOffer_def split: sum.splits prod.splits)
  with law s1 show ?thesis by blast
qed

lemma end_law:
  assumes "keep s" "legal e" and run: "Service_EndShift S e s pip tick = (r, s')"
  shows "keep s' \<and> held s' |\<subseteq>| held s \<and> (r = Inr () \<longrightarrow> pip |\<notin>| held s')"
proof -
  obtain rr s1 where c: "Release S e s pip tick = (rr, s1)" by fastforce
  note law = release_law [OF assms(1,2) c]
  from run c have s1: "s' = s1" by (auto simp: Service_EndShift_def split: sum.splits prod.splits)
  have "\<exists>st found. rr = Inr (st, found)" if "r = Inr ()"
    using run c that by (auto simp: Service_EndShift_def split: sum.splits prod.splits)
  with law s1 show ?thesis by blast
qed

lemma reading_law:
  assumes "keep s" "legal e"
  shows "Service_Describe S wid e s = (rd, s') \<Longrightarrow> s' = s"
    and "Service_CanEmploy S e s = (rc, s') \<Longrightarrow> s' = s"
    and "0 \<le> Service_Workers S e s \<Longrightarrow> Service_Workers S e s = int (fcard (held s))"
proof -
  obtain rn s1 where c: "Count S e s = (rn, s1)" by fastforce
  note law = count_law [OF assms c]
  show "Service_Describe S wid e s = (rd, s') \<Longrightarrow> s' = s"
    using c law by (auto simp: Service_Describe_def split: sum.splits)
  show "Service_CanEmploy S e s = (rc, s') \<Longrightarrow> s' = s"
    using c law by (auto simp: Service_CanEmploy_def split: sum.splits if_splits)
  show "0 \<le> Service_Workers S e s \<Longrightarrow> Service_Workers S e s = int (fcard (held s))"
    using c law by (auto simp: Service_Workers_def split: sum.splits)
qed

end

section \<open>The host over any stores\<close>

definition employs :: "('s \<Rightarrow> u64 fset) \<Rightarrow> 's Host \<Rightarrow> u64 \<Rightarrow> u64 \<Rightarrow> bool" where
  "employs held h wid pip \<longleftrightarrow> (\<exists>s. fmlookup (buildings h) wid = Some s \<and> pip |\<in>| held s)"

definition all_keep :: "('s \<Rightarrow> bool) \<Rightarrow> 's Host \<Rightarrow> bool" where
  "all_keep keep h \<longleftrightarrow> (\<forall>i s. fmlookup (buildings h) i = Some s \<longrightarrow> keep s)"

lemma employs_upd:
  "employs held (h\<lparr>buildings := fmupd i s (buildings h)\<rparr>) wid pip \<longleftrightarrow>
    (if wid = i then pip |\<in>| held s else employs held h wid pip)"
  by (simp add: employs_def)

lemma all_keep_upd: "all_keep keep h \<Longrightarrow> keep s \<Longrightarrow> all_keep keep (h\<lparr>buildings := fmupd i s (buildings h)\<rparr>)"
  by (simp add: all_keep_def)

text \<open>An RPC runs at most one method, on the store of one hosted building.\<close>

lemma Host_on_cases:
  assumes "Host_on f h wid = (r, h')"
  obtains (refused) er where "r = Inl er" "h' = h"
  | (ran) i s s' where "Host_resolve h wid = Inr i" "fmlookup (buildings h) i = Some s" "f i s = (r, s')"
      "h' = h\<lparr>buildings := fmupd i s' (buildings h)\<rparr>"
proof (cases "Host_resolve h wid")
  case (Inl er)
  with assms show ?thesis by (intro refused) (auto simp: Host_on_def)
next
  case (Inr i)
  show ?thesis
  proof (cases "fmlookup (buildings h) i")
    case None
    with assms Inr show ?thesis by (intro refused) (auto simp: Host_on_def)
  next
    case (Some s)
    obtain r' s' where "f i s = (r', s')" by fastforce
    with assms Inr Some show ?thesis by (intro ran) (auto simp: Host_on_def)
  qed
qed

lemma Host_resolve_hosted:
  assumes "Host_resolve h wid = Inr b"
  shows "\<exists>s. fmlookup (buildings h) b = Some s" and "wid \<noteq> 0 \<Longrightarrow> b = wid"
proof -
  have "set (Host_ids h) = fmdom' (buildings h)" by (simp add: Host_ids_def)
  then have "b \<in> fmdom' (buildings h)"
    using assms by (auto simp: Host_resolve_def split: if_splits list.splits)
  then show "\<exists>s. fmlookup (buildings h) b = Some s" by (simp add: fmlookup_dom'_iff)
  show "wid \<noteq> 0 \<Longrightarrow> b = wid" using assms by (auto simp: Host_resolve_def split: if_splits)
qed

text \<open>The host under any traffic: the RPCs of the contract and the offers of the queue, in any order.\<close>

inductive host_step :: "(u64 \<Rightarrow> ('e, 's) Store) \<Rightarrow> ('e \<Rightarrow> bool) \<Rightarrow> 's Host \<Rightarrow> 's Host \<Rightarrow> bool" for S legal where
  step_start: "\<forall>i. legal (e i) \<Longrightarrow> Host_StartShift S e h wid pip tick = (r, h') \<Longrightarrow> host_step S legal h h'"
| step_work: "\<forall>i. legal (e i) \<Longrightarrow> Host_Work S e h wid pip tick = (rw, h') \<Longrightarrow> host_step S legal h h'"
| step_end: "\<forall>i. legal (e i) \<Longrightarrow> Host_EndShift S e h wid pip tick = (re, h') \<Longrightarrow> host_step S legal h h'"
| step_offer: "\<forall>i. legal (e i) \<Longrightarrow> Host_ConsiderOffer S e h pip tick = (ro, h') \<Longrightarrow> host_step S legal h h'"
| step_list: "\<forall>i. legal (e i) \<Longrightarrow> Host_List S e h = (rl, h') \<Longrightarrow> host_step S legal h h'"

inductive host_reach :: "(u64 \<Rightarrow> ('e, 's) Store) \<Rightarrow> ('e \<Rightarrow> bool) \<Rightarrow> 's Host \<Rightarrow> 's Host \<Rightarrow> bool" for S legal h0 where
  reach_first: "host_reach S legal h0 h0"
| reach_next: "host_reach S legal h0 h \<Longrightarrow> host_step S legal h h' \<Longrightarrow> host_reach S legal h0 h'"

lemma fold_fmupd_values:
  "fmlookup (fold (\<lambda>(i, s). fmupd i s) bs m) j = Some s \<Longrightarrow> fmlookup m j = Some s \<or> s \<in> snd ` set bs"
  by (induction bs arbitrary: m) (force split: if_splits)+

lemma NewHost_keep: "\<forall>(i, s) \<in> set bs. keep s \<Longrightarrow> all_keep keep (NewHost bs)"
  by (fastforce simp: all_keep_def NewHost_def dest: fold_fmupd_values)

locale hosted =
  fixes S :: "u64 \<Rightarrow> ('e, 's) Store" and held :: "'s \<Rightarrow> u64 fset" and cap :: nat and gap :: int
    and keep :: "'s \<Rightarrow> bool" and legal :: "'e \<Rightarrow> bool"
  assumes each: "shift_store (S i) held cap gap keep legal"
begin

lemma host_capacity:
  "all_keep keep h \<Longrightarrow> fmlookup (buildings h) i = Some s \<Longrightarrow> fcard (held s) \<le> cap"
  using shift_store.within_cap [OF each] by (auto simp: all_keep_def)

text \<open>Each RPC keeps the stores and adds nobody but the pip of a claim.\<close>

lemma host_start:
  assumes "all_keep keep h" "\<And>i. legal (e i)" and run: "Host_StartShift S e h wid pip tick = (r, h')"
  shows "all_keep keep h' \<and> (\<forall>w p. employs held h' w p \<longrightarrow> p \<noteq> pip \<longrightarrow> employs held h w p)"
  using run unfolding Host_StartShift_def
proof (cases rule: Host_on_cases)
  case (ran i s s')
  have "keep s" using assms(1) ran(2) by (simp add: all_keep_def)
  from shift_store.start_law [OF each this assms(2) ran(3)] show ?thesis
    using assms(1) ran(2,4) by (auto simp: all_keep_upd employs_upd) (auto simp: employs_def)
qed (use assms(1) in auto)

lemma host_work:
  assumes "all_keep keep h" "\<And>i. legal (e i)" "gap \<le> 40" "0 \<le> gap" and run: "Host_Work S e h wid pip tick = (r, h')"
  shows "all_keep keep h' \<and> (\<forall>w p. employs held h' w p \<longleftrightarrow> employs held h w p)
    \<and> (\<forall>w. r = Inr w \<longrightarrow> 0 \<le> sint (wr_Wage w) \<and> sint (wr_Wage w) \<le> 6 * gap)"
  using run unfolding Host_Work_def
proof (cases rule: Host_on_cases)
  case (ran i s s')
  have "keep s" using assms(1) ran(2) by (simp add: all_keep_def)
  from shift_store.work_law [OF each this assms(2,3,4) ran(3)] show ?thesis
    using assms(1) ran(2,4) by (auto simp: all_keep_upd employs_upd) (auto simp: employs_def)
qed (use assms(1) in auto)

lemma host_end:
  assumes "all_keep keep h" "\<And>i. legal (e i)" and run: "Host_EndShift S e h wid pip tick = (r, h')"
  shows "all_keep keep h' \<and> (\<forall>w p. employs held h' w p \<longrightarrow> employs held h w p)"
  using run unfolding Host_EndShift_def
proof (cases rule: Host_on_cases)
  case (ran i s s')
  have "keep s" using assms(1) ran(2) by (simp add: all_keep_def)
  from shift_store.end_law [OF each this assms(2) ran(3)] show ?thesis
    using assms(1) ran(2,4) by (auto simp: all_keep_upd employs_upd) (auto simp: employs_def)
qed (use assms(1) in auto)

lemma offer_round_law:
  assumes "all_keep keep h" "\<And>i. legal (e i)"
    and "offer_round S e is pip tick lst h = ((acc, why, wid), h')"
  shows "all_keep keep h' \<and> (\<forall>w p. employs held h' w p \<longrightarrow> p \<noteq> pip \<longrightarrow> employs held h w p)
    \<and> (acc \<longrightarrow> wid \<in> set is \<and> (wid \<noteq> 0 \<longrightarrow> employs held h' wid pip))"
  using assms(1,3)
proof (induction "is" arbitrary: h lst)
  case Nil
  then show ?case by auto
next
  case (Cons i "is")
  show ?case
  proof (cases "Host_resolve h i")
    case (Inl er)
    with Cons show ?thesis by auto
  next
    case (Inr b)
    then obtain s where s: "fmlookup (buildings h) b = Some s" and same: "i \<noteq> 0 \<Longrightarrow> b = i"
      using Host_resolve_hosted by blast
    obtain a y s' where o: "Service_ConsiderOffer (S b) (e b) s pip tick = ((a, y), s')"
      by (metis surj_pair)
    have "keep s" using Cons.prems(1) s by (simp add: all_keep_def)
    note law = shift_store.offer_law [OF each this assms(2) o]
    let ?h = "h\<lparr>buildings := fmupd b s' (buildings h)\<rparr>"
    have h: "all_keep keep ?h" "\<forall>w p. employs held ?h w p \<longrightarrow> p \<noteq> pip \<longrightarrow> employs held h w p"
      using law Cons.prems(1) s by (auto simp: all_keep_upd employs_upd) (auto simp: employs_def)
    show ?thesis
    proof (cases a)
      case True
      with Cons.prems(2) Inr s o have "h' = ?h" "wid = i" "acc" by auto
      with h law True same show ?thesis by (auto simp: employs_upd)
    next
      case False
      with Cons.prems(2) Inr s o
      have "offer_round S e is pip tick (if y \<noteq> [] then y else lst) ?h = ((acc, why, wid), h')" by simp
      from Cons.IH [OF h(1) this] h(2) show ?thesis by auto
    qed
  qed
qed

lemma host_offer:
  assumes "all_keep keep h" "\<And>i. legal (e i)" and run: "Host_ConsiderOffer S e h pip tick = ((acc, why, wid), h')"
  shows "all_keep keep h' \<and> (\<forall>w p. employs held h' w p \<longrightarrow> p \<noteq> pip \<longrightarrow> employs held h w p)
    \<and> (acc \<longrightarrow> wid \<in> set (Host_ids h) \<and> (wid \<noteq> 0 \<longrightarrow> employs held h' wid pip))"
proof (cases "Host_ids h = []")
  case True
  with run assms(1) show ?thesis by (simp add: Host_ConsiderOffer_def)
next
  case False
  let ?h = "h\<lparr>next_first := Suc (next_first h)\<rparr>"
    and ?is = "map (\<lambda>i. Host_ids h ! ((next_first h + i) mod length (Host_ids h))) [0..<length (Host_ids h)]"
  have keep: "all_keep keep ?h" and same: "employs held ?h w p = employs held h w p" for w p
    using assms(1) by (simp_all add: all_keep_def employs_def)
  have sub: "set ?is \<subseteq> set (Host_ids h)" using False by auto
  from run False have "offer_round S e ?is pip tick ''no free positions'' ?h = ((acc, why, wid), h')"
    by (simp add: Host_ConsiderOffer_def Let_def)
  from offer_round_law [OF keep assms(2) this] same sub show ?thesis by blast
qed

lemma describe_all_keeps:
  assumes "\<And>i. legal (e i)" and "all_keep keep h" and "describe_all S e is h = (r, h')"
  shows "all_keep keep h'"
  using assms(2,3)
proof (induction "is" arbitrary: h r h')
  case (Cons i "is")
  obtain rd h1 where d: "Host_Describe S e h i = (rd, h1)" by fastforce
  have k: "all_keep keep h1"
    using d [unfolded Host_Describe_def]
  proof (cases rule: Host_on_cases)
    case (ran j s s')
    have "keep s" using Cons.prems(1) ran(2) by (simp add: all_keep_def)
    with shift_store.reading_law(1) [OF each this assms(1) ran(3)] ran(4) Cons.prems(1)
    show ?thesis by (simp add: all_keep_upd)
  qed (use Cons.prems(1) in simp)
  obtain rs h2 where rest: "describe_all S e is h1 = (rs, h2)" by fastforce
  have "h' = h1 \<or> h' = h2" using Cons.prems(2) d rest by (auto split: sum.splits)
  with Cons.IH [OF k rest] k show ?case by auto
qed simp

lemma step_keeps:
  assumes "host_step S legal h h'" and "all_keep keep h" and "gap \<le> 40" "0 \<le> gap"
  shows "all_keep keep h'"
  using assms(1)
proof (cases rule: host_step.cases)
  case (step_start e wid pip tick r)
  then show ?thesis using host_start [OF assms(2)] by blast
next
  case (step_work e wid pip tick r)
  then show ?thesis using host_work [OF assms(2) _ assms(3,4)] by blast
next
  case (step_end e wid pip tick r)
  then show ?thesis using host_end [OF assms(2)] by blast
next
  case (step_offer e pip tick r)
  obtain acc why wid where "r = (acc, why, wid)" by (metis prod_cases3)
  with step_offer show ?thesis using host_offer [OF assms(2)] by blast
next
  case (step_list e r)
  then show ?thesis using describe_all_keeps [OF _ assms(2)] unfolding Host_List_def by blast
qed

lemma reach_keeps:
  assumes "host_reach S legal h0 h" and "all_keep keep h0" and "gap \<le> 40" "0 \<le> gap"
  shows "all_keep keep h"
  using assms by (induction rule: host_reach.induct) (auto dest: step_keeps)

end

interpretation mem_host: hosted "\<lambda>_. MemStore" "\<lambda>s. fmdom (shifts s)" MaxWorkers 40
  "shiftSet_ok MaxWorkers MaxTicksPerWork" "\<lambda>_. True"
  by unfold_locales

interpretation redis_host: hosted "\<lambda>i. RedisStore (FarmRedis i)" redis_held MaxWorkers 40
  "redis_ok MaxWorkers" redis_legal
  by unfold_locales

interpretation dapr_host: hosted "\<lambda>i. DaprStore (FarmDapr base i)" dapr_held MaxWorkers 40
  "dapr_ok MaxWorkers" "\<lambda>_. True"
  by unfold_locales

end
