(* ===== verification/FarmActor.thy ===== *)
theory FarmActor
  imports FarmHost
begin

text \<open>
  The Dapr-hosted farm (\<^verbatim>\<open>dapr.go\<close>): \<open>ActorHost\<close> hands every call to the building's actor through
  the sidecar, and \<open>serveActor\<close> with \<open>dispatch\<close> answers on the other side. The buildings' state is
  that of a \<open>Host\<close> whose stores live in the actor state store.

  Parameters, gathered in \<open>actor_env\<close>: protobuf's JSON codec, the sidecar's rewriting of an actor URL
  into the path it calls back, what becomes of each hop, and the environment of the store.
\<close>

section \<open>Requests and responses\<close>

datatype workplace_request =
  DescribeReq u64
| CanEmployReq u64 u64
| StartShiftReq u64 u64 u64
| WorkReq u64 u64 u64
| EndShiftReq u64 u64 u64 string
| BuyReq u64 u64 ResourceKind u64

datatype workplace_response =
  DescribeRes DescribeResponse
| CanEmployRes "bool \<times> string"
| StartShiftRes "bool \<times> string"
| WorkRes WorkResponse
| EndShiftRes
| BuyRes BuyResponse

fun req_id :: "workplace_request \<Rightarrow> u64" where
  "req_id (DescribeReq w) = w"
| "req_id (CanEmployReq w p) = w"
| "req_id (StartShiftReq w p t) = w"
| "req_id (WorkReq w p t) = w"
| "req_id (EndShiftReq w p t r) = w"
| "req_id (BuyReq w p k t) = w"

text \<open>\<^verbatim>\<open>msg.WorkplaceId = id\<close>\<close>

fun with_id :: "u64 \<Rightarrow> workplace_request \<Rightarrow> workplace_request" where
  "with_id i (DescribeReq w) = DescribeReq i"
| "with_id i (CanEmployReq w p) = CanEmployReq i p"
| "with_id i (StartShiftReq w p t) = StartShiftReq i p t"
| "with_id i (WorkReq w p t) = WorkReq i p t"
| "with_id i (EndShiftReq w p t r) = EndShiftReq i p t r"
| "with_id i (BuyReq w p k t) = BuyReq i p k t"

fun req_method :: "workplace_request \<Rightarrow> string" where
  "req_method (DescribeReq w) = ''Describe''"
| "req_method (CanEmployReq w p) = ''CanEmploy''"
| "req_method (StartShiftReq w p t) = ''StartShift''"
| "req_method (WorkReq w p t) = ''Work''"
| "req_method (EndShiftReq w p t r) = ''EndShift''"
| "req_method (BuyReq w p k t) = ''Buy''"

text \<open>The service's methods behind one type of request.\<close>

definition map_response :: "('a \<Rightarrow> 'b) \<Rightarrow> 'a response \<times> 's \<Rightarrow> 'b response \<times> 's" where
  "map_response f rs = (map_sum id f (fst rs), snd rs)"

fun Service_rpc ::
  "('e, 's) Store \<Rightarrow> u64 \<Rightarrow> 'e \<Rightarrow> 's \<Rightarrow> workplace_request \<Rightarrow> workplace_response response \<times> 's"
where
  "Service_rpc S i e s (DescribeReq w) = map_response DescribeRes (Service_Describe S i e s)"
| "Service_rpc S i e s (CanEmployReq w p) = map_response CanEmployRes (Service_CanEmploy S e s)"
| "Service_rpc S i e s (StartShiftReq w p t) = map_response StartShiftRes (Service_StartShift S e s p t)"
| "Service_rpc S i e s (WorkReq w p t) = map_response WorkRes (Service_Work S e s p t)"
| "Service_rpc S i e s (EndShiftReq w p t r) = map_response (\<lambda>_. EndShiftRes) (Service_EndShift S e s p t)"
| "Service_rpc S i e s (BuyReq w p k t) = map_response BuyRes (Service_Buy k, s)"

definition Host_rpc where
  "Host_rpc S e h req = Host_on (\<lambda>i s. Service_rpc (S i) i (e i) s req) h (req_id req)"

section \<open>What Dapr calls back into\<close>

record codec =
  marshal_req :: "workplace_request \<Rightarrow> string fallible"
  unmarshal_req :: "string \<Rightarrow> string \<Rightarrow> workplace_request fallible"
  marshal_res :: "workplace_response \<Rightarrow> string fallible"
  unmarshal_res :: "string \<Rightarrow> string \<Rightarrow> workplace_response fallible"

text \<open>The message of a method with every field zero: what an empty body stands for.\<close>

definition zero_req :: "string \<Rightarrow> workplace_request" where
  "zero_req m =
     (if m = ''Describe'' then DescribeReq 0
      else if m = ''CanEmploy'' then CanEmployReq 0 0
      else if m = ''StartShift'' then StartShiftReq 0 0 0
      else if m = ''Work'' then WorkReq 0 0 0
      else if m = ''EndShift'' then EndShiftReq 0 0 0 []
      else BuyReq 0 0 RESOURCE_KIND_UNSPECIFIED 0)"

definition actor_methods :: "string list" where
  "actor_methods = [''Describe'', ''CanEmploy'', ''StartShift'', ''Work'', ''EndShift'', ''Buy'']"

definition dispatch ::
  "codec \<Rightarrow> ('e, 's) Store \<Rightarrow> u64 \<Rightarrow> 'e \<Rightarrow> 's \<Rightarrow> string \<Rightarrow> string \<Rightarrow> string fallible \<times> 's"
where
  "dispatch c S i e s m body =
     (if m \<notin> set actor_methods then (Inl (''unknown actor method '' @ m), s)
      else case (if TrimSpace body = [] then Inr (zero_req m) else unmarshal_req c m body) of
             Inl err \<Rightarrow> (Inl err, s)
           | Inr req \<Rightarrow>
             (case Service_rpc S i e s req of
                (Inl (code, err), s') \<Rightarrow> (Inl err, s')
              | (Inr res, s') \<Rightarrow> (marshal_res c res, s')))"

text \<open>An HTTP reply: its status and body.\<close>

type_synonym reply = "nat \<times> string"

definition serveActor ::
  "codec \<Rightarrow> (u64 \<Rightarrow> ('e, 's) Store) \<Rightarrow> (u64 \<Rightarrow> 'e) \<Rightarrow> 's Host \<Rightarrow> string \<Rightarrow> string \<Rightarrow> string \<Rightarrow> reply \<times> 's Host"
where
  "serveActor c S e h verb path body =
     (let parts = split_on CHR ''/'' (trim (\<lambda>x. x = CHR ''/'') path) in
      if length parts < 3 then ((400, ''bad actor path''), h)
      else case ParseUint (parts ! 2) of
        None \<Rightarrow> ((400, ''bad actor id''), h)
      | Some wid \<Rightarrow>
        if verb = ''DELETE'' \<or> length parts < 5 then ((200, []), h)
        else case Host_resolve h wid of
          Inl (code, err) \<Rightarrow> ((404, err), h)
        | Inr i \<Rightarrow>
          (case fmlookup (buildings h) i of
             None \<Rightarrow> ((404, []), h)
           | Some s \<Rightarrow>
             (let (r, s') = dispatch c (S i) i (e i) s (parts ! 4) body;
                  h' = h\<lparr>buildings := fmupd i s' (buildings h)\<rparr>
              in case r of Inl err \<Rightarrow> ((500, err), h') | Inr out \<Rightarrow> ((200, out), h'))))"

section \<open>The actor host\<close>

text \<open>A hop through the sidecar: delivered and answered, not delivered, or its answer lost.\<close>

datatype hop = Delivered | HopFailed go_error | ReplyLost go_error

record 'e actor_env =
  the_codec :: codec
  sidecar_route :: "string \<Rightarrow> string"
  hop_to :: "u64 \<Rightarrow> hop"
  store_env :: "u64 \<Rightarrow> 'e"

definition actor_url :: "u64 \<Rightarrow> string \<Rightarrow> string" where
  "actor_url i m = ''/v1.0/actors/'' @ ActorType @ ''/'' @ FormatUint i @ ''/method/'' @ m"

text \<open>\<^verbatim>\<open>NewActorHost\<close>: the host it answers for, and where the sidecar is.\<close>

record 's ActorHost =
  ah_inner :: "'s Host"
  ah_base :: string

definition NewActorHost :: "'s Host \<Rightarrow> string \<Rightarrow> 's ActorHost" where
  "NewActorHost inner base = \<lparr>ah_inner = inner, ah_base = TrimSuffix ''/'' base\<rparr>"

definition zero_res :: "string \<Rightarrow> workplace_response" where
  "zero_res m =
     (if m = ''Describe'' then DescribeRes \<lparr>dr_WorkplaceId = 0, dr_Kind = [], dr_DisplayName = [], dr_MaxWorkers = 0,
        dr_CurrentWorkers = 0, dr_Produces = [], dr_Wage = 0, dr_Effort = 0, dr_Sells = []\<rparr>
      else if m = ''CanEmploy'' then CanEmployRes (False, [])
      else if m = ''StartShift'' then StartShiftRes (False, [])
      else if m = ''Work'' then WorkRes no_work
      else if m = ''EndShift'' then EndShiftRes
      else BuyRes \<lparr>br_Ok = False, br_Reason = [], br_Price = 0\<rparr>)"

definition ActorHost_call ::
  "(u64 \<Rightarrow> ('e, 's) Store) \<Rightarrow> 'e actor_env \<Rightarrow> 's Host \<Rightarrow> u64 \<Rightarrow> string \<Rightarrow> workplace_request \<Rightarrow>
    workplace_response fallible \<times> 's Host"
where
  "ActorHost_call S ae h i m req =
     (case marshal_req (the_codec ae) req of
        Inl err \<Rightarrow> (Inl err, h)
      | Inr body \<Rightarrow>
        (case hop_to ae i of
           HopFailed err \<Rightarrow> (Inl err, h)
         | ReplyLost err \<Rightarrow>
             (Inl err, snd (serveActor (the_codec ae) S (store_env ae) h ''PUT'' (sidecar_route ae (actor_url i m)) body))
         | Delivered \<Rightarrow>
           (let ((status, raw), h') =
                  serveActor (the_codec ae) S (store_env ae) h ''PUT'' (sidecar_route ae (actor_url i m)) body
            in if 300 \<le> status
               then (Inl (''actor '' @ ActorType @ ''/'' @ FormatUint i @ '' '' @ m @ '': '' @ show_nat status @ '' '' @ raw), h')
               else if TrimSpace raw = [] then (Inr (zero_res m), h')
               else (unmarshal_res (the_codec ae) m raw, h'))))"

text \<open>Every RPC of \<^verbatim>\<open>ActorHost\<close>: resolve the id, put it into the message, call the actor.\<close>

definition ActorHost_resolveID where
  "ActorHost_resolveID h wid = Host_resolve h wid"

definition ActorHost_rpc ::
  "(u64 \<Rightarrow> ('e, 's) Store) \<Rightarrow> 'e actor_env \<Rightarrow> 's Host \<Rightarrow> workplace_request \<Rightarrow> workplace_response response \<times> 's Host"
where
  "ActorHost_rpc S ae h req =
     (case ActorHost_resolveID h (req_id req) of
        Inl err \<Rightarrow> (Inl err, h)
      | Inr i \<Rightarrow>
        (case ActorHost_call S ae h i (req_method req) (with_id i req) of
           (Inl err, h') \<Rightarrow> (Inl (CodeUnavailable, err), h')
         | (Inr out, h') \<Rightarrow> (Inr out, h')))"

definition ActorHost_Describe where "ActorHost_Describe S ae h wid = ActorHost_rpc S ae h (DescribeReq wid)"
definition ActorHost_CanEmploy where "ActorHost_CanEmploy S ae h wid pip = ActorHost_rpc S ae h (CanEmployReq wid pip)"
definition ActorHost_StartShift where
  "ActorHost_StartShift S ae h wid pip tick = ActorHost_rpc S ae h (StartShiftReq wid pip tick)"
definition ActorHost_Work where "ActorHost_Work S ae h wid pip tick = ActorHost_rpc S ae h (WorkReq wid pip tick)"
definition ActorHost_EndShift where
  "ActorHost_EndShift S ae h wid pip tick reason = ActorHost_rpc S ae h (EndShiftReq wid pip tick reason)"
definition ActorHost_Buy where "ActorHost_Buy S ae h wid pip k tick = ActorHost_rpc S ae h (BuyReq wid pip k tick)"

fun actor_list ::
  "(u64 \<Rightarrow> ('e, 's) Store) \<Rightarrow> 'e actor_env \<Rightarrow> u64 list \<Rightarrow> 's Host \<Rightarrow> workplace_response list response \<times> 's Host"
where
  "actor_list S ae [] h = (Inr [], h)"
| "actor_list S ae (i # is) h =
     (case ActorHost_Describe S ae h i of
        (Inl err, h') \<Rightarrow> (Inl err, h')
      | (Inr d, h') \<Rightarrow>
        (case actor_list S ae is h' of
           (Inl err, h'') \<Rightarrow> (Inl err, h'')
         | (Inr ds, h'') \<Rightarrow> (Inr (d # ds), h'')))"

definition ActorHost_List where
  "ActorHost_List S ae h = actor_list S ae (Host_ids h) h"

text \<open>\<^verbatim>\<open>ConsiderOffer\<close> through the actors: the buildings in the order of their ids.\<close>

fun actor_offer ::
  "(u64 \<Rightarrow> ('e, 's) Store) \<Rightarrow> 'e actor_env \<Rightarrow> u64 list \<Rightarrow> u64 \<Rightarrow> u64 \<Rightarrow> 's Host \<Rightarrow> (bool \<times> string \<times> u64) \<times> 's Host"
where
  "actor_offer S ae [] pip tick h = ((False, ''no free positions'', 0), h)"
| "actor_offer S ae (i # is) pip tick h =
     (case ActorHost_call S ae h i ''StartShift'' (StartShiftReq i pip tick) of
        (Inl err, h') \<Rightarrow> actor_offer S ae is pip tick h'
      | (Inr out, h') \<Rightarrow>
        (case out of
           StartShiftRes (True, why) \<Rightarrow> ((True, [], i), h')
         | _ \<Rightarrow> actor_offer S ae is pip tick h'))"

definition ActorHost_ConsiderOffer where
  "ActorHost_ConsiderOffer S ae h pip tick = actor_offer S ae (Host_ids h) pip tick h"

fun actor_workers ::
  "(u64 \<Rightarrow> ('e, 's) Store) \<Rightarrow> 'e actor_env \<Rightarrow> u64 list \<Rightarrow> 's Host \<Rightarrow> int \<times> 's Host"
where
  "actor_workers S ae [] h = (0, h)"
| "actor_workers S ae (i # is) h =
     (case ActorHost_call S ae h i ''Describe'' (DescribeReq i) of
        (Inl err, h') \<Rightarrow> actor_workers S ae is h'
      | (Inr out, h') \<Rightarrow>
        (let (n, h'') = actor_workers S ae is h' in
         (n + (case out of DescribeRes d \<Rightarrow> sint (dr_CurrentWorkers d) | _ \<Rightarrow> 0), h'')))"

definition ActorHost_Workers where
  "ActorHost_Workers S ae h = fst (actor_workers S ae (Host_ids h) h)"

section \<open>The round trip through the sidecar\<close>

text \<open>What the theorems assume of protobuf's JSON, for the messages of a call, and of Dapr.\<close>

definition codec_req :: "codec \<Rightarrow> workplace_request \<Rightarrow> bool" where
  "codec_req c r \<longleftrightarrow>
     (\<exists>b. marshal_req c r = Inr b \<and> TrimSpace b \<noteq> [] \<and> unmarshal_req c (req_method r) b = Inr r)"

definition codec_res :: "codec \<Rightarrow> string \<Rightarrow> workplace_response \<Rightarrow> bool" where
  "codec_res c m x \<longleftrightarrow> (\<exists>b. marshal_res c x = Inr b \<and> TrimSpace b \<noteq> [] \<and> unmarshal_res c m b = Inr x)"

definition dapr_routes :: "(string \<Rightarrow> string) \<Rightarrow> bool" where
  "dapr_routes route \<longleftrightarrow> (\<forall>p. route (''/v1.0'' @ p) = p)"

lemma actor_path_parts:
  assumes "CHR ''/'' \<notin> set m" and "m \<noteq> []"
  shows "split_on CHR ''/'' (trim (\<lambda>x. x = CHR ''/'') (''/actors/farm/'' @ FormatUint i @ ''/method/'' @ m)) =
    [''actors'', ''farm'', FormatUint i, ''method'', m]"
proof -
  have num: "CHR ''/'' \<notin> set (FormatUint i)" by (rule FormatUint_no_char) (simp add: is_digit_def)
  let ?t = "''actors/farm/'' @ FormatUint i @ ''/method/'' @ m"
  have "last m \<noteq> CHR ''/''" using assms last_in_set by metis
  then have tr: "trim (\<lambda>x. x = CHR ''/'') (CHR ''/'' # ?t) = ?t"
    using assms(2) by (simp add: trim_def dropWhile_eq_self_iff hd_append hd_rev)
  have join: "?t = join_with CHR ''/'' [''actors'', ''farm'', FormatUint i, ''method'', m]" by simp
  have "split_on CHR ''/'' ?t = [''actors'', ''farm'', FormatUint i, ''method'', m]"
    unfolding join by (rule split_on_join) (use num assms in auto)
  with tr show ?thesis by simp
qed

lemma req_method_ok: "req_method r \<in> set actor_methods" "CHR ''/'' \<notin> set (req_method r)" "req_method r \<noteq> []"
  by (cases r; simp add: actor_methods_def)+

lemma with_id_simps [simp]: "req_method (with_id i r) = req_method r" "req_id (with_id i r) = i"
  "Service_rpc S j e s (with_id i r) = Service_rpc S j e s r"
  by (cases r; simp)+

lemma with_id_self: "with_id (req_id r) r = r"
  by (cases r) simp_all

text \<open>A delivered call of a hosted building is the building's own method.\<close>

lemma ActorHost_call_delivered:
  assumes req: "codec_req (the_codec ae) (with_id i r)"
    and reply: "\<And>x. res = Inr x \<Longrightarrow> codec_res (the_codec ae) (req_method r) x" and route: "dapr_routes (sidecar_route ae)" and hop: "hop_to ae i = Delivered"
    and i: "i \<noteq> 0" and look: "fmlookup (buildings h) i = Some s"
    and run: "Service_rpc (S i) i (store_env ae i) s r = (res, s')"
  shows "\<exists>out. ActorHost_call S ae h i (req_method r) (with_id i r) = (out, h\<lparr>buildings := fmupd i s' (buildings h)\<rparr>)
    \<and> (\<forall>x. res = Inr x \<longrightarrow> out = Inr x) \<and> (\<forall>code err. res = Inl (code, err) \<longrightarrow> (\<exists>err'. out = Inl err'))"
proof -
  obtain b where b: "marshal_req (the_codec ae) (with_id i r) = Inr b" "TrimSpace b \<noteq> []"
    "unmarshal_req (the_codec ae) (req_method r) b = Inr (with_id i r)"
    using req by (auto simp: codec_req_def)
  define P where "P = ''/actors/farm/'' @ FormatUint i @ ''/method/'' @ req_method r"
  have path: "sidecar_route ae (actor_url i (req_method r)) = P"
    using route [unfolded dapr_routes_def, rule_format, of P]
    by (simp add: actor_url_def ActorType_def P_def)
  have parts: "split_on CHR ''/'' (trim (\<lambda>x. x = CHR ''/'') P) =
      [''actors'', ''farm'', FormatUint i, ''method'', req_method r]"
    unfolding P_def by (rule actor_path_parts [OF req_method_ok(2,3)])
  have res: "Host_resolve h i = Inr i" using i look by (auto simp: Host_resolve_def fmlookup_dom'_iff)
  let ?h = "h\<lparr>buildings := fmupd i s' (buildings h)\<rparr>"
  show ?thesis
  proof (cases res)
    case (Inl ce)
    obtain code err where "ce = (code, err)" by (cases ce)
    with Inl have "serveActor (the_codec ae) S (store_env ae) h ''PUT''
        P b = ((500, err), ?h)"
      using b run look res req_method_ok(1) by (simp add: serveActor_def parts dispatch_def Let_def)
    with Inl b(1) hop path show ?thesis by (simp add: ActorHost_call_def)
  next
    case (Inr x)
    obtain raw where raw: "marshal_res (the_codec ae) x = Inr raw" "TrimSpace raw \<noteq> []"
      "unmarshal_res (the_codec ae) (req_method r) raw = Inr x"
      using reply [OF Inr] by (auto simp: codec_res_def)
    with Inr have "serveActor (the_codec ae) S (store_env ae) h ''PUT''
        P b = ((200, raw), ?h)"
      using b run look res req_method_ok(1) by (simp add: serveActor_def parts dispatch_def Let_def)
    with Inr b(1) hop path raw show ?thesis by (simp add: ActorHost_call_def)
  qed
qed

end
