(* ===== verification/FarmQueue.thy ===== *)
theory FarmQueue
  imports FarmService
begin

text \<open>
  The farm's consumer of work offers (\<^verbatim>\<open>services/workplaces/farm/internal/queue/queue.go\<close>): what it
  declares at the broker, and what it does with a delivery. Protobuf's decoding and encoding, the
  broker's answers and the decision are parameters; \<open>settle\<close> is what a delivery is told in the end.
\<close>

section \<open>Topology\<close>

definition exchange :: string where "exchange = ''pipsim.work''"
definition dlx :: string where "dlx = ''pipsim.work.dlx''"
definition hiredKey :: string where "hiredKey = ''hired''"
definition offerKeyPrefix :: string where "offerKeyPrefix = ''offer.''"
definition offerQueue :: string where "offerQueue = ''pipsim.work.farm''"
definition prefetch :: int where "prefetch = 4"

datatype amqp_declare =
  ExchangeDeclare string string
| QueueDeclare string "(string \<times> string) list"
| QueueBind string string string

text \<open>Declarations are sent in order; the first the broker refuses ends the list.\<close>

fun declare_all :: "(amqp_declare \<Rightarrow> go_error option) \<Rightarrow> amqp_declare list \<Rightarrow> amqp_declare list \<times> go_error option" where
  "declare_all refuses [] = ([], None)"
| "declare_all refuses (d # ds) =
     (case refuses d of
        Some err \<Rightarrow> ([], Some err)
      | None \<Rightarrow> (let (made, r) = declare_all refuses ds in (d # made, r)))"

definition farm_declarations :: "string \<Rightarrow> amqp_declare list" where
  "farm_declarations kind =
     [ExchangeDeclare exchange ''topic'',
      ExchangeDeclare dlx ''fanout'',
      QueueDeclare offerQueue [(''x-dead-letter-exchange'', dlx)],
      QueueBind offerQueue (offerKeyPrefix @ kind) exchange]"

definition farm_declare where
  "farm_declare refuses kind = declare_all refuses (farm_declarations kind)"

section \<open>Handling a delivery\<close>

record WorkOffer =
  wo_PipId :: u64
  wo_Tick :: u64
  wo_TraceId :: string

record HireOutcome =
  ho_PipId :: u64
  ho_WorkplaceId :: u64
  ho_WorkplaceKind :: string
  ho_Accepted :: bool
  ho_Reason :: string
  ho_Tick :: u64
  ho_TraceId :: string

datatype settle = Acked | Nacked bool | Rejected bool

text \<open>The environment of one delivery: decoding, encoding, and whether the publish fails.\<close>

record delivery_env =
  unmarshal_offer :: "string \<Rightarrow> WorkOffer option"
  marshal_outcome :: "HireOutcome \<Rightarrow> string fallible"
  publish_error :: "go_error option"

text \<open>
  \<open>decide\<close> is the workplace's own logic, a step on its state. The result: what the delivery was told,
  the outcome published if one was, and the state.
\<close>

definition Consumer_handle ::
  "('s \<Rightarrow> u64 \<Rightarrow> u64 \<Rightarrow> (bool \<times> string \<times> u64) \<times> 's) \<Rightarrow> string \<Rightarrow> delivery_env \<Rightarrow> 's \<Rightarrow> string \<Rightarrow>
    settle \<times> HireOutcome option \<times> 's"
where
  "Consumer_handle decide kind e s body =
     (case unmarshal_offer e body of
        None \<Rightarrow> (Rejected False, None, s)
      | Some offer \<Rightarrow>
        (let ((accepted, reason, workplaceID), s') = decide s (wo_PipId offer) (wo_Tick offer);
             outcome = \<lparr>ho_PipId = wo_PipId offer, ho_WorkplaceId = workplaceID, ho_WorkplaceKind = kind,
               ho_Accepted = accepted, ho_Reason = reason, ho_Tick = wo_Tick offer, ho_TraceId = wo_TraceId offer\<rparr>
         in case marshal_outcome e outcome of
              Inl err \<Rightarrow> (Rejected False, None, s')
            | Inr out \<Rightarrow>
              (case publish_error e of
                 Some err \<Rightarrow> (Nacked True, None, s')
               | None \<Rightarrow> (Acked, Some outcome, s'))))"

text \<open>The deliveries of a session, in order.\<close>

fun Consumer_session ::
  "('s \<Rightarrow> u64 \<Rightarrow> u64 \<Rightarrow> (bool \<times> string \<times> u64) \<times> 's) \<Rightarrow> string \<Rightarrow> (delivery_env \<times> string) list \<Rightarrow> 's \<Rightarrow>
    (settle \<times> HireOutcome option) list \<times> 's"
where
  "Consumer_session decide kind [] s = ([], s)"
| "Consumer_session decide kind ((e, body) # ds) s =
     (let (t, out, s') = Consumer_handle decide kind e s body;
          (ts, s'') = Consumer_session decide kind ds s'
      in ((t, out) # ts, s''))"

text \<open>
  A whole \<^verbatim>\<open>session\<close>: dialling, the channel, the declarations, the prefetch and the subscription may each
  fail; then the deliveries are handled until the session ends. An error of the connection is returned
  even when it is nil: the channel's element type is a pointer, which as an \<^verbatim>\<open>error\<close> is not nil.
\<close>

datatype session_end = CtxDone go_error | ConnClosed | DeliveriesEnd

record session_env =
  se_dial :: "go_error option"
  se_channel :: "go_error option"
  se_refuses :: "amqp_declare \<Rightarrow> go_error option"
  se_qos :: "int \<Rightarrow> go_error option"
  se_consume :: "go_error option"
  se_deliveries :: "(delivery_env \<times> string) list"
  se_end :: session_end

definition Consumer_connect :: "string \<Rightarrow> session_env \<Rightarrow> go_error option" where
  "Consumer_connect kind se =
     (case se_dial se of
        Some err \<Rightarrow> Some err
      | None \<Rightarrow>
        (case se_channel se of
           Some err \<Rightarrow> Some err
         | None \<Rightarrow>
           (case snd (farm_declare (se_refuses se) kind) of
              Some err \<Rightarrow> Some err
            | None \<Rightarrow> (case se_qos se prefetch of Some err \<Rightarrow> Some err | None \<Rightarrow> se_consume se))))"

definition Consumer_whole_session ::
  "('s \<Rightarrow> u64 \<Rightarrow> u64 \<Rightarrow> (bool \<times> string \<times> u64) \<times> 's) \<Rightarrow> string \<Rightarrow> session_env \<Rightarrow> 's \<Rightarrow>
    go_error option \<times> (settle \<times> HireOutcome option) list \<times> 's"
where
  "Consumer_whole_session decide kind se s =
     (case Consumer_connect kind se of
        Some err \<Rightarrow> (Some err, [], s)
      | None \<Rightarrow>
        (case se_end se of CtxDone err \<Rightarrow> Some err | ConnClosed \<Rightarrow> Some ''connection closed'' | DeliveriesEnd \<Rightarrow> None,
         Consumer_session decide kind (se_deliveries se) s))"

text \<open>\<^verbatim>\<open>Run\<close>: sessions one after the other, until the context is done; the list holds those it gets.\<close>

fun Consumer_Run_farm ::
  "('s \<Rightarrow> u64 \<Rightarrow> u64 \<Rightarrow> (bool \<times> string \<times> u64) \<times> 's) \<Rightarrow> string \<Rightarrow> session_env list \<Rightarrow> 's \<Rightarrow>
    (settle \<times> HireOutcome option) list \<times> 's"
where
  "Consumer_Run_farm decide kind [] s = ([], s)"
| "Consumer_Run_farm decide kind (se # ses) s =
     (let (err, ts, s1) = Consumer_whole_session decide kind se s;
          (ts', s2) = Consumer_Run_farm decide kind ses s1
      in (ts @ ts', s2))"

text \<open>An offer is gone from the queue only when its outcome was published, or can never be handled.\<close>

lemma Consumer_handle_cases:
  obtains (undecodable) "unmarshal_offer e body = None" "Consumer_handle decide kind e s body = (Rejected False, None, s)"
  | (decided) offer acc why wid s' out where "unmarshal_offer e body = Some offer"
      "decide s (wo_PipId offer) (wo_Tick offer) = ((acc, why, wid), s')"
      "out = \<lparr>ho_PipId = wo_PipId offer, ho_WorkplaceId = wid, ho_WorkplaceKind = kind, ho_Accepted = acc,
         ho_Reason = why, ho_Tick = wo_Tick offer, ho_TraceId = wo_TraceId offer\<rparr>"
      "Consumer_handle decide kind e s body =
        (case marshal_outcome e out of
           Inl err \<Rightarrow> (Rejected False, None, s')
         | Inr b \<Rightarrow> (case publish_error e of Some err \<Rightarrow> (Nacked True, None, s') | None \<Rightarrow> (Acked, Some out, s')))"
proof (cases "unmarshal_offer e body")
  case None
  then show ?thesis by (intro undecodable) (simp_all add: Consumer_handle_def)
next
  case (Some offer)
  obtain acc why wid s' where "decide s (wo_PipId offer) (wo_Tick offer) = ((acc, why, wid), s')"
    by (metis surj_pair)
  with Some show ?thesis by (intro decided [OF Some _ refl]) (simp_all add: Consumer_handle_def Let_def)
qed

text \<open>Nothing but \<open>decide\<close> touches the state of the workplace, so what every decision keeps, the consumer keeps.\<close>

lemma Consumer_session_keeps:
  assumes "\<And>s pip tick d s'. good s \<Longrightarrow> decide s pip tick = (d, s') \<Longrightarrow> good s'"
  shows "good s \<Longrightarrow> good (snd (Consumer_session decide kind ds s))"
proof (induction ds arbitrary: s)
  case (Cons x ds)
  obtain e body where x: "x = (e, body)" by fastforce
  have "good (snd (snd (Consumer_handle decide kind e s body)))"
    by (cases rule: Consumer_handle_cases [of e body decide kind s])
       (use Cons.prems assms in \<open>auto split: sum.split option.split\<close>)
  from Cons.IH [OF this] show ?case by (auto simp: x split: prod.split)
qed simp

lemma Consumer_Run_keeps:
  assumes "\<And>s pip tick d s'. good s \<Longrightarrow> decide s pip tick = (d, s') \<Longrightarrow> good s'"
  shows "good s \<Longrightarrow> good (snd (Consumer_Run_farm decide kind ses s))"
proof (induction ses arbitrary: s)
  case (Cons se ses)
  have "good (snd (snd (Consumer_whole_session decide kind se s)))"
    using Consumer_session_keeps [where good = good and decide = decide, OF assms Cons.prems] Cons.prems
    by (auto simp: Consumer_whole_session_def split: option.split)
  from Cons.IH [OF this] show ?case by (auto split: prod.split)
qed simp

end
