(* ===== verification/FarmProps.thy ===== *)
theory FarmProps
  imports FarmActor FarmQueue
begin

text \<open>
  The properties of the workplace: capacity, ghosts, what a shift pays, which building takes an offer,
  what the queue is told, and the Dapr-hosted form.
\<close>

section \<open>Capacity\<close>

text \<open>
  C2: Capacity holds on every store. A farm host that starts with empty buildings, on any of the three
  stores and under any traffic of calls and offers, any clock and any failures of the store, never has
  more than \<^verbatim>\<open>MaxWorkers\<close> pips on shift in a building.
\<close>

theorem farm_capacity:
  assumes "host_reach (\<lambda>_. MemStore) (\<lambda>_. True)
      (NewHost (map (\<lambda>i. (i, newMemStore (int MaxWorkers) ShiftLease MaxTicksPerWork)) ids)) hm"
    and "host_reach (\<lambda>i. RedisStore (FarmRedis i)) redis_legal (NewHost (map (\<lambda>i. (i, [])) ids)) hr"
    and "host_reach (\<lambda>i. DaprStore (FarmDapr base i)) (\<lambda>_. True) (NewHost (map (\<lambda>i. (i, None)) ids)) hx"
    and "fmlookup (buildings hm) wid = Some sm" "fmlookup (buildings hr) wid = Some sr"
      "fmlookup (buildings hx) wid = Some sd"
  shows "shiftSet_count sm \<le> int MaxWorkers \<and> length sr \<le> MaxWorkers \<and> fcard (dapr_held sd) \<le> MaxWorkers"
proof -
  have "all_keep (shiftSet_ok MaxWorkers MaxTicksPerWork) hm"
    by (rule mem_host.reach_keeps [OF assms(1) NewHost_keep])
       (auto simp: newMemStore_def MaxTicksPerWork_def intro: shiftSet_ok_new)
  moreover have "all_keep (redis_ok MaxWorkers) hr"
    by (rule redis_host.reach_keeps [OF assms(2) NewHost_keep]) (auto simp: redis_ok_def)
  moreover have "all_keep (dapr_ok MaxWorkers) hx"
    by (rule dapr_host.reach_keeps [OF assms(3) NewHost_keep]) (auto simp: dapr_ok_def dapr_held_def fcard_fempty)
  ultimately show ?thesis
    using assms(4-6) by (auto simp: all_keep_def shiftSet_ok_def shiftSet_count_def redis_ok_def dapr_ok_def)
qed

theorem farm_capacity_witness:
  "shiftSet_count (newMemStore (int MaxWorkers) ShiftLease MaxTicksPerWork) \<le> int MaxWorkers"
proof -
  let ?m = "NewHost (map (\<lambda>i. (i, newMemStore (int MaxWorkers) ShiftLease MaxTicksPerWork)) [1])"
  let ?r = "NewHost (map (\<lambda>i. (i, [] :: redis_hash)) [1])" and ?d = "NewHost (map (\<lambda>i. (i, None :: actor_state)) [1])"
  have "fmlookup (buildings ?m) 1 = Some (newMemStore (int MaxWorkers) ShiftLease MaxTicksPerWork)"
    "fmlookup (buildings ?r) 1 = Some []" "fmlookup (buildings ?d) 1 = Some None" by (simp_all add: NewHost_def)
  from farm_capacity [OF host_reach.reach_first host_reach.reach_first host_reach.reach_first this]
  show ?thesis by blast
qed

section \<open>Ghosts\<close>

lemma reap_all:
  "\<forall>p sh. fmlookup (shifts s) p = Some sh \<longrightarrow> shift_expired (s_lease s) (reap_at c p) sh \<Longrightarrow>
    shifts (reap c s) = fmempty"
  by (rule fmap_ext) (simp add: reap_lookup split: option.splits)

lemma claim_emptied:
  "0 < s_max s \<Longrightarrow> shifts (reap c s) = fmempty \<Longrightarrow> fst (shiftSet_claim c pip tick s) = (True, [])"
  by (simp add: shiftSet_claim_def shiftSet_count_def fcard_fempty Let_def)

lemma claim_loop_expired:
  "\<forall>(f, v) \<in> set es. entry_expired l n v \<Longrightarrow> claim_loop p n l es g k \<noteq> Inl g'"
  by (induction es arbitrary: g) auto

lemma redis_emptied:
  assumes "redis_ok mx h" "mset (order h) = mset h" "0 < m" "\<forall>(f, v) \<in> set h. entry_expired l (int n) v"
  shows "fst (claimScript order p t n l m h) = (True, [])"
proof -
  have live: "redis_live l (int n) h = []"
    using assms(4) by (auto simp: redis_live_def filter_empty_conv)
  have "set (order h) = set h" using assms(2) by (rule mset_eq_setD)
  with assms(4) have "\<forall>(f, v) \<in> set (order h). entry_expired l (int n) v" by simp
  then have "claim_loop p (int n) l (order h) h 0 \<noteq> Inl g" for g by (rule claim_loop_expired)
  then have "fst (claimScript order p t n l m h) \<noteq> (False, ''already on shift here'')"
    by (auto simp: claimScript_def split: sum.splits prod.splits)
  with assms(1,2) show ?thesis
    by (cases rule: claimScript_cases [where h = h and order = order and pip = p
          and tick = t and now = n and lease = l and m = m]) (use live assms(3) in auto)
qed

text \<open>
  C29: A building full of ghosts takes the next pip. When every shift a building holds has gone without
  a \<^verbatim>\<open>Work\<close> for longer than the lease, a claim is accepted, however many of them there are and even if
  the pip is one of them, by each of the stores.
\<close>

theorem ghosts_are_freed:
  assumes mem: "0 < s_max s" "\<forall>p sh. fmlookup (shifts s) p = Some sh \<longrightarrow> shift_expired (s_lease s) (reap_at c p) sh"
    and redis: "redis_ok mx h" "mset (hgetall e h) = mset h" "first_cmd e = Answered" "0 < rs_max rs"
      "\<forall>(f, v) \<in> set h. entry_expired (rs_lease rs div 10 ^ 6) (int (now_ms e)) v"
    and dapr: "0 < ds_max ds" "load_error de = None" "save_outcome de = Answered"
      "\<forall>p w. fmlookup wire p = Some w \<longrightarrow> shift_expired (ds_lease ds) (reap_at (dapr_clock de) p) (from_wire w)"
  shows "fst (memStore_Claim c s pip tick) = Inr (True, [])
    \<and> fst (redisStore_Claim rs e h pip tick) = Inr (True, [])
    \<and> fst (daprStore_Claim ds de (Some wire) pip tick) = Inr (True, [])"
proof (intro conjI)
  show "fst (memStore_Claim c s pip tick) = Inr (True, [])"
    using claim_emptied [OF mem(1) reap_all [OF mem(2)]] by (simp add: memStore_Claim_def)
  show "fst (redisStore_Claim rs e h pip tick) = Inr (True, [])"
  proof -
    obtain g where "claimScript (hgetall e) (FormatUint pip) (FormatUint tick) (now_ms e)
        (rs_lease rs div 10 ^ 6) (rs_max rs) h = ((True, []), g)"
      using redis_emptied [where order = "hgetall e" and h = h, OF redis(1,2,4,5)] by (metis prod.collapse)
    then show ?thesis using redis(3) by (simp add: redisStore_Claim_def run_cmd_def)
  qed
  let ?s = "(newShiftSet (ds_max ds) (ds_lease ds) (ds_maxGap ds))\<lparr>shifts := fmmap from_wire wire\<rparr>"
  have "shifts (reap (dapr_clock de) ?s) = fmempty"
    by (rule reap_all) (use dapr(4) in \<open>auto simp: newShiftSet_def\<close>)
  then have "fst (shiftSet_claim (dapr_clock de) pip tick ?s) = (True, [])"
    by (intro claim_emptied) (simp_all add: newShiftSet_def dapr(1))
  then obtain ss where "shiftSet_claim (dapr_clock de) pip tick ?s = ((True, []), ss)"
    by (metis prod.collapse)
  then show "fst (daprStore_Claim ds de (Some wire) pip tick) = Inr (True, [])"
    using dapr(2,3) by (simp add: daprStore_Claim_def daprStore_load_def daprStore_save_def Let_def)
qed

text \<open>A building of one place, held by a pip last heard of at time zero, a minute later.\<close>

definition ghost :: shift where "ghost = \<lparr>startedTick = 1, lastWorkTick = 1, lastWork = 0\<rparr>"

definition later :: clock where "later = \<lparr>reap_at = (\<lambda>_. 60 * 10 ^ 9), now_at = 60 * 10 ^ 9\<rparr>"

theorem ghosts_are_freed_witness:
  "fst (memStore_Claim later \<lparr>shifts = fmupd 7 ghost fmempty, s_max = 1, s_lease = ShiftLease, s_maxGap = 40\<rparr> 8 600)
     = Inr (True, [])
   \<and> fst (daprStore_Claim \<lparr>ds_base = [], ds_id = 1, ds_max = 1, ds_lease = ShiftLease, ds_maxGap = 40\<rparr>
        \<lparr>dapr_clock = later, load_error = None, save_outcome = Answered\<rparr> (Some (fmupd 7 (to_wire ghost) fmempty)) 8 600)
     = Inr (True, [])"
proof -
  let ?s = "\<lparr>shifts = fmupd 7 ghost fmempty, s_max = 1, s_lease = ShiftLease, s_maxGap = 40\<rparr>"
  let ?h = "[(FormatUint 7, shift_value (FormatUint 1) (FormatUint 1) (show_nat 0))]"
  let ?e = "\<lparr>now_ms = 60000, hgetall = (\<lambda>h. h), first_cmd = Answered, second_cmd = Answered\<rparr>"
  let ?de = "\<lparr>dapr_clock = later, load_error = None, save_outcome = Answered\<rparr>"
  let ?ds = "\<lparr>ds_base = [], ds_id = 1, ds_max = 1, ds_lease = ShiftLease, ds_maxGap = 40\<rparr>"
  have mem: "0 < s_max ?s" "\<forall>p sh. fmlookup (shifts ?s) p = Some sh \<longrightarrow> shift_expired (s_lease ?s) (reap_at later p) sh"
    by (simp_all add: shift_expired_def time_sub_def later_def ghost_def ShiftLease_def)
  have redis: "redis_ok 1 ?h" "mset (hgetall ?e ?h) = mset ?h" "first_cmd ?e = Answered"
    "0 < rs_max \<lparr>rs_key = [], rs_max = 1, rs_lease = ShiftLease, rs_maxGap = 40\<rparr>"
    "\<forall>(f, v) \<in> set ?h. entry_expired (rs_lease \<lparr>rs_key = [], rs_max = 1, rs_lease = ShiftLease, rs_maxGap = 40\<rparr> div 10 ^ 6)
       (int (now_ms ?e)) v"
    by (auto simp: redis_ok_def entry_expired_def ShiftLease_def)
  have dapr: "0 < ds_max ?ds" "load_error ?de = None" "save_outcome ?de = Answered"
    "\<forall>p w. fmlookup (fmupd 7 (to_wire ghost) fmempty) p = Some w \<longrightarrow>
       shift_expired (ds_lease ?ds) (reap_at (dapr_clock ?de) p) (from_wire w)"
    by (simp_all add: shift_expired_def time_sub_def later_def ghost_def ShiftLease_def)
  from ghosts_are_freed [OF mem redis dapr, of 8 600] show ?thesis by simp
qed

section \<open>Pay\<close>

text \<open>A caller that works a shift again and again, at the given ticks.\<close>

fun touch_all :: "(clock \<times> u64) list \<Rightarrow> u64 \<Rightarrow> shiftSet \<Rightarrow> i32 list \<times> shiftSet" where
  "touch_all [] pip s = ([], s)"
| "touch_all ((c, t) # cts) pip s =
     (let ((n, ok), s1) = shiftSet_touch c pip t s; (ns, s2) = touch_all cts pip s1
      in ((if ok then n else 0) # ns, s2))"

text \<open>
  C23: Nobody is paid for more time than has passed. However often a shift is worked at ticks that never
  go back, each call pays at most the maximal gap, and together they pay at most the ticks from the
  last one paid for to the last call: calling twice in a tick pays once.
\<close>

theorem chatty_caller_gains_nothing:
  assumes "fmlookup (shifts s) pip = Some sh" and "sorted (map uint (lastWorkTick sh # map snd cts))"
    and "uint (s_maxGap s) < 2 ^ 31"
  shows "sum_list (map sint (fst (touch_all cts pip s))) \<le> uint (last (lastWorkTick sh # map snd cts)) - uint (lastWorkTick sh)
    \<and> (\<forall>n \<in> set (fst (touch_all cts pip s)). 0 \<le> sint n \<and> sint n \<le> uint (s_maxGap s))"
  using assms
proof (induction cts arbitrary: s sh)
  case Nil
  then show ?case by simp
next
  case (Cons ct cts)
  obtain c t where ct: "ct = (c, t)" by (cases ct)
  let ?n = "elapsed_ticks (s_maxGap s) (lastWorkTick sh) t" and ?sh = "sh\<lparr>lastWorkTick := t, lastWork := now_at c\<rparr>"
  let ?s = "s\<lparr>shifts := fmupd pip ?sh (shifts s)\<rparr>"
  have run: "fst (touch_all (ct # cts) pip s) = ?n # fst (touch_all cts pip ?s)"
    using Cons.prems(1) ct by (simp add: shiftSet_touch_def Let_def split: prod.splits)
  have look: "fmlookup (shifts ?s) pip = Some ?sh" by simp
  have srt: "sorted (map uint (lastWorkTick ?sh # map snd cts))" "uint (lastWorkTick sh) \<le> uint t"
    using Cons.prems(2) ct by auto
  from Cons.IH [OF look srt(1)] Cons.prems(3)
  have IH: "sum_list (map sint (fst (touch_all cts pip ?s))) \<le> uint (last (t # map snd cts)) - uint t"
    "\<forall>n \<in> set (fst (touch_all cts pip ?s)). 0 \<le> sint n \<and> sint n \<le> uint (s_maxGap s)" by simp_all
  show ?case
    using IH elapsed_ticks_bounds [OF Cons.prems(3), of "lastWorkTick sh" t] srt(2) ct unfolding run by auto
qed

theorem chatty_caller_gains_nothing_witness:
  "sum_list (map sint (fst (touch_all [(later, 5), (later, 5), (later, 9)] 7
      \<lparr>shifts = fmupd 7 ghost fmempty, s_max = 1, s_lease = ShiftLease, s_maxGap = 40\<rparr>))) \<le> 8"
  using chatty_caller_gains_nothing [of "\<lparr>shifts = fmupd 7 ghost fmempty, s_max = 1, s_lease = ShiftLease, s_maxGap = 40\<rparr>"
      7 ghost "[(later, 5), (later, 5), (later, 9)]"]
  by (simp add: ghost_def)

text \<open>
  A caller whose tick goes back is paid twice for the same ticks: after a call at tick \<open>u\<close>, a call at
  an earlier tick \<open>t\<close> pays nothing but moves the shift back, and the next call at \<open>u\<close> is paid for
  everything since \<open>t\<close> again.
\<close>

theorem regressing_tick_paid_twice:
  assumes "fmlookup (shifts s) pip = Some sh" and "lastWorkTick sh \<le> t" "t < u"
  shows "fst (touch_all [(c1, u), (c2, t), (c3, u)] pip s) =
    [elapsed_ticks (s_maxGap s) (lastWorkTick sh) u, 0, elapsed_ticks (s_maxGap s) t u]"
  using assms by (auto simp: shiftSet_touch_def elapsed_ticks_def)

theorem regressing_tick_paid_twice_witness:
  "fst (touch_all [(later, 10), (later, 1), (later, 10)] 7
      \<lparr>shifts = fmupd 7 ghost fmempty, s_max = 1, s_lease = ShiftLease, s_maxGap = 40\<rparr>) = [9, 0, 9]"
  by (subst regressing_tick_paid_twice [where sh = ghost]) (simp_all add: ghost_def elapsed_ticks_def)

text \<open>
  What \<^verbatim>\<open>Work\<close> answers on each store: the shift is over exactly when the pip is not on it; the wage is
  between nothing and the pay of the maximal gap, twice the grain produced; and whoever is employed
  stays so.
\<close>

theorem work_answers:
  assumes "all_keep (shiftSet_ok MaxWorkers MaxTicksPerWork) h" and "Host_Work (\<lambda>_. MemStore) c h wid pip tick = (r, h')"
    and "all_keep (redis_ok MaxWorkers) g" "\<And>i. redis_legal (e i)"
    and "Host_Work (\<lambda>i. RedisStore (FarmRedis i)) e g wid pip tick = (rr, g')"
  shows "(\<forall>w. r = Inr w \<longrightarrow> 0 \<le> sint (wr_Wage w) \<and> sint (wr_Wage w) \<le> 240)
    \<and> (\<forall>v p. employs (\<lambda>s. fmdom (shifts s)) h' v p \<longleftrightarrow> employs (\<lambda>s. fmdom (shifts s)) h v p)
    \<and> (\<forall>w. rr = Inr w \<longrightarrow> 0 \<le> sint (wr_Wage w) \<and> sint (wr_Wage w) \<le> 240)
    \<and> (\<forall>v p. employs redis_held g' v p \<longleftrightarrow> employs redis_held g v p)"
  using mem_host.host_work [OF assms(1) _ _ _ assms(2)] redis_host.host_work [OF assms(3,4) _ _ assms(5)]
  by simp

definition one_farm :: "memStore Host" where
  "one_farm = NewHost [(1, newMemStore (int MaxWorkers) ShiftLease MaxTicksPerWork)]"

theorem work_answers_witness:
  "employs (\<lambda>s. fmdom (shifts s)) (snd (Host_Work (\<lambda>_. MemStore) (\<lambda>_. later) one_farm 1 7 5)) 1 7
    \<longleftrightarrow> employs (\<lambda>s. fmdom (shifts s)) one_farm 1 7"
proof -
  let ?e = "\<lambda>_ :: u64. \<lparr>now_ms = 0, hgetall = (\<lambda>h. h), first_cmd = Answered, second_cmd = Answered\<rparr>"
  let ?g = "NewHost [(1, [] :: redis_hash)]"
  have m: "all_keep (shiftSet_ok MaxWorkers MaxTicksPerWork) one_farm"
    unfolding one_farm_def
    by (rule NewHost_keep) (auto simp: newMemStore_def MaxTicksPerWork_def intro: shiftSet_ok_new)
  have r: "all_keep (redis_ok MaxWorkers) ?g" by (rule NewHost_keep) (auto simp: redis_ok_def)
  have l: "redis_legal (?e i)" for i by (simp add: redis_legal_def)
  from work_answers [where e = ?e, OF m prod.collapse [symmetric] r l prod.collapse [symmetric]] show ?thesis by blast
qed

end
