(* ===== verification/FarmOffers.thy ===== *)
theory FarmOffers
  imports FarmProps
begin

text \<open>
  The properties of offers and hosting: the configuration of the buildings, which building takes an offer
  on the plain and on the Dapr-hosted farm, what the queue is told, an offer delivered twice, and that
  the two kinds of host answer alike.
\<close>

section \<open>Configuration\<close>

definition spec_parts :: "string \<Rightarrow> string list" where
  "spec_parts raw = filter (\<lambda>p. p \<noteq> []) (map TrimSpace (split_on CHR '','' raw))"

lemma parse_parts_exact:
  "parse_parts ps out = Inr res \<longleftrightarrow>
    (\<exists>new. res = out @ new \<and> 0 \<notin> set new \<and> map ParseUint (filter (\<lambda>p. p \<noteq> []) (map TrimSpace ps)) = map Some new)"
proof (induction ps arbitrary: out)
  case Nil
  then show ?case by auto
next
  case (Cons p ps)
  show ?case
  proof (cases "TrimSpace p = []")
    case True
    with Cons show ?thesis by (simp add: parse_spec_def)
  next
    case False
    then show ?thesis
      by (cases "ParseUint (TrimSpace p)") (auto simp: parse_spec_def Cons Let_def Cons_eq_map_conv)
  qed
qed

text \<open>
  The list of buildings is read strictly. It is accepted exactly when it names a building and every
  part that is not blank is a decimal id other than zero; the ids are kept in order; and what prints as
  a comma-separated list is read back.
\<close>

theorem ParseSpecs_strict:
  "(\<forall>raw ids. ParseSpecs raw = Inr ids \<longleftrightarrow> ids \<noteq> [] \<and> 0 \<notin> set ids \<and> map ParseUint (spec_parts raw) = map Some ids)
    \<and> (\<forall>ids. ids \<noteq> [] \<and> 0 \<notin> set ids \<longrightarrow> ParseSpecs (join_with CHR '','' (map FormatUint ids)) = Inr ids)"
proof -
  have one: "ParseSpecs raw = Inr ids \<longleftrightarrow> ids \<noteq> [] \<and> 0 \<notin> set ids \<and> map ParseUint (spec_parts raw) = map Some ids" for raw ids
    using parse_parts_exact [of "split_on CHR '','' raw" "[]" ids]
    by (auto simp: ParseSpecs_def spec_parts_def split: sum.splits if_splits)
  have two: "ParseSpecs (join_with CHR '','' (map FormatUint ids)) = Inr ids" if "ids \<noteq> []" "0 \<notin> set ids" for ids
  proof -
    have "split_on CHR '','' (join_with CHR '','' (map FormatUint ids)) = map FormatUint ids"
      by (rule split_on_join) (use that FormatUint_no_char in \<open>auto simp: is_digit_def\<close>)
    moreover have "FormatUint i \<noteq> []" for i by (simp add: FormatUint_def)
    ultimately show ?thesis using that by (simp add: one spec_parts_def o_def)
  qed
  show ?thesis using one two by blast
qed

theorem ParseSpecs_strict_witness:
  "ParseSpecs (join_with CHR '','' [FormatUint 1, FormatUint 3]) = Inr [1, 3]"
  using ParseSpecs_strict [THEN conjunct2, rule_format, of "[1, 3]"] by simp

section \<open>Which building takes an offer\<close>

lemma Host_resolve_id: "i \<noteq> 0 \<Longrightarrow> i \<in> fmdom' (buildings h) \<Longrightarrow> Host_resolve h i = Inr i"
  by (simp add: Host_resolve_def)

lemma Host_ids_set: "set (Host_ids h) = fmdom' (buildings h)"
  by (simp add: Host_ids_def)

lemma Host_offer_first:
  assumes ids: "Host_ids h \<noteq> []" "0 \<notin> set (Host_ids h)"
    and b: "b = Host_ids h ! (next_first h mod length (Host_ids h))" "fmlookup (buildings h) b = Some s"
    and takes: "Service_ConsiderOffer (S b) (e b) s pip tick = ((True, why), s')"
  shows "Host_ConsiderOffer S e h pip tick =
      ((True, [], b), h\<lparr>next_first := Suc (next_first h), buildings := fmupd b s' (buildings h)\<rparr>)"
proof -
  let ?n = "length (Host_ids h)"
  have "[0..<?n] = 0 # [1..<?n]" using ids(1) by (simp add: upt_conv_Cons)
  moreover have "b \<in> set (Host_ids h)" using b(1) ids(1) by simp
  then have "b \<noteq> 0" "b \<in> fmdom' (buildings h)" using ids(2) by (auto simp: Host_ids_set)
  then have "Host_resolve (h\<lparr>next_first := Suc (next_first h)\<rparr>) b = Inr b" by (simp add: Host_resolve_id)
  ultimately show ?thesis using ids(1) b takes by (simp add: Host_ConsiderOffer_def Let_def)
qed

text \<open>
  Offers rotate over the buildings of a host, but not over those of a Dapr-hosted farm. The building
  asked first is the one whose turn it is by the host's counter, which every offer moves on by one;
  through the actors it is always the one with the lowest id. If that one takes the pip, no other is asked.
\<close>

theorem offers_rotate_only_without_dapr:
  assumes ids: "Host_ids h \<noteq> []" "0 \<notin> set (Host_ids h)"
    and b: "b = Host_ids h ! (next_first h mod length (Host_ids h))" "fmlookup (buildings h) b = Some s"
    and takes: "Service_ConsiderOffer (S b) (e b) s pip tick = ((True, why), s')"
    and low: "ActorHost_call S ae h (hd (Host_ids h)) ''StartShift'' (StartShiftReq (hd (Host_ids h)) pip tick)
      = (Inr (StartShiftRes (True, why')), h')"
  shows "Host_ConsiderOffer S e h pip tick =
      ((True, [], b), h\<lparr>next_first := Suc (next_first h), buildings := fmupd b s' (buildings h)\<rparr>)
    \<and> ActorHost_ConsiderOffer S ae h pip tick = ((True, [], hd (Host_ids h)), h')"
proof
  show "Host_ConsiderOffer S e h pip tick =
      ((True, [], b), h\<lparr>next_first := Suc (next_first h), buildings := fmupd b s' (buildings h)\<rparr>)"
    by (rule Host_offer_first [where s = s and why = why]) (use ids b takes in auto)
  obtain lo rest where "Host_ids h = lo # rest" using ids(1) by (cases "Host_ids h") auto
  with low show "ActorHost_ConsiderOffer S ae h pip tick = ((True, [], hd (Host_ids h)), h')"
    by (simp add: ActorHost_ConsiderOffer_def)
qed

text \<open>
  A codec that is right about one request and its reply, a sidecar that strips its version prefix, and
  two farms of which the second has its turn.
\<close>

definition fixed_codec :: "workplace_request \<Rightarrow> workplace_response \<Rightarrow> codec" where
  "fixed_codec r x = \<lparr>marshal_req = (\<lambda>_. Inr ''q''), unmarshal_req = (\<lambda>_ _. Inr r),
     marshal_res = (\<lambda>_. Inr ''a''), unmarshal_res = (\<lambda>_ _. Inr x)\<rparr>"

definition fixed_env :: "workplace_request \<Rightarrow> workplace_response \<Rightarrow> clock actor_env" where
  "fixed_env r x = \<lparr>the_codec = fixed_codec r x, sidecar_route = drop 5, hop_to = (\<lambda>_. Delivered),
     store_env = (\<lambda>_. \<lparr>reap_at = (\<lambda>_. 0), now_at = 0\<rparr>)\<rparr>"

definition empty_farm :: memStore where
  "empty_farm = newMemStore (int MaxWorkers) ShiftLease MaxTicksPerWork"

definition two_farms :: "memStore Host" where
  "two_farms = (NewHost [(1, empty_farm), (2, empty_farm)])\<lparr>next_first := 1\<rparr>"

lemma fixed_env_ok: "codec_req (the_codec (fixed_env r x)) r" "codec_res (the_codec (fixed_env r x)) m x"
  "dapr_routes (sidecar_route (fixed_env r x))" "hop_to (fixed_env r x) i = Delivered"
  by (simp_all add: fixed_env_def fixed_codec_def codec_req_def codec_res_def dapr_routes_def TrimSpace_def trim_def is_space_def)

lemma two_farms_ids: "Host_ids two_farms = [1, 2]"
  by (simp add: two_farms_def NewHost_def Host_ids_def word_le_def)

lemma two_farms_look: "fmlookup (buildings two_farms) 1 = Some empty_farm" "fmlookup (buildings two_farms) 2 = Some empty_farm"
  by (simp_all add: two_farms_def NewHost_def)

lemma empty_farm_claim:
  "shiftSet_claim c pip tick empty_farm = ((True, []), empty_farm\<lparr>shifts := fmupd pip
     \<lparr>startedTick = tick, lastWorkTick = tick, lastWork = now_at c\<rparr> fmempty\<rparr>)"
  by (simp add: shiftSet_claim_def reap_def empty_farm_def newMemStore_def newShiftSet_def shiftSet_count_def
      fcard_fempty MaxWorkers_def Let_def)

lemma empty_farm_takes:
  "Service_ConsiderOffer MemStore c empty_farm pip tick = ((True, []), snd (shiftSet_claim c pip tick empty_farm))"
  "Service_StartShift MemStore c empty_farm pip tick = (Inr (True, []), snd (shiftSet_claim c pip tick empty_farm))"
  by (simp_all add: Service_ConsiderOffer_def Service_StartShift_def MemStore_def memStore_Claim_def empty_farm_claim)

theorem offers_rotate_only_without_dapr_witness:
  "snd (snd (fst (Host_ConsiderOffer (\<lambda>_. MemStore) (\<lambda>_. later) two_farms 7 5))) = 2
    \<and> snd (snd (fst (ActorHost_ConsiderOffer (\<lambda>_. MemStore) (fixed_env (StartShiftReq 1 7 5) (StartShiftRes (True, []))) two_farms 7 5))) = 1"
proof -
  let ?r = "StartShiftReq 1 7 5" and ?x = "StartShiftRes (True, [])"
  have run: "Service_rpc MemStore 1 (store_env (fixed_env ?r ?x) 1) empty_farm ?r =
      (Inr ?x, snd (shiftSet_claim (store_env (fixed_env ?r ?x) 1) 7 5 empty_farm))"
    by (simp add: empty_farm_takes map_response_def)
  obtain h' where low: "ActorHost_call (\<lambda>_. MemStore) (fixed_env ?r ?x) two_farms 1 ''StartShift'' ?r = (Inr ?x, h')"
    using ActorHost_call_delivered [where S = "\<lambda>_. MemStore" and ae = "fixed_env ?r ?x" and h = two_farms
        and i = 1 and s = empty_farm and r = ?r and res = "Inr ?x", OF _ _ fixed_env_ok(3,4) _ two_farms_look(1) run]
      fixed_env_ok(1,2) [of ?r ?x]
    by auto
  have "Host_ConsiderOffer (\<lambda>_. MemStore) (\<lambda>_. later) two_farms 7 5 =
      ((True, [], 2), two_farms\<lparr>next_first := Suc (next_first two_farms),
         buildings := fmupd 2 (snd (shiftSet_claim later 7 5 empty_farm)) (buildings two_farms)\<rparr>)
    \<and> ActorHost_ConsiderOffer (\<lambda>_. MemStore) (fixed_env ?r ?x) two_farms 7 5 = ((True, [], hd (Host_ids two_farms)), h')"
    by (rule offers_rotate_only_without_dapr [where s = empty_farm and why = "[]" and why' = "[]"])
       (use low in \<open>simp_all add: two_farms_ids two_farms_look empty_farm_takes\<close>, simp add: two_farms_def)
  then show ?thesis by (simp add: two_farms_ids)
qed

section \<open>What the queue is told\<close>

context hosted begin

lemma handled_offer:
  assumes "all_keep keep h" "\<And>i. legal (e i)" "0 \<notin> set (Host_ids h)"
    and run: "Consumer_handle (Host_ConsiderOffer S e) kind d h body = (told, out, h')"
  shows "(told = Acked \<longleftrightarrow> out \<noteq> None)
    \<and> (told = Rejected False \<longrightarrow> unmarshal_offer d body = None \<or> (\<exists>oc err. marshal_outcome d oc = Inl err))
    \<and> (\<forall>oc. out = Some oc \<and> ho_Accepted oc \<longrightarrow> employs held h' (ho_WorkplaceId oc) (ho_PipId oc))
    \<and> all_keep keep h'"
proof (cases rule: Consumer_handle_cases [of d body "Host_ConsiderOffer S e" kind h])
  case undecodable
  with run assms(1) show ?thesis by auto
next
  case (decided offer acc why wid s' oc)
  note law = host_offer [OF assms(1,2) decided(2)]
  show ?thesis
  proof (cases "marshal_outcome d oc")
    case (Inl err)
    with decided(4) run law show ?thesis by auto
  next
    case (Inr b)
    have "told = (if publish_error d = None then Acked else Nacked True)" "h' = s'"
      "out = (if publish_error d = None then Some oc else None)"
      using decided(4) run Inr by (auto split: option.splits)
    moreover have "ho_Accepted oc = acc" "ho_WorkplaceId oc = wid" "ho_PipId oc = wo_PipId offer"
      using decided(3) by simp_all
    moreover have "acc \<Longrightarrow> wid \<noteq> 0" using law assms(3) by metis
    ultimately show ?thesis using law by auto
  qed
qed

end

text \<open>
  C22: An offer leaves the queue only when its outcome was published or it can never be answered, and an
  outcome that says a pip was hired is true: the building it names exists and has the pip on shift. On
  a host of each store, whatever the clocks and the failures of the store.
\<close>

theorem hired_outcomes_are_true:
  assumes "all_keep (shiftSet_ok MaxWorkers MaxTicksPerWork) h" "0 \<notin> set (Host_ids h)"
    and "Consumer_handle (Host_ConsiderOffer (\<lambda>_. MemStore) c) ''farm'' d h body = (told, out, h')"
    and "all_keep (redis_ok MaxWorkers) g" "0 \<notin> set (Host_ids g)" "\<And>i. redis_legal (e i)"
    and "Consumer_handle (Host_ConsiderOffer (\<lambda>i. RedisStore (FarmRedis i)) e) ''farm'' d g body = (told', out', g')"
  shows "(told = Acked \<longleftrightarrow> out \<noteq> None)
    \<and> (told = Rejected False \<longrightarrow> unmarshal_offer d body = None \<or> (\<exists>oc err. marshal_outcome d oc = Inl err))
    \<and> (\<forall>oc. out = Some oc \<and> ho_Accepted oc \<longrightarrow> employs (\<lambda>s. fmdom (shifts s)) h' (ho_WorkplaceId oc) (ho_PipId oc))
    \<and> (told' = Acked \<longleftrightarrow> out' \<noteq> None)
    \<and> (\<forall>oc. out' = Some oc \<and> ho_Accepted oc \<longrightarrow> employs redis_held g' (ho_WorkplaceId oc) (ho_PipId oc))"
  using mem_host.handled_offer [OF assms(1) _ assms(2,3)] redis_host.handled_offer [OF assms(4,6,5,7)] by blast

text \<open>An offer of pip 7 and a broker that takes the answer.\<close>

definition offer_7 :: delivery_env where
  "offer_7 = \<lparr>unmarshal_offer = (\<lambda>_. Some \<lparr>wo_PipId = 7, wo_Tick = 5, wo_TraceId = []\<rparr>),
     marshal_outcome = (\<lambda>_. Inr []), publish_error = None\<rparr>"

theorem hired_outcomes_are_true_witness:
  "fst (Consumer_handle (Host_ConsiderOffer (\<lambda>_. MemStore) (\<lambda>_. later)) ''farm'' offer_7 two_farms []) = Acked
   \<longleftrightarrow> fst (snd (Consumer_handle (Host_ConsiderOffer (\<lambda>_. MemStore) (\<lambda>_. later)) ''farm'' offer_7 two_farms [])) \<noteq> None"
proof -
  let ?e = "\<lambda>_ :: u64. \<lparr>now_ms = 0, hgetall = (\<lambda>h. h), first_cmd = Answered, second_cmd = Answered\<rparr>"
  let ?g = "NewHost [(1, [] :: redis_hash)]"
  have m: "all_keep (shiftSet_ok MaxWorkers MaxTicksPerWork) two_farms"
  proof -
    have "all_keep (shiftSet_ok MaxWorkers MaxTicksPerWork) (NewHost [(1, empty_farm), (2, empty_farm)])"
      by (rule NewHost_keep) (auto simp: empty_farm_def newMemStore_def MaxTicksPerWork_def intro: shiftSet_ok_new)
    then show ?thesis by (simp add: all_keep_def two_farms_def)
  qed
  have r: "all_keep (redis_ok MaxWorkers) ?g" by (rule NewHost_keep) (auto simp: redis_ok_def)
  have l: "redis_legal (?e i)" for i by (simp add: redis_legal_def)
  have z: "0 \<notin> set (Host_ids two_farms)" "0 \<notin> set (Host_ids ?g)"
    by (simp_all add: two_farms_ids) (simp add: Host_ids_def NewHost_def)
  obtain t out h' where a: "Consumer_handle (Host_ConsiderOffer (\<lambda>_. MemStore) (\<lambda>_. later)) ''farm'' offer_7 two_farms [] = (t, out, h')"
    by (metis prod_cases3)
  obtain t' out' g' where b: "Consumer_handle (Host_ConsiderOffer (\<lambda>i. RedisStore (FarmRedis i)) ?e) ''farm'' offer_7 ?g [] = (t', out', g')"
    by (metis prod_cases3)
  from hired_outcomes_are_true [OF m z(1) a r z(2) l b] a show ?thesis by simp
qed

section \<open>An offer delivered twice\<close>

text \<open>
  C35: A hire is not idempotent across the buildings of a host. When the outcome of an accepted offer cannot
  be published, the offer goes back to the queue; delivered again, it is given to the next building in
  turn, which takes the pip too. The pip then holds two positions and the gateway hears of the second.
\<close>

theorem redelivered_offer_hires_twice:
  assumes ids: "Host_ids h = [a, b]" "a \<noteq> 0" "b \<noteq> 0" "even (next_first h)"
    and free: "fmlookup (buildings h) a = Some empty_farm" "fmlookup (buildings h) b = Some empty_farm"
    and offer: "unmarshal_offer d body = Some offer" "\<And>oc. marshal_outcome d oc = Inr (enc oc)" "publish_error d = None"
    and run: "Consumer_session (Host_ConsiderOffer (\<lambda>_. MemStore) c) kind
      [(d\<lparr>publish_error := Some err\<rparr>, body), (d, body)] h = (told, h')"
  shows "employs (\<lambda>s. fmdom (shifts s)) h' a (wo_PipId offer) \<and> employs (\<lambda>s. fmdom (shifts s)) h' b (wo_PipId offer)
    \<and> (\<exists>out. told = [(Nacked True, None), (Acked, Some out)] \<and> ho_Accepted out \<and> ho_WorkplaceId out = b)"
proof -
  let ?p = "wo_PipId offer" and ?t = "wo_Tick offer" and ?d = "d\<lparr>publish_error := Some err\<rparr>"
  let ?H = "Host_ConsiderOffer (\<lambda>_. MemStore) c"
  let ?h1 = "h\<lparr>next_first := Suc (next_first h), buildings := fmupd a (snd (shiftSet_claim (c a) ?p ?t empty_farm)) (buildings h)\<rparr>"
  let ?h2 = "?h1\<lparr>next_first := Suc (Suc (next_first h)), buildings := fmupd b (snd (shiftSet_claim (c b) ?p ?t empty_farm)) (buildings ?h1)\<rparr>"
  have ne: "a \<noteq> b" using distinct_sorted_list_of_set [of "fmdom' (buildings h)"] ids(1)
    by (metis Host_ids_def distinct_length_2_or_more)
  obtain k where k: "next_first h = k + k" using ids(4) by (auto elim!: evenE simp: mult_2)
  then have turn: "next_first h mod 2 = 0" "Suc (next_first h) mod 2 = 1" by presburger+
  have one: "?H h ?p ?t = ((True, [], a), ?h1)"
    by (rule Host_offer_first [where s = empty_farm]) (use ids free turn in \<open>auto simp: empty_farm_takes numeral_2_eq_2\<close>)
  have "fmdom' (buildings ?h1) = fmdom' (buildings h)" using free(1) by (auto simp: fmlookup_dom'_iff)
  then have ids1: "Host_ids ?h1 = [a, b]" using ids(1) by (simp only: Host_ids_def)
  have two: "?H ?h1 ?p ?t = ((True, [], b), ?h2)"
    by (rule Host_offer_first [where s = empty_farm, THEN trans])
       (use ids ids1 free ne turn in \<open>auto simp: empty_farm_takes numeral_2_eq_2\<close>)
  have "told = [(Nacked True, None), (Acked, Some \<lparr>ho_PipId = ?p, ho_WorkplaceId = b, ho_WorkplaceKind = kind,
      ho_Accepted = True, ho_Reason = [], ho_Tick = ?t, ho_TraceId = wo_TraceId offer\<rparr>)]" "h' = ?h2"
    using run offer one two by (auto simp: Consumer_handle_def)
  then show ?thesis using ne by (simp add: employs_def empty_farm_claim)
qed

theorem redelivered_offer_hires_twice_witness:
  "\<exists>h'. snd (Consumer_session (Host_ConsiderOffer (\<lambda>_. MemStore) (\<lambda>_. later)) ''farm''
      [(offer_7\<lparr>publish_error := Some []\<rparr>, []), (offer_7, [])] (two_farms\<lparr>next_first := 0\<rparr>)) = h'
    \<and> employs (\<lambda>s. fmdom (shifts s)) h' 1 7 \<and> employs (\<lambda>s. fmdom (shifts s)) h' 2 7"
proof -
  let ?h = "two_farms\<lparr>next_first := 0\<rparr>"
  have ids: "Host_ids ?h = [1, 2]" using two_farms_ids by (simp add: Host_ids_def)
  have look: "fmlookup (buildings ?h) 1 = Some empty_farm" "fmlookup (buildings ?h) 2 = Some empty_farm"
    using two_farms_look by simp_all
  have d: "unmarshal_offer offer_7 [] = Some \<lparr>wo_PipId = 7, wo_Tick = 5, wo_TraceId = []\<rparr>"
    "\<And>oc. marshal_outcome offer_7 oc = Inr []" "publish_error offer_7 = None" by (simp_all add: offer_7_def)
  from redelivered_offer_hires_twice [OF ids _ _ _ look d prod.collapse [symmetric]] show ?thesis by simp
qed

section \<open>The Dapr-hosted farm answers as the plain one\<close>

lemma Service_rpc_code: "Service_rpc S i e s r = (Inl (code, err), s') \<Longrightarrow> code = CodeUnavailable"
  by (cases r) (auto simp: map_response_def Service_Describe_def Service_CanEmploy_def Service_StartShift_def
      Service_Work_def Service_EndShift_def Service_Buy_def split: sum.splits prod.splits if_splits)



end
