(* ===== verification/StoreAgreement.thy ===== *)
theory StoreAgreement
  imports FarmProps
begin

text \<open>
  The Redis store against the rules it restates in Lua: while its hash holds the shifts of a \<open>shiftSet\<close>, every
  command gives the answer of the corresponding rule, and leaves the shifts that rule leaves; with one
  exception, a claim refused because the pip is on shift, after which the hash may still hold shifts the
  rules have reaped.
\<close>

definition agree :: "string \<Rightarrow> shift \<Rightarrow> bool" where
  "agree v sh \<longleftrightarrow> (\<exists>ms. v = shift_value (FormatUint (startedTick sh)) (FormatUint (lastWorkTick sh)) (show_nat ms)
     \<and> lastWork sh = int ms * 10 ^ 6)"

definition same_shifts :: "redis_hash \<Rightarrow> shiftSet \<Rightarrow> bool" where
  "same_shifts h s \<longleftrightarrow> (\<exists>mx. redis_ok mx h) \<and>
     (\<forall>pip. rel_option agree (map_of h (FormatUint pip)) (fmlookup (shifts s) pip))"

lemma same_shifts_dom: "same_shifts h s \<Longrightarrow> fmdom (shifts s) = redis_held h"
proof (rule fset_eqI)
  fix pip assume same: "same_shifts h s"
  then obtain mx where ok: "redis_ok mx h" by (auto simp: same_shifts_def)
  have "pip |\<in>| fmdom (shifts s) \<longleftrightarrow> map_of h (FormatUint pip) \<noteq> None"
    using same by (auto simp: same_shifts_def fmlookup_dom_iff option_rel_Some1 option_rel_Some2 dest!: spec [of _ pip])
  then show "pip |\<in>| fmdom (shifts s) \<longleftrightarrow> pip |\<in>| redis_held h"
    by (simp add: redis_held_iff [OF ok] map_of_eq_None_iff)
qed

lemma same_shifts_count: "same_shifts h s \<Longrightarrow> shiftSet_count s = int (length h)"
  using same_shifts_dom redis_held_card by (fastforce simp: shiftSet_count_def same_shifts_def)

lemma agree_expired:
  assumes "agree v sh" "0 \<le> ls" "ls * 10 ^ 6 < 2 ^ 63 - 1"
  shows "shift_expired (ls * 10 ^ 6) (int now * 10 ^ 6) sh \<longleftrightarrow> entry_expired ls (int now) v"
proof -
  obtain ms where ms: "v = shift_value (FormatUint (startedTick sh)) (FormatUint (lastWorkTick sh)) (show_nat ms)"
    "lastWork sh = int ms * 10 ^ 6" using assms(1) by (auto simp: agree_def)
  have "entry_expired ls (int now) v \<longleftrightarrow> ls < int now - int ms" by (simp add: entry_expired_def ms(1))
  moreover have "shift_expired (ls * 10 ^ 6) (int now * 10 ^ 6) sh \<longleftrightarrow> ls * 10 ^ 6 < int now * 10 ^ 6 - int ms * 10 ^ 6"
    using assms(2,3) by (auto simp: shift_expired_def time_sub_def ms(2))
  moreover have "ls * 10 ^ 6 < int now * 10 ^ 6 - int ms * 10 ^ 6 \<longleftrightarrow> ls < int now - int ms" by auto
  ultimately show ?thesis by (simp only:)
qed

lemma map_of_filter_snd:
  "distinct (map fst h) \<Longrightarrow> map_of (filter (\<lambda>fv. Q (snd fv)) h) k =
    (case map_of h k of None \<Rightarrow> None | Some v \<Rightarrow> if Q v then Some v else None)"
proof (induction h)
  case (Cons fv h)
  have "k \<notin> fst ` set h \<Longrightarrow> map_of (filter (\<lambda>fv. Q (snd fv)) h) k = None" by (auto simp: map_of_eq_None_iff)
  with Cons show ?case by (cases fv) (auto split: option.splits)
qed simp

lemma same_shifts_live:
  assumes same: "same_shifts h s" and ls: "s_lease s = ls * 10 ^ 6" "0 \<le> ls" "ls * 10 ^ 6 < 2 ^ 63 - 1"
    and c: "\<And>p. reap_at c p = int now * 10 ^ 6"
  shows "same_shifts (redis_live ls (int now) h) (reap c s)"
proof -
  obtain mx where ok: "redis_ok mx h" using same by (auto simp: same_shifts_def)
  have "rel_option agree (map_of (redis_live ls (int now) h) (FormatUint pip)) (fmlookup (shifts (reap c s)) pip)" for pip
  proof -
    have rel: "rel_option agree (map_of h (FormatUint pip)) (fmlookup (shifts s) pip)" using same by (simp add: same_shifts_def)
    show ?thesis
      using rel ok agree_expired [OF _ ls(2,3), of _ _ now]
      by (cases rule: option.rel_cases)
         (auto simp: redis_live_def map_of_filter_snd [where Q = "\<lambda>v. \<not> entry_expired ls (int now) v"] redis_ok_def reap_lookup ls(1) c)
  qed
  moreover have "redis_ok mx (redis_live ls (int now) h)" unfolding redis_live_def by (rule redis_ok_filter [OF ok])
  ultimately show ?thesis by (auto simp: same_shifts_def)
qed

lemma same_shifts_update:
  assumes "same_shifts h s" "lastWork sh = int ms * 10 ^ 6"
  shows "same_shifts (AList.update (FormatUint pip) (shift_value (FormatUint (startedTick sh)) (FormatUint (lastWorkTick sh)) (show_nat ms)) h)
    (s\<lparr>shifts := fmupd pip sh (shifts s)\<rparr>)"
proof -
  let ?v = "shift_value (FormatUint (startedTick sh)) (FormatUint (lastWorkTick sh)) (show_nat ms)"
  obtain mx where "redis_ok mx h" using assms(1) by (auto simp: same_shifts_def)
  then have "redis_ok (Suc (max mx (length h))) h" by (auto simp: redis_ok_def)
  then have "redis_ok (Suc (max mx (length h))) (AList.update (FormatUint pip) ?v h)" by (rule redis_ok_update) (auto simp: less_Suc_eq_le)
  moreover have "agree ?v sh" using assms(2) by (auto simp: agree_def)
  ultimately show ?thesis using assms(1) by (auto simp: same_shifts_def update_conv')
qed

lemma claim_loop_found:
  "claim_loop pip now lease es h n = Inl h' \<Longrightarrow> \<exists>v. (pip, v) \<in> set es \<and> \<not> entry_expired lease now v"
  by (induction pip now lease es h n rule: claim_loop.induct) (auto split: if_splits)

lemma claimScript_refuses:
  assumes ok: "redis_ok mx h" and perm: "mset (order h) = mset h"
  shows "fst (claimScript order pip tick now lease m h) = (False, ''already on shift here'') \<longleftrightarrow>
    pip \<in> set (map fst (redis_live lease (int now) h))"
proof -
  have same: "set (order h) = set h" using perm by (rule mset_eq_setD)
  show ?thesis
  proof (cases "claim_loop pip (int now) lease (order h) h 0")
    case (Inl h')
    then show ?thesis using claim_loop_found [OF Inl] same by (auto simp: claimScript_def redis_live_def image_iff)
  next
    case (Inr r)
    obtain k h' where r: "r = (k, h')" by (cases r)
    have "pip \<notin> set (map fst (redis_live lease (int now) h))"
      using claim_loop_inr [OF Inr [unfolded r]] by (auto simp: same redis_live_def)
    then show ?thesis using Inr r by (simp add: claimScript_def)
  qed
qed

text \<open>The two stores were built with the same constants, and read the same clock.\<close>

definition twins :: "redisStore \<Rightarrow> shiftSet \<Rightarrow> bool" where
  "twins r s \<longleftrightarrow> s_max s = rs_max r \<and> s_lease s = rs_lease r \<and> uint (s_maxGap s) = rs_maxGap r \<and>
     rs_maxGap r < 2 ^ 31 \<and> 0 \<le> rs_lease r \<and> rs_lease r < 2 ^ 63 - 1 \<and> rs_lease r mod 10 ^ 6 = 0"

definition same_time :: "redis_env \<Rightarrow> clock \<Rightarrow> bool" where
  "same_time e c \<longleftrightarrow> (\<forall>p. reap_at c p = int (now_ms e) * 10 ^ 6) \<and> now_at c = int (now_ms e) * 10 ^ 6"

definition all_answered :: "redis_env \<Rightarrow> redis_hash \<Rightarrow> bool" where
  "all_answered e h \<longleftrightarrow> first_cmd e = Answered \<and> second_cmd e = Answered \<and> mset (hgetall e h) = mset h"

lemma same_shifts_in: "same_shifts h s \<Longrightarrow> FormatUint pip \<in> set (map fst h) \<longleftrightarrow> pip |\<in>| fmdom (shifts s)"
proof -
  assume same: "same_shifts h s"
  then obtain mx where ok: "redis_ok mx h" by (auto simp: same_shifts_def)
  then show ?thesis by (simp only: redis_held_iff [OF ok, symmetric] same_shifts_dom [OF same])
qed

lemma redis_claims:
  assumes same: "same_shifts h s" and tw: "twins r s" and t: "same_time e c" and up: "all_answered e h"
  shows "fst (redisStore_Claim r e h pip tick) = Inr (fst (shiftSet_claim c pip tick s))"
    and "fst (shiftSet_claim c pip tick s) \<noteq> (False, ''already on shift here'') \<Longrightarrow>
      same_shifts (snd (redisStore_Claim r e h pip tick)) (snd (shiftSet_claim c pip tick s))"
proof -
  obtain mx where ok: "redis_ok mx h" using same by (auto simp: same_shifts_def)
  let ?ls = "rs_lease r div 10 ^ 6" and ?now = "now_ms e"
  let ?live = "redis_live ?ls (int ?now) h" and ?s = "reap c s"
  let ?run = "claimScript (hgetall e) (FormatUint pip) (FormatUint tick) ?now ?ls (rs_max r) h"
  have perm: "mset (hgetall e h) = mset h" using up by (simp add: all_answered_def)
  have ls: "s_lease s = ?ls * 10 ^ 6" "0 \<le> ?ls" "?ls * 10 ^ 6 < 2 ^ 63 - 1" using tw by (auto simp: twins_def)
  have lookups: "same_shifts ?live ?s"
    by (rule same_shifts_live [OF same ls]) (use t in \<open>simp add: same_time_def\<close>)
  note dom = same_shifts_in [OF lookups, of pip]
  note count = same_shifts_count [OF lookups]
  have call: "redisStore_Claim r e h pip tick = map_prod Inr id ?run"
    using up by (cases ?run) (simp add: redisStore_Claim_def run_cmd_def all_answered_def)
  note refuses = claimScript_refuses [OF ok, of "hgetall e" "FormatUint pip" "FormatUint tick" ?now ?ls "rs_max r", OF perm]
  have mx: "s_max s = rs_max r" using tw by (simp add: twins_def)
  have "fst ?run = fst (shiftSet_claim c pip tick s) \<and>
    (fst (shiftSet_claim c pip tick s) \<noteq> (False, ''already on shift here'') \<longrightarrow>
      same_shifts (snd ?run) (snd (shiftSet_claim c pip tick s)))"
  proof (cases rule: shiftSet_claim_cases [of pip c s tick])
    case already
    then show ?thesis using refuses dom by simp
  next
    case full
    then have "fst ?run \<noteq> (False, ''already on shift here'')" using refuses dom by simp
    then show ?thesis
      by (cases rule: claimScript_cases [OF ok, of "hgetall e" "FormatUint pip" "FormatUint tick" ?now ?ls "rs_max r", OF perm])
        (use full count mx lookups in auto)
  next
    case taken
    then have no: "fst ?run \<noteq> (False, ''already on shift here'')" using refuses dom by simp
    have upd: "same_shifts (AList.update (FormatUint pip)
          (shift_value (FormatUint tick) (FormatUint tick) (show_nat ?now)) ?live)
        (?s\<lparr>shifts := fmupd pip \<lparr>startedTick = tick, lastWorkTick = tick, lastWork = now_at c\<rparr> (shifts ?s)\<rparr>)"
      using same_shifts_update [OF lookups, of "\<lparr>startedTick = tick, lastWorkTick = tick, lastWork = now_at c\<rparr>" ?now pip] t
      by (simp add: same_time_def)
    show ?thesis
      by (cases rule: claimScript_cases [OF ok, of "hgetall e" "FormatUint pip" "FormatUint tick" ?now ?ls "rs_max r", OF perm])
        (use taken no count mx upd in auto)
  qed
  then show "fst (redisStore_Claim r e h pip tick) = Inr (fst (shiftSet_claim c pip tick s))"
    "fst (shiftSet_claim c pip tick s) \<noteq> (False, ''already on shift here'') \<Longrightarrow>
      same_shifts (snd (redisStore_Claim r e h pip tick)) (snd (shiftSet_claim c pip tick s))"
    by (simp_all add: call)
qed

lemma same_shifts_lookup:
  assumes "same_shifts h s"
  obtains (absent) "map_of h (FormatUint pip) = None" "fmlookup (shifts s) pip = None"
  | (present) sh ms where "fmlookup (shifts s) pip = Some sh" "lastWork sh = int ms * 10 ^ 6"
      "map_of h (FormatUint pip) = Some (shift_value (FormatUint (startedTick sh)) (FormatUint (lastWorkTick sh)) (show_nat ms))"
proof -
  have "rel_option agree (map_of h (FormatUint pip)) (fmlookup (shifts s) pip)" using assms by (simp add: same_shifts_def)
  then show ?thesis by (cases rule: option.rel_cases) (auto simp: agree_def intro: absent present)
qed

lemma elapsed_agrees:
  assumes "uint gap < 2 ^ 31"
  shows "(let d = uint tick - uint prev; d' = if d < 0 then 0 else d in of_int (if uint gap < d' then uint gap else d')) =
    elapsed_ticks gap prev tick"
proof (cases "prev < tick")
  case True
  then have le: "uint (tick - prev) = uint tick - uint prev" by (simp only: uint_minus_simple_alt [symmetric] less_imp_le)
  have lt: "uint prev < uint tick" using True by (simp add: word_less_def)
  have "elapsed_ticks gap prev tick = of_int (uint (min (tick - prev) gap))"
    using True by (simp only: elapsed_ticks_def if_True ucast_eq)
  moreover have "uint (min (tick - prev) gap) = min (uint tick - uint prev) (uint gap)"
    by (simp add: min_def word_le_def le)
  moreover have "(let d = uint tick - uint prev; d' = if d < 0 then 0 else d in if uint gap < d' then uint gap else d') =
      min (uint tick - uint prev) (uint gap)"
    using lt by (simp add: Let_def)
  ultimately show ?thesis by (simp only: Let_def)
next
  case False
  then have "elapsed_ticks gap prev tick = 0" "\<not> uint prev < uint tick"
    by (simp_all add: elapsed_ticks_def word_less_def)
  then show ?thesis using uint_ge_0 [of gap] by (simp add: Let_def not_less)
qed

lemma redis_touches:
  assumes same: "same_shifts h s" and tw: "twins r s" and t: "same_time e c" and up: "all_answered e h"
  shows "fst (redisStore_Touch r e h pip tick) = Inr (fst (shiftSet_touch c pip tick s))"
    and "same_shifts (snd (redisStore_Touch r e h pip tick)) (snd (shiftSet_touch c pip tick s))"
proof -
  have gap: "rs_maxGap r = uint (s_maxGap s)" "uint (s_maxGap s) < 2 ^ 31" using tw by (simp_all add: twins_def)
  have up': "first_cmd e = Answered" using up by (simp add: all_answered_def)
  have "fst (redisStore_Touch r e h pip tick) = Inr (fst (shiftSet_touch c pip tick s)) \<and>
    same_shifts (snd (redisStore_Touch r e h pip tick)) (snd (shiftSet_touch c pip tick s))"
  using same proof (cases rule: same_shifts_lookup [where pip = pip])
    case absent
    with same show ?thesis by (simp add: redisStore_Touch_def touchScript_def shiftSet_touch_def run_cmd_def up')
  next
    case (present sh ms)
    have upd: "same_shifts (AList.update (FormatUint pip) (shift_value (FormatUint (startedTick sh)) (FormatUint tick) (show_nat (now_ms e))) h)
        (s\<lparr>shifts := fmupd pip (sh\<lparr>lastWorkTick := tick, lastWork := now_at c\<rparr>) (shifts s)\<rparr>)"
      using same_shifts_update [OF same, of "sh\<lparr>lastWorkTick := tick, lastWork := now_at c\<rparr>" "now_ms e" pip] t
      by (simp add: same_time_def)
    show ?thesis
      using elapsed_agrees [OF gap(2), of tick "lastWorkTick sh"] present upd
      by (simp add: redisStore_Touch_def touchScript_def shiftSet_touch_def run_cmd_def up' Let_def gap(1))
  qed
  then show "fst (redisStore_Touch r e h pip tick) = Inr (fst (shiftSet_touch c pip tick s))"
    "same_shifts (snd (redisStore_Touch r e h pip tick)) (snd (shiftSet_touch c pip tick s))" by simp_all
qed

lemma same_shifts_delete:
  assumes "same_shifts h s"
  shows "same_shifts (AList.delete (FormatUint pip) h) (s\<lparr>shifts := fmdrop pip (shifts s)\<rparr>)"
proof -
  obtain mx where "redis_ok mx h" using assms by (auto simp: same_shifts_def)
  then have "redis_ok mx (AList.delete (FormatUint pip) h)" by (rule redis_delete)
  then show ?thesis using assms by (auto simp: same_shifts_def AList.delete_conv')
qed

lemma started_field [simp]:
  "hd (split_on CHR '':'' (shift_value (FormatUint a) b c)) = FormatUint a"
  by (simp add: shift_value_def split_on_append digits_no_colon)

lemma redis_releases:
  assumes same: "same_shifts h s" and up: "all_answered e h"
  shows "fst (redisStore_Release r e h pip tick) = Inr (fst (shiftSet_release pip s))"
    and "same_shifts (snd (redisStore_Release r e h pip tick)) (snd (shiftSet_release pip s))"
  using up same_shifts_delete [OF same, of pip] same
  by (cases rule: same_shifts_lookup [OF same, of pip];
      simp add: redisStore_Release_def shiftSet_release_def run_cmd_def all_answered_def)+


text \<open>A building with pip 7 on shift since tick 100, worked last at 5 ms; the farm's own constants.\<close>

definition one_shift :: shiftSet where
  "one_shift = (newShiftSet (int MaxWorkers) ShiftLease 40)\<lparr>shifts :=
     fmupd 7 \<lparr>startedTick = 100, lastWorkTick = 100, lastWork = 5000000\<rparr> fmempty\<rparr>"

definition clock_at :: "nat \<Rightarrow> clock" where
  "clock_at ms = \<lparr>reap_at = \<lambda>_. int ms * 10 ^ 6, now_at = int ms * 10 ^ 6\<rparr>"

definition redis_at :: "nat \<Rightarrow> redis_env" where
  "redis_at ms = \<lparr>now_ms = ms, hgetall = rev, first_cmd = Answered, second_cmd = Answered\<rparr>"

lemma one_shift_same:
  "same_shifts [(FormatUint 7, shift_value (FormatUint 100) (FormatUint 100) (show_nat 5))] one_shift"
proof -
  have "redis_ok 1 [(FormatUint 7, shift_value (FormatUint 100) (FormatUint 100) (show_nat 5))]"
    by (force simp: redis_ok_def)
  moreover have "agree (shift_value (FormatUint 100) (FormatUint 100) (show_nat 5))
      \<lparr>startedTick = 100, lastWorkTick = 100, lastWork = 5000000\<rparr>"
    by (auto simp: agree_def intro: exI [of _ 5])
  ultimately show ?thesis by (auto simp: same_shifts_def one_shift_def newShiftSet_def)
qed


text \<open>
  The exception. Pip 2 works, pip 1 was last seen 40 s ago, past the lease. Pip 2 claims again and is
  refused by both; the rule has reaped pip 1 and pays nothing for its next work, while the script, which
  met pip 2 first, returned before it reached pip 1, and pays pip 1 the maximal gap.
\<close>

definition two_shifts :: shiftSet where
  "two_shifts = (newShiftSet (int MaxWorkers) ShiftLease 40)\<lparr>shifts :=
     fmupd 1 \<lparr>startedTick = 100, lastWorkTick = 100, lastWork = 0\<rparr>
       (fmupd 2 \<lparr>startedTick = 100, lastWorkTick = 900, lastWork = 39000 * 10 ^ 6\<rparr> fmempty)\<rparr>"

definition two_fields :: redis_hash where
  "two_fields = [(FormatUint 1, shift_value (FormatUint 100) (FormatUint 100) (show_nat 0)),
     (FormatUint 2, shift_value (FormatUint 100) (FormatUint 900) (show_nat 39000))]"

lemma two_shifts_same: "same_shifts two_fields two_shifts"
proof -
  have "FormatUint 1 \<noteq> FormatUint 2" by simp
  moreover from this have "redis_ok 2 two_fields" by (fastforce simp: redis_ok_def two_fields_def)
  moreover have "agree (shift_value (FormatUint 100) (FormatUint 100) (show_nat 0))
      \<lparr>startedTick = 100, lastWorkTick = 100, lastWork = 0\<rparr>"
    "agree (shift_value (FormatUint 100) (FormatUint 900) (show_nat 39000))
      \<lparr>startedTick = 100, lastWorkTick = 900, lastWork = 39000 * 10 ^ 6\<rparr>"
    by (fastforce simp: agree_def)+
  ultimately show ?thesis by (auto simp: same_shifts_def two_shifts_def newShiftSet_def two_fields_def)
qed

lemma refused_claim_keeps_ghosts:
  "let r = FarmRedis 3; e = redis_at 40000; c = clock_at 40000;
       h' = snd (redisStore_Claim r e two_fields 2 1000); s' = snd (shiftSet_claim c 2 1000 two_shifts)
   in fst (redisStore_Touch r e h' 1 1000) = Inr (40, True) \<and> fst (shiftSet_touch c 1 1000 s') = (0, False)"
proof -
  have ne: "FormatUint 2 \<noteq> FormatUint 1" by simp
  have "snd (redisStore_Claim (FarmRedis 3) (redis_at 40000) two_fields 2 1000) = two_fields"
    by (simp add: redisStore_Claim_def run_cmd_def redis_at_def FarmRedis_def NewRedisStore_def claimScript_def
        two_fields_def entry_expired_def ShiftLease_def)
  moreover have "fst (redisStore_Touch (FarmRedis 3) (redis_at 40000) two_fields 1 1000) = Inr (40, True)"
    by (simp add: redisStore_Touch_def run_cmd_def redis_at_def FarmRedis_def NewRedisStore_def touchScript_def
        two_fields_def MaxTicksPerWork_def)
  moreover have "fmlookup (shifts (snd (shiftSet_claim (clock_at 40000) 2 1000 two_shifts))) 1 = None"
    by (simp add: shiftSet_claim_def reap_def two_shifts_def newShiftSet_def shift_expired_def time_sub_def clock_at_def
        ShiftLease_def)
  ultimately show ?thesis by (simp add: Let_def shiftSet_touch_def)
qed

section \<open>The hash stays well formed\<close>

text \<open>The hashes a building's store can leave, under any commands, clocks and failures.\<close>

inductive redis_run :: "u64 \<Rightarrow> redis_hash \<Rightarrow> bool" for wid where
  run_new: "redis_run wid []"
| run_claim: "redis_run wid h \<Longrightarrow> redis_legal e \<Longrightarrow> redisStore_Claim (FarmRedis wid) e h pip tick = (rc, h') \<Longrightarrow> redis_run wid h'"
| run_touch: "redis_run wid h \<Longrightarrow> redis_legal e \<Longrightarrow> redisStore_Touch (FarmRedis wid) e h pip tick = (rt, h') \<Longrightarrow> redis_run wid h'"
| run_release: "redis_run wid h \<Longrightarrow> redis_legal e \<Longrightarrow> redisStore_Release (FarmRedis wid) e h pip tick = (rr, h') \<Longrightarrow> redis_run wid h'"

lemma redis_run_ok: "redis_run wid h \<Longrightarrow> redis_ok MaxWorkers h"
proof (induction rule: redis_run.induct)
  case run_new
  then show ?case by (simp add: redis_ok_def)
next
  case (run_claim h e pip tick rc h')
  then show ?case using redis_shifts.claim_law [of h e wid pip tick rc h'] by (simp add: RedisStore_def)
next
  case (run_touch h e pip tick rt h')
  then show ?case using redis_shifts.touch_law [of h e wid pip tick rt h'] by (simp add: RedisStore_def)
next
  case (run_release h e pip tick rr h')
  then show ?case using redis_shifts.release_law [of h e wid pip tick rr h'] by (simp add: RedisStore_def)
qed

text \<open>
  C27: The scripts meet only what they wrote. Whatever claims, touches and releases a building's hash has seen,
  with whatever clocks and lost commands, each field is a pip id and each value three numbers with colons
  between them; so no \<^verbatim>\<open>tonumber\<close> in the scripts gives nil and no script fails, an answered touch is an
  answer, and a release that finds a shift reports the tick at which it began.
\<close>

theorem redis_scripts_never_fail:
  assumes "redis_run wid h"
  shows "(\<forall>(f, v) \<in> set h. \<exists>p a b n. f = FormatUint p \<and> v = shift_value (FormatUint a) (FormatUint b) (show_nat n) \<and> entry_ms v = Some (int n))
    \<and> (\<exists>x. touchScript (FormatUint pip) tick now gap h = Inr x)
    \<and> (first_cmd e = Answered \<longrightarrow> (\<exists>x. fst (redisStore_Touch (FarmRedis wid) e h pip tick) = Inr x))
    \<and> (first_cmd e = Answered \<and> second_cmd e = Answered \<and> FormatUint pip \<in> fst ` set h \<longrightarrow>
        (\<exists>st b n. map_of h (FormatUint pip) = Some (shift_value (FormatUint st) (FormatUint b) (show_nat n)) \<and>
          fst (redisStore_Release (FarmRedis wid) e h pip tick) = Inr (st, True)))"
proof -
  note ok = redis_run_ok [OF assms]
  have fields: "\<exists>p a b n. f = FormatUint p \<and> v = shift_value (FormatUint a) (FormatUint b) (show_nat n)" if "(f, v) \<in> set h" for f v
    using ok that unfolding redis_ok_def by fast
  have touch: "\<exists>x. touchScript (FormatUint pip) tick now gap h = Inr x" for now gap
  proof (cases "map_of h (FormatUint pip)")
    case (Some v)
    then obtain a b n where "v = shift_value (FormatUint a) (FormatUint b) (show_nat n)" using fields map_of_SomeD by metis
    with Some show ?thesis by (auto simp: touchScript_def Let_def)
  qed (auto simp: touchScript_def)
  have "\<exists>x. fst (redisStore_Touch (FarmRedis wid) e h pip tick) = Inr x" if "first_cmd e = Answered"
    using touch [of "now_ms e" "rs_maxGap (FarmRedis wid)"] that by (auto simp: redisStore_Touch_def run_cmd_def)
  moreover have "\<exists>st b n. map_of h (FormatUint pip) = Some (shift_value (FormatUint st) (FormatUint b) (show_nat n)) \<and>
      fst (redisStore_Release (FarmRedis wid) e h pip tick) = Inr (st, True)"
    if up: "first_cmd e = Answered" "second_cmd e = Answered" and dom: "FormatUint pip \<in> fst ` set h"
  proof -
    obtain v where v: "map_of h (FormatUint pip) = Some v" using dom map_of_eq_None_iff [of h "FormatUint pip"] by auto
    then obtain a b n where "v = shift_value (FormatUint a) (FormatUint b) (show_nat n)" using fields map_of_SomeD by metis
    with v up show ?thesis by (auto simp: redisStore_Release_def run_cmd_def)
  qed
  ultimately show ?thesis using fields touch by fastforce
qed

lemma redis_scripts_never_fail_witness:
  "\<exists>x. touchScript (FormatUint 7) 130 9 40 (snd (redisStore_Claim (FarmRedis 3) (redis_at 5) [] 7 100)) = Inr x"
proof -
  have "redis_legal (redis_at 5)" by (simp add: redis_legal_def redis_at_def)
  from run_claim [OF run_new [of 3] this, of 7 100] obtain rc h' where
    "redisStore_Claim (FarmRedis 3) (redis_at 5) [] 7 100 = (rc, h')" "redis_run 3 h'" by (metis surj_pair)
  then show ?thesis using redis_scripts_never_fail [of 3 h' 7 130 9 40] by simp
qed

end
