(* ===== verification/GatewayPeers.thy ===== *)
theory GatewayPeers
  imports BankApi FarmQueue
begin

text \<open>
  What the world-gateway talks to: sim-core, the workplaces, the bank and the broker. All of them are
  outside the gateway, so each is a parameter. A \<open>call\<close> is one thing the gateway does to its
  surroundings, a log is the list of the calls so far, and \<open>peers\<close> gives the answer to the last call
  of a log as a function of the whole log: any peers that answer by what was asked of them before, in
  any way, are an instance. The clock and Go's order of walking a map are answered in the same way.
\<close>

section \<open>Messages\<close>

record Vec2 =
  x_milli :: i32
  y_milli :: i32

text \<open>\<^verbatim>\<open>optional\<close> fields; the generated getter gives zero for an absent one.\<close>

record Pip =
  pip_id :: u64
  pip_employer :: "u64 option"
  pip_inside :: "u64 option"
  pip_balance :: i64

definition get_optional :: "u64 option \<Rightarrow> u64" where
  "get_optional v = (case v of None \<Rightarrow> 0 | Some x \<Rightarrow> x)"

abbreviation GetEmployerWorkplaceId :: "Pip \<Rightarrow> u64" where
  "GetEmployerWorkplaceId p \<equiv> get_optional (pip_employer p)"

abbreviation GetInsideWorkplaceId :: "Pip \<Rightarrow> u64" where
  "GetInsideWorkplaceId p \<equiv> get_optional (pip_inside p)"

record SimWorkplace =
  sw_id :: u64
  sw_kind :: string
  sw_position :: Vec2
  sw_capacity :: u32
  sw_occupants :: u32
  sw_sells :: "(i32 \<times> i64) list"

record SimStructure =
  ss_id :: u64
  ss_kind :: string
  ss_position :: Vec2
  ss_role :: string
  ss_healthy :: bool

record SnapshotResponse =
  snap_tick :: u64
  snap_pips :: "Pip list"
  snap_workplaces :: "SimWorkplace list"
  snap_structures :: "SimStructure list"

text \<open>The intents the gateway submits. A price list holds resource kinds by number.\<close>

datatype intent =
  Hire u64 u64
| ApplyNeeds u64 "(i32 \<times> i32) list"
| RegisterWorkplace u64 string Vec2 u32 "(i32 \<times> i64) list"
| EndEmployment u64
| TransferMoney string string i64 i32 TransferKind u64
| CreditBalances string "(u64 \<times> i64) list" u64
| RegisterStructure u64 string Vec2 string bool

fun resource_number :: "ResourceKind \<Rightarrow> i32" where
  "resource_number RESOURCE_KIND_UNSPECIFIED = 0"
| "resource_number RESOURCE_KIND_GRAIN = 1"
| "resource_number RESOURCE_KIND_FOOD = 2"
| "resource_number RESOURCE_KIND_TOOL = 3"
| "resource_number RESOURCE_KIND_ALE = 4"

section \<open>Calls and peers\<close>

text \<open>A workplace is addressed by the address of its service and the id in the request.\<close>

datatype call =
  ReadClock
| Snapshot
| SubmitIntent intent
| CallList string
| CallDescribe string u64
| CallWork string u64 u64 u64
| CallEndShift string u64 u64 u64 string
| CallBuy string u64 u64 ResourceKind u64
| CallBatchTransfer BatchTransferRequest
| CallTransfer TransferRequest
| CallGetBalance string
| Publish string string string string

type_synonym call_log = "call list"

record peers =
  clock_reads :: "call_log \<Rightarrow> int"
  sim_Snapshot :: "call_log \<Rightarrow> SnapshotResponse response"
  sim_SubmitIntent :: "call_log \<Rightarrow> (bool \<times> string) response"
  wp_List :: "call_log \<Rightarrow> DescribeResponse list response"
  wp_Describe :: "call_log \<Rightarrow> DescribeResponse response"
  wp_Work :: "call_log \<Rightarrow> WorkResponse response"
  wp_EndShift :: "call_log \<Rightarrow> unit response"
  wp_Buy :: "call_log \<Rightarrow> BuyResponse response"
  bank_BatchTransfer :: "call_log \<Rightarrow> Result response"
  bank_Transfer :: "call_log \<Rightarrow> Result response"
  bank_GetBalance :: "call_log \<Rightarrow> i64 response"
  amqp_Publish :: "call_log \<Rightarrow> go_error option"
  marshal_work_offer :: "WorkOffer \<Rightarrow> string fallible"
  map_order :: "call_log \<Rightarrow> u64 fset \<Rightarrow> u64 list"

text \<open>\<open>ask f c l\<close>: make the call \<open>c\<close>; the answer of \<open>f\<close> and the longer log.\<close>

definition ask :: "(call_log \<Rightarrow> 'a) \<Rightarrow> call \<Rightarrow> call_log \<Rightarrow> 'a \<times> call_log" where
  "ask f c l = (f (l @ [c]), l @ [c])"

text \<open>Go walks a map in some order of its keys.\<close>

definition walks_maps :: "peers \<Rightarrow> bool" where
  "walks_maps P \<longleftrightarrow> (\<forall>l ks. distinct (map_order P l ks) \<and> set (map_order P l ks) = fset ks)"

section \<open>The publisher\<close>

definition gw_exchange :: string where "gw_exchange = ''pipsim.work''"
definition gw_dlx :: string where "gw_dlx = ''pipsim.work.dlx''"
definition hiredQueue :: string where "hiredQueue = ''pipsim.work.hired''"
definition offerPrefix :: string where "offerPrefix = ''offer.''"
definition gw_hiredKey :: string where "gw_hiredKey = ''hired''"
definition workQueuePrefix :: string where "workQueuePrefix = ''pipsim.work.''"
definition maxOffersPerRound :: int where "maxOffersPerRound = 8"

definition Publisher_Offer ::
  "peers \<Rightarrow> string \<Rightarrow> u64 \<Rightarrow> u64 \<Rightarrow> string \<Rightarrow> call_log \<Rightarrow> go_error option \<times> call_log"
where
  "Publisher_Offer P kind pipID tick traceID l =
     (case marshal_work_offer P \<lparr>wo_PipId = pipID, wo_Tick = tick, wo_TraceId = traceID\<rparr> of
        Inl err \<Rightarrow> (Some err, l)
      | Inr body \<Rightarrow> ask (amqp_Publish P) (Publish gw_exchange (offerPrefix @ kind) body ''10000'') l)"

definition gateway_declarations :: "amqp_declare list" where
  "gateway_declarations =
     [ExchangeDeclare gw_exchange ''topic'',
      ExchangeDeclare gw_dlx ''fanout'',
      QueueDeclare hiredQueue [(''x-dead-letter-exchange'', gw_dlx)],
      QueueBind hiredQueue gw_hiredKey gw_exchange]"

definition gateway_declare where
  "gateway_declare refuses = declare_all refuses gateway_declarations"

text \<open>
  \<^verbatim>\<open>ConsumeOutcomes\<close>: the deliveries of one session, each decoded or not; \<open>onHired\<close> is a step on the
  caller's state. Nothing is consumed when a declaration or the subscription is refused.
\<close>

fun outcomes_loop ::
  "(u64 \<Rightarrow> u64 \<Rightarrow> 's \<Rightarrow> 's) \<Rightarrow> HireOutcome option list \<Rightarrow> 's \<Rightarrow> settle list \<times> 's"
where
  "outcomes_loop onHired [] s = ([], s)"
| "outcomes_loop onHired (None # ds) s =
     (let (ts, s') = outcomes_loop onHired ds s in (Rejected False # ts, s'))"
| "outcomes_loop onHired (Some outcome # ds) s =
     (let s1 = (if ho_Accepted outcome then onHired (ho_PipId outcome) (ho_WorkplaceId outcome) s else s);
          (ts, s') = outcomes_loop onHired ds s1
      in (Acked # ts, s'))"

text \<open>How a session ends: the context is done, or the broker closes the deliveries.\<close>

datatype outcomes_end = ContextDone go_error | DeliveriesClosed

record outcomes_session =
  gw_refuses :: "amqp_declare \<Rightarrow> go_error option"
  gw_consume :: "go_error option"
  gw_deliveries :: "HireOutcome option list"
  gw_end :: outcomes_end

definition ConsumeOutcomes ::
  "(u64 \<Rightarrow> u64 \<Rightarrow> 's \<Rightarrow> 's) \<Rightarrow> outcomes_session \<Rightarrow> 's \<Rightarrow> go_error option \<times> settle list \<times> 's"
where
  "ConsumeOutcomes onHired se s =
     (case gateway_declare (gw_refuses se) of
        (_, Some err) \<Rightarrow> (Some err, [], s)
      | (_, None) \<Rightarrow>
        (case gw_consume se of
           Some err \<Rightarrow> (Some err, [], s)
         | None \<Rightarrow> (case gw_end se of ContextDone err \<Rightarrow> Some err | DeliveriesClosed \<Rightarrow> None,
                    outcomes_loop onHired (gw_deliveries se) s)))"

text \<open>
  \<^verbatim>\<open>Dial\<close> opens a connection and two channels, and closes what it has opened when a later one fails;
  \<^verbatim>\<open>Close\<close> closes all three. What is opened and closed is recorded in order.
\<close>

datatype amqp_resource = Connection | WorkChannel | MetricsChannel
datatype amqp_use = Opened amqp_resource | Closed amqp_resource

record dial_answers =
  dial_error :: "go_error option"
  channel_error :: "go_error option"
  metrics_error :: "go_error option"

definition Dial :: "dial_answers \<Rightarrow> go_error option \<times> amqp_use list" where
  "Dial d =
     (case dial_error d of
        Some err \<Rightarrow> (Some err, [])
      | None \<Rightarrow>
        (case channel_error d of
           Some err \<Rightarrow> (Some err, [Opened Connection, Closed Connection])
         | None \<Rightarrow>
           (case metrics_error d of
              Some err \<Rightarrow> (Some err, [Opened Connection, Opened WorkChannel, Closed WorkChannel, Closed Connection])
            | None \<Rightarrow> (None, [Opened Connection, Opened WorkChannel, Opened MetricsChannel]))))"

definition Publisher_Close :: "amqp_use list" where
  "Publisher_Close = [Closed MetricsChannel, Closed WorkChannel, Closed Connection]"

text \<open>
  \<^verbatim>\<open>RunOutcomes\<close>: a session after each dial that succeeds, until the context is done; the argument lists
  the attempts made by then.
\<close>

fun RunOutcomes ::
  "(u64 \<Rightarrow> u64 \<Rightarrow> 's \<Rightarrow> 's) \<Rightarrow> (dial_answers \<times> outcomes_session) list \<Rightarrow> 's \<Rightarrow> amqp_use list \<times> settle list \<times> 's"
where
  "RunOutcomes onHired [] s = ([], [], s)"
| "RunOutcomes onHired ((d, se) # attempts) s =
     (case Dial d of
        (Some err, used) \<Rightarrow> (let (us, ts, s') = RunOutcomes onHired attempts s in (used @ us, ts, s'))
      | (None, used) \<Rightarrow>
        (let (r, ts, s1) = ConsumeOutcomes onHired se s;
             (us, ts', s') = RunOutcomes onHired attempts s1
         in (used @ Publisher_Close @ us, ts @ ts', s')))"

lemma Dial_cases:
  obtains (failed) err where "fst (Dial d) = Some err" "\<And>r. count_list (snd (Dial d)) (Opened r) = count_list (snd (Dial d)) (Closed r)"
  | (open_all) "Dial d = (None, [Opened Connection, Opened WorkChannel, Opened MetricsChannel])"
  by (cases "dial_error d"; cases "channel_error d"; cases "metrics_error d")
     (fastforce simp: Dial_def intro: failed open_all)+

text \<open>Whatever fails, every resource that was opened is closed once.\<close>

lemma RunOutcomes_closes:
  "count_list (fst (RunOutcomes onHired attempts s)) (Opened r) = count_list (fst (RunOutcomes onHired attempts s)) (Closed r)"
proof (induction attempts arbitrary: s)
  case (Cons a attempts)
  obtain d se where a: "a = (d, se)" by fastforce
  show ?case
  proof (cases d rule: Dial_cases)
    case (failed err)
    obtain used where used: "Dial d = (Some err, used)" using failed(1) by (metis prod.collapse)
    then have "count_list used (Opened r) = count_list used (Closed r)" using failed(2) [of r] by simp
    then show ?thesis using used Cons [of s] by (auto simp: a split: prod.split)
  next
    case open_all
    obtain e ts s1 where "ConsumeOutcomes onHired se s = (e, ts, s1)" by (metis prod_cases3)
    then show ?thesis
      using open_all Cons [of s1] by (cases r) (auto simp: a Publisher_Close_def split: prod.split)
  qed
qed simp

text \<open>
  \<^verbatim>\<open>QueueDepth\<close>: a failed passive inspect closes the channel, and a new one is opened if it can be.
  The state is whether the metrics channel is open.
\<close>

definition QueueDepth ::
  "(string \<Rightarrow> nat option) \<Rightarrow> bool \<Rightarrow> string \<Rightarrow> bool \<Rightarrow> int fallible \<times> bool"
where
  "QueueDepth depth_of reopens kind open_ch =
     (case (if open_ch then depth_of (workQueuePrefix @ kind) else None) of
        None \<Rightarrow> (Inl ''channel/connection is not open'', reopens)
      | Some n \<Rightarrow> (Inr (int n), True))"

end
