(* ===== verification/Driver.thy ===== *)
theory Driver
  imports GatewayPeers
begin

text \<open>
  The gateway's half of one building
  (\<^verbatim>\<open>services/world-gateway/internal/economy/driver.go\<close>). A driver is a record of its fields; its
  client is the address of the service it talks to. Each method is a function of the driver and the log
  of calls. The mutex makes each access of the maps atomic.
\<close>

section \<open>State\<close>

text \<open>Durations and times in nanoseconds.\<close>

definition hireGrace :: int where "hireGrace = 5 * 10 ^ 9"
definition offerPatience :: int where "offerPatience = 15 * 10 ^ 9"

record Driver =
  d_addr :: string
  d_positions :: "(u64, Vec2) fmap"
  d_id :: u64
  d_kind :: string
  d_employed :: "u64 fset"
  d_hiredAt :: "(u64, int) fmap"
  d_pending :: "(u64, int) fmap"

definition NewDriver :: "string \<Rightarrow> (u64, Vec2) fmap \<Rightarrow> Driver" where
  "NewDriver addr positions =
     \<lparr>d_addr = addr, d_positions = positions, d_id = 0, d_kind = [],
      d_employed = {||}, d_hiredAt = fmempty, d_pending = fmempty\<rparr>"

definition NewDriverFor :: "string \<Rightarrow> (u64, Vec2) fmap \<Rightarrow> u64 \<Rightarrow> string \<Rightarrow> Driver" where
  "NewDriverFor addr positions workplaceID kind = (NewDriver addr positions)\<lparr>d_id := workplaceID, d_kind := kind\<rparr>"

section \<open>Discovery and registration\<close>

definition Discover ::
  "peers \<Rightarrow> string \<Rightarrow> (u64, Vec2) fmap \<Rightarrow> call_log \<Rightarrow> Driver list response \<times> call_log"
where
  "Discover P addr positions l =
     (let (answer, l1) = ask (wp_List P) (CallList addr) l in
      (case answer of
         Inr ws \<Rightarrow>
           (let out = map (\<lambda>w. NewDriverFor addr positions (dr_WorkplaceId w) (dr_Kind w)) ws in
            if out = [] then Inl (CodeOther, addr @ '' hosts no buildings'') else Inr out)
       | Inl (code, err) \<Rightarrow>
           if code = CodeUnimplemented then Inr [NewDriver addr positions] else Inl (code, err),
       l1))"

definition Driver_Describe :: "peers \<Rightarrow> Driver \<Rightarrow> call_log \<Rightarrow> DescribeResponse response \<times> call_log" where
  "Driver_Describe P d l = ask (wp_Describe P) (CallDescribe (d_addr d) (d_id d)) l"

definition offers :: "Offer list \<Rightarrow> (i32 \<times> i64) list" where
  "offers sells = map (\<lambda>ofr. (resource_number (of_Kind ofr), of_Price ofr)) sells"

definition Driver_Register :: "peers \<Rightarrow> Driver \<Rightarrow> call_log \<Rightarrow> unit response \<times> Driver \<times> call_log" where
  "Driver_Register P d l =
     (case Driver_Describe P d l of
        (Inl err, l1) \<Rightarrow> (Inl err, d, l1)
      | (Inr desc, l1) \<Rightarrow>
        (case fmlookup (d_positions d) (dr_WorkplaceId desc) of
           None \<Rightarrow> (Inl (CodeOther, ''no configured position for workplace '' @ FormatUint (dr_WorkplaceId desc)), d, l1)
         | Some position \<Rightarrow>
           (case ask (sim_SubmitIntent P) (SubmitIntent (RegisterWorkplace (dr_WorkplaceId desc) (dr_Kind desc)
                   position (ucast (dr_MaxWorkers desc)) (offers (dr_Sells desc)))) l1 of
              (Inl err, l2) \<Rightarrow> (Inl err, d, l2)
            | (Inr _, l2) \<Rightarrow> (Inr (), d\<lparr>d_id := dr_WorkplaceId desc, d_kind := dr_Kind desc\<rparr>, l2))))"

text \<open>\<^verbatim>\<open>KeepRegistered\<close>, for as many rounds as it gets: the failures since the last success, and the state.\<close>

fun Driver_KeepRegistered :: "peers \<Rightarrow> nat \<Rightarrow> nat \<Rightarrow> Driver \<Rightarrow> call_log \<Rightarrow> nat \<times> Driver \<times> call_log" where
  "Driver_KeepRegistered P 0 failures d l = (failures, d, l)"
| "Driver_KeepRegistered P (Suc rounds) failures d l =
     (let (r, d1, l1) = Driver_Register P d l in
      Driver_KeepRegistered P rounds (case r of Inl _ \<Rightarrow> Suc failures | Inr _ \<Rightarrow> 0) d1 l1)"

section \<open>Employment\<close>

definition Driver_OnHired :: "peers \<Rightarrow> Driver \<Rightarrow> u64 \<Rightarrow> call_log \<Rightarrow> Driver \<times> call_log" where
  "Driver_OnHired P d pip l =
     (case ask (sim_SubmitIntent P) (SubmitIntent (Hire pip (d_id d))) l of
        (Inl err, l1) \<Rightarrow> (d, l1)
      | (Inr _, l1) \<Rightarrow>
        (let (now, l2) = ask (clock_reads P) ReadClock l1 in
         (d\<lparr>d_employed := finsert pip (d_employed d), d_hiredAt := fmupd pip now (d_hiredAt d),
            d_pending := fmdrop pip (d_pending d)\<rparr>, l2)))"

text \<open>The first loop of \<^verbatim>\<open>syncEmployment\<close>, over the pips of \<^verbatim>\<open>hiredAt\<close> in the map's order.\<close>

fun grace_loop ::
  "peers \<Rightarrow> u64 list \<Rightarrow> (u64, int) fmap \<Rightarrow> u64 fset \<Rightarrow> call_log \<Rightarrow> (u64, int) fmap \<times> u64 fset \<times> call_log"
where
  "grace_loop P [] hired employed l = (hired, employed, l)"
| "grace_loop P (pip # ps) hired employed l =
     (case fmlookup hired pip of
        None \<Rightarrow> grace_loop P ps hired employed l
      | Some at \<Rightarrow>
        (let (now, l1) = ask (clock_reads P) ReadClock l in
         if hireGrace < time_sub now at then grace_loop P ps (fmdrop pip hired) employed l1
         else grace_loop P ps hired (finsert pip employed) l1))"

definition syncEmployment ::
  "peers \<Rightarrow> Driver \<Rightarrow> u64 fset \<Rightarrow> call_log \<Rightarrow> u64 list \<times> Driver \<times> call_log"
where
  "syncEmployment P d employed l =
     (let (hired, employed1, l1) = grace_loop P (map_order P l (fmdom (d_hiredAt d))) (d_hiredAt d) employed l;
          gone = filter (\<lambda>pip. pip |\<notin>| employed1) (map_order P l1 (d_employed d))
      in (gone, d\<lparr>d_hiredAt := hired, d_employed := employed1\<rparr>, l1))"

section \<open>Offering\<close>

definition Driver_offer :: "peers \<Rightarrow> Driver \<Rightarrow> u64 \<Rightarrow> u64 \<Rightarrow> call_log \<Rightarrow> bool \<times> Driver \<times> call_log" where
  "Driver_offer P d pip tick l =
     (if d_kind d = [] then (False, d, l)
      else
        (let (waiting, l1) =
               (case fmlookup (d_pending d) pip of
                  None \<Rightarrow> (False, l)
                | Some at \<Rightarrow> (let (now, l') = ask (clock_reads P) ReadClock l in (time_sub now at < offerPatience, l')))
         in if waiting then (False, d, l1)
            else
              (let (now, l2) = ask (clock_reads P) ReadClock l1;
                   d1 = d\<lparr>d_pending := fmupd pip now (d_pending d)\<rparr>
               in case Publisher_Offer P (d_kind d) pip tick [] l2 of
                    (Some err, l3) \<Rightarrow> (False, d1\<lparr>d_pending := fmdrop pip (d_pending d1)\<rparr>, l3)
                  | (None, l3) \<Rightarrow> (True, d1, l3))))"

section \<open>Working\<close>

definition Driver_endShift :: "peers \<Rightarrow> Driver \<Rightarrow> u64 \<Rightarrow> u64 \<Rightarrow> string \<Rightarrow> call_log \<Rightarrow> Driver \<times> call_log" where
  "Driver_endShift P d pip tick reason l =
     (let (_, l1) = ask (wp_EndShift P) (CallEndShift (d_addr d) (d_id d) pip tick reason) l;
          (_, l2) = ask (sim_SubmitIntent P) (SubmitIntent (EndEmployment pip)) l1
      in (d\<lparr>d_employed := d_employed d |-| {|pip|}, d_pending := fmdrop pip (d_pending d)\<rparr>, l2))"

definition Driver_work ::
  "peers \<Rightarrow> Driver \<Rightarrow> u64 \<Rightarrow> u64 \<Rightarrow> bool \<Rightarrow> call_log \<Rightarrow> (bool \<times> i64) \<times> Driver \<times> call_log"
where
  "Driver_work P d pip tick inside l =
     (case ask (wp_Work P) (CallWork (d_addr d) (d_id d) pip tick) l of
        (Inl err, l1) \<Rightarrow> ((False, 0), d, l1)
      | (Inr res, l1) \<Rightarrow>
        if wr_ShiftShouldEnd res then
          (let (d1, l2) = Driver_endShift P d pip tick ''workplace ended the shift'' l1 in ((False, 0), d1, l2))
        else if \<not> inside then ((True, 0), d, l1)
        else if wr_NeedDeltas res \<noteq> [] then
          (case ask (sim_SubmitIntent P) (SubmitIntent (ApplyNeeds pip (wr_NeedDeltas res))) l1 of
             (Inl err, l2) \<Rightarrow> ((False, 0), d, l2)
           | (Inr _, l2) \<Rightarrow> ((True, wr_Wage res), d, l2))
        else ((True, wr_Wage res), d, l1))"

end
