(* ===== verification/Fleet.thy ===== *)
theory Fleet
  imports Driver "HOL-Library.Signed_Division"
begin

text \<open>
  The economy loop over every building
  (\<^verbatim>\<open>services/world-gateway/internal/economy/economy.go\<close>, \<^verbatim>\<open>payroll.go\<close>): one cycle over one snapshot,
  payroll, purchases and endowment. A \<open>Fleet\<close> is its drivers, in order, whether it has a bank, and the
  rotation counter (an \<^verbatim>\<open>int\<close> that counts cycles, one per second). Drivers are named by their index.
  The counts a cycle writes to the log are left out.
\<close>

record Fleet =
  f_bank :: bool
  f_drivers :: "Driver list"
  f_next :: nat

definition NewFleet :: "bool \<Rightarrow> Driver list \<Rightarrow> Fleet" where
  "NewFleet has_bank ds = \<lparr>f_bank = has_bank, f_drivers = ds, f_next = 0\<rparr>"

definition set_driver :: "nat \<Rightarrow> Driver \<Rightarrow> Fleet \<Rightarrow> Fleet" where
  "set_driver k d f = f\<lparr>f_drivers := (f_drivers f)[k := d]\<rparr>"

text \<open>The first driver with an id, as the linear searches of \<^verbatim>\<open>OnHired\<close> and \<^verbatim>\<open>Buy\<close> find it.\<close>

definition find_driver :: "u64 \<Rightarrow> Fleet \<Rightarrow> nat option" where
  "find_driver wid f = List.find (\<lambda>k. d_id (f_drivers f ! k) = wid) [0..<length (f_drivers f)]"

definition Fleet_OnHired :: "peers \<Rightarrow> u64 \<Rightarrow> u64 \<Rightarrow> Fleet \<times> call_log \<Rightarrow> Fleet \<times> call_log" where
  "Fleet_OnHired P pipID workplaceID st =
     (let (f, l) = st in
      case find_driver workplaceID f of
        None \<Rightarrow> (f, l)
      | Some k \<Rightarrow> (let (d, l1) = Driver_OnHired P (f_drivers f ! k) pipID l in (set_driver k d f, l1)))"

fun describe_drivers :: "peers \<Rightarrow> Driver list \<Rightarrow> call_log \<Rightarrow> DescribeResponse list \<times> call_log" where
  "describe_drivers P [] l = ([], l)"
| "describe_drivers P (d # ds) l =
     (let (r, l1) = Driver_Describe P d l; (out, l2) = describe_drivers P ds l1
      in (case r of Inl _ \<Rightarrow> out | Inr desc \<Rightarrow> desc # out, l2))"

definition Fleet_Describe where
  "Fleet_Describe P f l = describe_drivers P (f_drivers f) l"

section \<open>Payroll\<close>

definition workplaceAccount :: "u64 \<Rightarrow> string" where
  "workplaceAccount i = ''workplace:'' @ FormatUint i"

definition pipAccount :: "u64 \<Rightarrow> string" where
  "pipAccount i = ''pip:'' @ FormatUint i"

text \<open>The credits of one building, in the order the map is walked, without those that pay nothing.\<close>

definition pay_list :: "u64 list \<Rightarrow> (u64, i64) fmap \<Rightarrow> (u64 \<times> i64) list" where
  "pay_list order credits = filter (\<lambda>(pip, amount). 0 <s amount) (map (\<lambda>pip. (pip, getz credits pip)) order)"

definition Fleet_payWages :: "peers \<Rightarrow> Fleet \<Rightarrow> u64 \<Rightarrow> u64 \<Rightarrow> (u64, i64) fmap \<Rightarrow> call_log \<Rightarrow> call_log" where
  "Fleet_payWages P f workplaceID tick credits l =
     (if \<not> f_bank f \<or> credits = fmempty then l
      else
        (let pays = pay_list (map_order P l (fmdom credits)) credits in
         if pays = [] then l
         else
           (let (res, l1) = ask (bank_BatchTransfer P) (CallBatchTransfer
                 \<lparr>bq_Payer = workplaceAccount workplaceID,
                  bq_Credits = map (\<lambda>(pip, amount). \<lparr>cr_Payee = pipAccount pip, cr_Amount = amount\<rparr>) pays,
                  bq_Kind = TRANSFER_KIND_WAGE, bq_Tick = tick\<rparr>) l
            in case res of
                 Inl err \<Rightarrow> l1
               | Inr r \<Rightarrow>
                 if \<not> OK r then l1
                 else snd (ask (sim_SubmitIntent P)
                   (SubmitIntent (CreditBalances (workplaceAccount workplaceID) pays tick)) l1))))"

fun pay_all :: "peers \<Rightarrow> Fleet \<Rightarrow> u64 list \<Rightarrow> u64 \<Rightarrow> (u64, (u64, i64) fmap) fmap \<Rightarrow> call_log \<Rightarrow> call_log" where
  "pay_all P f [] tick credits l = l"
| "pay_all P f (w # ws) tick credits l =
     pay_all P f ws tick credits
       (Fleet_payWages P f w tick (case fmlookup credits w of None \<Rightarrow> fmempty | Some c \<Rightarrow> c) l)"

section \<open>The cycle\<close>

text \<open>Drivers that have introduced themselves, by index; the last one with an id is the one for that id.\<close>

definition live_drivers :: "Fleet \<Rightarrow> nat list" where
  "live_drivers f = filter (\<lambda>k. d_id (f_drivers f ! k) \<noteq> 0) [0..<length (f_drivers f)]"

definition by_id :: "Fleet \<Rightarrow> (u64, nat) fmap" where
  "by_id f = fold (\<lambda>k m. fmupd (d_id (f_drivers f ! k)) k m) (live_drivers f) fmempty"

text \<open>\<^verbatim>\<open>employedBy\<close>: the pips sim-core says a building employs.\<close>

definition employed_by :: "Pip list \<Rightarrow> u64 \<Rightarrow> u64 fset" where
  "employed_by pips w = fset_of_list (map pip_id (filter (\<lambda>p. GetEmployerWorkplaceId p = w) pips))"

fun end_shifts :: "peers \<Rightarrow> nat \<Rightarrow> u64 \<Rightarrow> u64 list \<Rightarrow> Fleet \<times> call_log \<Rightarrow> Fleet \<times> call_log" where
  "end_shifts P k tick [] st = st"
| "end_shifts P k tick (pip # ps) (f, l) =
     (let (d, l1) = Driver_endShift P (f_drivers f ! k) pip tick ''no longer employed here'' l
      in end_shifts P k tick ps (set_driver k d f, l1))"

fun sync_all :: "peers \<Rightarrow> Pip list \<Rightarrow> u64 \<Rightarrow> nat list \<Rightarrow> Fleet \<times> call_log \<Rightarrow> Fleet \<times> call_log" where
  "sync_all P pips tick [] st = st"
| "sync_all P pips tick (k # ks) (f, l) =
     (let (gone, d, l1) = syncEmployment P (f_drivers f ! k) (employed_by pips (d_id (f_drivers f ! k))) l
      in sync_all P pips tick ks (end_shifts P k tick gone (set_driver k d f, l1)))"

text \<open>What the loop over the pips keeps: the fleet, the offers left and the wages owed per building, the log.\<close>

record round_state =
  r_fleet :: Fleet
  r_left :: "(u64, int) fmap"
  r_credits :: "(u64, (u64, i64) fmap) fmap"
  r_log :: call_log

text \<open>An unemployed pip: the buildings in rotation, until an offer is published.\<close>

fun offer_pip :: "peers \<Rightarrow> u64 \<Rightarrow> u64 \<Rightarrow> nat list \<Rightarrow> round_state \<Rightarrow> round_state" where
  "offer_pip P pip tick [] r = r"
| "offer_pip P pip tick (k # ks) r =
     (let d = f_drivers (r_fleet r) ! k in
      if getz (r_left r) (d_id d) \<le> 0 then offer_pip P pip tick ks r
      else
        (let (sent, d1, l1) = Driver_offer P d pip tick (r_log r);
             r1 = r\<lparr>r_fleet := set_driver k d1 (r_fleet r), r_log := l1\<rparr>
         in if sent then r1\<lparr>r_left := subz (r_left r) (d_id d) 1\<rparr> else offer_pip P pip tick ks r1))"

text \<open>An employed pip: its shift is worked, and the wage is owed only when it is inside.\<close>

definition work_pip :: "peers \<Rightarrow> u64 \<Rightarrow> Pip \<Rightarrow> nat \<Rightarrow> round_state \<Rightarrow> round_state" where
  "work_pip P tick p k r =
     (let d = f_drivers (r_fleet r) ! k;
          inside = (GetInsideWorkplaceId p = d_id d);
          ((ok, wage), d1, l1) = Driver_work P d (pip_id p) tick inside (r_log r);
          r1 = r\<lparr>r_fleet := set_driver k d1 (r_fleet r), r_log := l1\<rparr>
      in if ok \<and> inside \<and> 0 <s wage
         then r1\<lparr>r_credits := fmupd (d_id d)
                (fmupd (pip_id p) wage (case fmlookup (r_credits r) (d_id d) of None \<Rightarrow> fmempty | Some c \<Rightarrow> c)) (r_credits r)\<rparr>
         else r1)"

fun cycle_pips :: "peers \<Rightarrow> u64 \<Rightarrow> (u64, nat) fmap \<Rightarrow> nat list \<Rightarrow> Pip list \<Rightarrow> round_state \<Rightarrow> round_state" where
  "cycle_pips P tick byID ring [] r = r"
| "cycle_pips P tick byID ring (p # ps) r =
     cycle_pips P tick byID ring ps
       (case fmlookup byID (GetEmployerWorkplaceId p) of
          Some k \<Rightarrow> work_pip P tick p k r
        | None \<Rightarrow> offer_pip P (pip_id p) tick ring r)"

definition rotation :: "nat \<Rightarrow> nat list \<Rightarrow> nat list" where
  "rotation start live = map (\<lambda>i. live ! ((start + i) mod length live)) [0..<length live]"

definition offers_left :: "Fleet \<Rightarrow> (u64, int) fmap" where
  "offers_left f = fold (\<lambda>k m. fmupd (d_id (f_drivers f ! k)) maxOffersPerRound m) (live_drivers f) fmempty"

definition Fleet_cycle :: "peers \<Rightarrow> Fleet \<Rightarrow> call_log \<Rightarrow> unit response \<times> Fleet \<times> call_log" where
  "Fleet_cycle P f l =
     (case ask (sim_Snapshot P) Snapshot l of
        (Inl err, l1) \<Rightarrow> (Inl err, f, l1)
      | (Inr snap, l1) \<Rightarrow>
        (let tick = snap_tick snap; pips = snap_pips snap; live = live_drivers f in
         if live = [] then (Inr (), f, l1)
         else
           (let (f2, l2) = sync_all P pips tick live (f, l1);
                start = f_next f2;
                f3 = f2\<lparr>f_next := Suc start\<rparr>;
                r = cycle_pips P tick (by_id f) (rotation start live) pips
                      \<lparr>r_fleet = f3, r_left = offers_left f3, r_credits = fmempty, r_log = l2\<rparr>
            in (Inr (), r_fleet r,
                pay_all P (r_fleet r) (map_order P (r_log r) (fmdom (r_credits r))) tick (r_credits r) (r_log r)))))"

text \<open>\<^verbatim>\<open>Run\<close>, for as many beats as it gets.\<close>

fun Fleet_Run :: "peers \<Rightarrow> nat \<Rightarrow> Fleet \<Rightarrow> call_log \<Rightarrow> Fleet \<times> call_log" where
  "Fleet_Run P 0 f l = (f, l)"
| "Fleet_Run P (Suc beats) f l = (let (r, f1, l1) = Fleet_cycle P f l in Fleet_Run P beats f1 l1)"

section \<open>Purchases\<close>

definition Fleet_Buy ::
  "peers \<Rightarrow> Fleet \<Rightarrow> u64 \<Rightarrow> u64 \<Rightarrow> ResourceKind \<Rightarrow> u64 \<Rightarrow> call_log \<Rightarrow> (bool \<times> string \<times> i64) response \<times> call_log"
where
  "Fleet_Buy P f pipID workplaceID kind tick l =
     (case find_driver workplaceID f of
        None \<Rightarrow> (Inr (False, ''unknown workplace'', 0), l)
      | Some k \<Rightarrow>
        (case ask (sim_Snapshot P) Snapshot l of
           (Inl err, l1) \<Rightarrow> (Inl err, l1)
         | (Inr snap, l1) \<Rightarrow>
           (case List.find (\<lambda>p. pip_id p = pipID) (snap_pips snap) of
              None \<Rightarrow> (Inr (False, ''no such pip'', 0), l1)
            | Some buyer \<Rightarrow>
              if GetInsideWorkplaceId buyer \<noteq> workplaceID
              then (Inr (False, ''the pip is not inside this building'', 0), l1)
              else
                (case ask (wp_Buy P) (CallBuy (d_addr (f_drivers f ! k)) workplaceID pipID kind tick) l1 of
                   (Inl err, l2) \<Rightarrow> (Inl err, l2)
                 | (Inr res, l2) \<Rightarrow>
                   if \<not> br_Ok res then (Inr (False, br_Reason res, 0), l2)
                   else if pip_balance buyer <s br_Price res
                   then (Inr (False, ''insufficient funds'', br_Price res), l2)
                   else
                     (case ask (sim_SubmitIntent P) (SubmitIntent (TransferMoney (pipAccount pipID)
                             (workplaceAccount workplaceID) (br_Price res) (resource_number kind)
                             TRANSFER_KIND_PURCHASE tick)) l2 of
                        (Inl err, l3) \<Rightarrow> (Inl err, l3)
                      | (Inr _, l3) \<Rightarrow> (Inr (True, [], br_Price res), l3))))))"

section \<open>Endowment\<close>

definition endowmentFor :: "i64 \<Rightarrow> i64 \<Rightarrow> i64" where
  "endowmentFor held capital = (if sint capital sdiv 2 \<le> sint held then 0 else capital - held)"

text \<open>The body of \<^verbatim>\<open>Endow\<close>'s loop for one driver.\<close>

definition endow_one :: "peers \<Rightarrow> i64 \<Rightarrow> u64 \<Rightarrow> Driver \<Rightarrow> call_log \<Rightarrow> call_log" where
  "endow_one P capital tick d l =
     (if d_id d = 0 then l
      else
        (let account = workplaceAccount (d_id d) in
         case ask (bank_GetBalance P) (CallGetBalance account) l of
           (Inl err, l1) \<Rightarrow> l1
         | (Inr held, l1) \<Rightarrow>
           (let amount = endowmentFor held capital in
            if amount = 0 then l1
            else
              (case ask (bank_Transfer P) (CallTransfer \<lparr>tq_Payer = ''treasury'', tq_Payee = account, tq_Amount = amount,
                      tq_Kind = TRANSFER_KIND_ISSUANCE, tq_Tick = tick\<rparr>) l1 of
                 (Inl err, l2) \<Rightarrow> l2
               | (Inr res, l2) \<Rightarrow>
                 if \<not> OK res then l2
                 else snd (ask (sim_SubmitIntent P) (SubmitIntent (TransferMoney ''treasury'' account amount 0
                        TRANSFER_KIND_ISSUANCE tick)) l2)))))"

definition Fleet_Endow :: "peers \<Rightarrow> Fleet \<Rightarrow> i64 \<Rightarrow> call_log \<Rightarrow> call_log" where
  "Fleet_Endow P f capital l =
     (if \<not> f_bank f \<or> capital \<le>s 0 then l
      else
        (case ask (sim_Snapshot P) Snapshot l of
           (Inl err, l1) \<Rightarrow> l1
         | (Inr snap, l1) \<Rightarrow> fold (endow_one P capital (snap_tick snap)) (f_drivers f) l1))"

text \<open>\<^verbatim>\<open>KeepEndowed\<close>, for as many passes as it gets; the drivers at each pass are those of the moment.\<close>

fun Fleet_KeepEndowed :: "peers \<Rightarrow> i64 \<Rightarrow> Fleet list \<Rightarrow> call_log \<Rightarrow> call_log" where
  "Fleet_KeepEndowed P capital [] l = l"
| "Fleet_KeepEndowed P capital (f # fs) l = Fleet_KeepEndowed P capital fs (Fleet_Endow P f capital l)"

end
