(* ===== verification/FleetFacts.thy ===== *)
theory FleetFacts
  imports Fleet
begin

text \<open>
  What each step of the economy adds to the log, and what it leaves alone: which kinds of calls it makes,
  that no step changes who a driver drives, and the invariants of a cycle's loop.
\<close>

named_theorems says \<open>which calls a step makes\<close>

section \<open>Growing logs\<close>

text \<open>\<open>adds Q l l'\<close>: the log \<open>l'\<close> continues \<open>l\<close> by calls that satisfy \<open>Q\<close>.\<close>

definition adds :: "(call \<Rightarrow> bool) \<Rightarrow> call_log \<Rightarrow> call_log \<Rightarrow> bool" where
  "adds Q l l' \<longleftrightarrow> (\<exists>ext. l' = l @ ext \<and> list_all Q ext)"

lemma adds_refl [intro, simp]: "adds Q l l"
  by (simp add: adds_def)

lemma adds_trans [trans]: "adds Q a b \<Longrightarrow> adds Q b c \<Longrightarrow> adds Q a c"
  by (auto simp: adds_def)

lemma adds_mono: "adds Q a b \<Longrightarrow> (\<And>c. Q c \<Longrightarrow> R c) \<Longrightarrow> adds R a b"
  by (auto simp: adds_def list_all_iff)

lemma adds_length: "adds Q l l' \<Longrightarrow> length l \<le> length l'"
  by (auto simp: adds_def)

lemma adds_one: "Q c \<Longrightarrow> adds Q l (l @ [c])"
  by (auto simp: adds_def)

lemma ask_adds: "ask f c l = (x, l') \<Longrightarrow> Q c \<Longrightarrow> adds Q l l'"
  by (auto simp: ask_def adds_one)

lemma ask_eq: "ask f c l = (x, l') \<longleftrightarrow> x = f (l @ [c]) \<and> l' = l @ [c]"
  by (auto simp: ask_def)

section \<open>Who a driver drives\<close>

text \<open>The part of a driver no step of a cycle changes.\<close>

definition same_building :: "Driver \<Rightarrow> Driver \<Rightarrow> bool" where
  "same_building d e \<longleftrightarrow> d_id e = d_id d \<and> d_kind e = d_kind d \<and> d_addr e = d_addr d \<and> d_positions e = d_positions d"

definition same_fleet :: "Fleet \<Rightarrow> Fleet \<Rightarrow> bool" where
  "same_fleet f g \<longleftrightarrow> f_bank g = f_bank f \<and> list_all2 same_building (f_drivers f) (f_drivers g)"

lemma same_building_refl [simp]: "same_building d d"
  by (simp add: same_building_def)

lemma same_building_trans: "same_building a b \<Longrightarrow> same_building b c \<Longrightarrow> same_building a c"
  by (simp add: same_building_def)

lemma same_fleet_refl [simp]: "same_fleet f f"
  by (simp add: same_fleet_def list_all2_refl)

lemma same_fleet_trans: "same_fleet a b \<Longrightarrow> same_fleet b c \<Longrightarrow> same_fleet a c"
  unfolding same_fleet_def using list_all2_trans [of same_building same_building same_building] same_building_trans
  by (metis (no_types, lifting))

lemma same_fleet_next [simp]: "same_fleet f (g\<lparr>f_next := n\<rparr>) \<longleftrightarrow> same_fleet f g"
  by (simp add: same_fleet_def)

lemma same_fleet_set:
  assumes "same_fleet f g" "same_building (f_drivers g ! k) d"
  shows "same_fleet f (set_driver k d g)"
proof -
  have len: "length (f_drivers g) = length (f_drivers f)"
    using assms(1) by (auto simp: same_fleet_def dest: list_all2_lengthD)
  have "list_all2 same_building (f_drivers f) ((f_drivers g)[k := d])"
    unfolding list_all2_conv_all_nth
  proof (intro conjI allI impI)
    fix i assume i: "i < length (f_drivers f)"
    have "same_building (f_drivers f ! i) (f_drivers g ! i)"
      using assms(1) i by (auto simp: same_fleet_def list_all2_conv_all_nth)
    with assms(2) i len show "same_building (f_drivers f ! i) ((f_drivers g)[k := d] ! i)"
      by (cases "k = i") (auto intro: same_building_trans)
  qed (simp add: len)
  with assms(1) show ?thesis by (simp add: same_fleet_def set_driver_def)
qed

lemma same_fleet_nth:
  "same_fleet f g \<Longrightarrow> k < length (f_drivers f) \<Longrightarrow> same_building (f_drivers f ! k) (f_drivers g ! k)"
  by (simp add: same_fleet_def list_all2_conv_all_nth)

lemma same_fleet_length: "same_fleet f g \<Longrightarrow> length (f_drivers g) = length (f_drivers f)"
  by (auto simp: same_fleet_def dest: list_all2_lengthD)

lemma live_drivers_lt: "k \<in> set (live_drivers f) \<Longrightarrow> k < length (f_drivers f) \<and> d_id (f_drivers f ! k) \<noteq> 0"
  by (auto simp: live_drivers_def)

lemma rotation_set: "set (rotation n live) \<subseteq> set live"
  by (cases "live = []") (auto simp: rotation_def)

section \<open>Which calls a step makes\<close>

definition clock_call :: "call \<Rightarrow> bool" where
  "clock_call c \<longleftrightarrow> c = ReadClock"

fun publish_call :: "call \<Rightarrow> bool" where
  "publish_call (Publish e k b x) = True"
| "publish_call _ = False"

fun money_call :: "call \<Rightarrow> bool" where
  "money_call (CallBatchTransfer b) = True"
| "money_call (CallTransfer t) = True"
| "money_call (SubmitIntent (CreditBalances a cs t)) = True"
| "money_call (SubmitIntent (TransferMoney a b m r k t)) = True"
| "money_call _ = False"

lemma grace_loop_says:
  "grace_loop P ps hired employed l = (hired', employed', l') \<Longrightarrow> adds clock_call l l' \<and> employed |\<subseteq>| employed'"
proof (induction ps arbitrary: hired employed l)
  case Nil
  then show ?case by simp
next
  case (Cons p ps)
  have tick: "adds clock_call l (l @ [ReadClock])" by (simp add: adds_one clock_call_def)
  from Cons.prems show ?case
    by (auto simp: ask_def Let_def split: option.splits if_splits dest!: Cons.IH intro: adds_trans [OF tick])
qed

lemma syncEmployment_says:
  assumes "syncEmployment P d employed l = (gone, d', l')"
  shows "adds clock_call l l'" "same_building d d'" "set gone \<inter> fset employed = {}"
  using assms by (auto simp: syncEmployment_def same_building_def split: prod.splits dest!: grace_loop_says)

lemma endShift_says:
  "Driver_endShift P d pip tick why l = (d', l') \<Longrightarrow>
    l' = l @ [CallEndShift (d_addr d) (d_id d) pip tick why, SubmitIntent (EndEmployment pip)] \<and> same_building d d'"
  by (auto simp: Driver_endShift_def ask_def same_building_def)

lemma Publisher_Offer_says:
  "Publisher_Offer P kind pip tick tid l = (r, l') \<Longrightarrow>
    (\<exists>err. marshal_work_offer P \<lparr>wo_PipId = pip, wo_Tick = tick, wo_TraceId = tid\<rparr> = Inl err \<and> r = Some err \<and> l' = l) \<or>
    (\<exists>body. marshal_work_offer P \<lparr>wo_PipId = pip, wo_Tick = tick, wo_TraceId = tid\<rparr> = Inr body \<and>
       l' = l @ [Publish gw_exchange (offerPrefix @ kind) body ''10000''] \<and> r = amqp_Publish P l')"
  by (auto simp: Publisher_Offer_def ask_def split: sum.splits)

text \<open>An offer reads the clock, and publishes at most once; it reports that it did.\<close>

lemma offer_says:
  assumes "Driver_offer P d pip tick l = (sent, d', l')"
  obtains (silent) "\<not> sent" "same_building d d'" "adds clock_call l l'"
  | (spoke) l1 body where "adds clock_call l l1" "same_building d d'" "d_kind d \<noteq> []"
      "marshal_work_offer P \<lparr>wo_PipId = pip, wo_Tick = tick, wo_TraceId = []\<rparr> = Inr body"
      "l' = l1 @ [Publish gw_exchange (offerPrefix @ d_kind d) body ''10000'']" "sent \<longleftrightarrow> amqp_Publish P l' = None"
proof (cases "d_kind d = []")
  case True
  with assms show ?thesis by (intro silent) (auto simp: Driver_offer_def)
next
  case kind: False
  obtain waiting l1 where w: "(case fmlookup (d_pending d) pip of
        None \<Rightarrow> (False, l)
      | Some at \<Rightarrow> (let (now, l') = ask (clock_reads P) ReadClock l in (time_sub now at < offerPatience, l'))) = (waiting, l1)"
    by fastforce
  then have l1: "adds clock_call l l1"
    by (auto simp: ask_def clock_call_def adds_one split: option.splits)
  show ?thesis
  proof (cases waiting)
    case True
    with assms kind w l1 show ?thesis by (intro silent) (auto simp: Driver_offer_def)
  next
    case False
    let ?l2 = "l1 @ [ReadClock]"
    have l2: "adds clock_call l ?l2" using l1 by (rule adds_trans) (simp add: adds_one clock_call_def)
    obtain r l3 where pub: "Publisher_Offer P (d_kind d) pip tick [] ?l2 = (r, l3)" by fastforce
    from assms kind w False pub have fin: "l' = l3" "sent \<longleftrightarrow> r = None" "same_building d d'"
      by (auto simp: Driver_offer_def ask_def same_building_def Let_def split: option.splits)
    from Publisher_Offer_says [OF pub] show ?thesis
      using fin l2 kind by (auto intro: silent spoke)
  qed
qed

lemma work_says:
  assumes "Driver_work P d pip tick inside l = ((ok, wage), d', l')"
  shows "same_building d d'" and "adds (\<lambda>c. \<not> publish_call c \<and> \<not> money_call c) l l'"
    and "ok \<and> inside \<Longrightarrow> \<exists>res. wp_Work P (l @ [CallWork (d_addr d) (d_id d) pip tick]) = Inr res \<and> wr_Wage res = wage
       \<and> \<not> wr_ShiftShouldEnd res"
    and "\<exists>ext. l' = l @ CallWork (d_addr d) (d_id d) pip tick # ext"
  using assms
  by (auto simp: Driver_work_def ask_def adds_def same_building_def Driver_endShift_def split: sum.splits if_splits)

section \<open>Offers of a round\<close>

text \<open>How many of the published messages that satisfy \<open>Q\<close> the broker took.\<close>

definition published :: "peers \<Rightarrow> (call \<Rightarrow> bool) \<Rightarrow> call_log \<Rightarrow> nat" where
  "published P Q l = length (filter (\<lambda>j. publish_call (l ! j) \<and> Q (l ! j) \<and> amqp_Publish P (take (Suc j) l) = None) [0..<length l])"

lemma published_snoc:
  "published P Q (l @ [c]) = published P Q l + (if publish_call c \<and> Q c \<and> amqp_Publish P (l @ [c]) = None then 1 else 0)"
proof -
  have "filter (\<lambda>j. publish_call ((l @ [c]) ! j) \<and> Q ((l @ [c]) ! j) \<and> amqp_Publish P (take (Suc j) (l @ [c])) = None) [0..<length l]
      = filter (\<lambda>j. publish_call (l ! j) \<and> Q (l ! j) \<and> amqp_Publish P (take (Suc j) l) = None) [0..<length l]"
    by (intro filter_cong) (auto simp: nth_append)
  then show ?thesis by (simp add: published_def)
qed

lemma published_adds: "adds (\<lambda>c. \<not> publish_call c) l l' \<Longrightarrow> published P Q l' = published P Q l"
proof -
  have "list_all (\<lambda>c. \<not> publish_call c) ext \<Longrightarrow> published P Q (l @ ext) = published P Q l" for ext
    by (induction ext rule: rev_induct) (simp_all add: published_snoc append_assoc [symmetric] del: append_assoc)
  then show "adds (\<lambda>c. \<not> publish_call c) l l' \<Longrightarrow> ?thesis" by (auto simp: adds_def)
qed

lemma clock_not_publish: "adds clock_call l l' \<Longrightarrow> adds (\<lambda>c. \<not> publish_call c \<and> \<not> money_call c) l l'"
  by (erule adds_mono) (auto simp: clock_call_def)

lemma adds_conj1: "adds (\<lambda>c. Q c \<and> R c) l l' \<Longrightarrow> adds Q l l'" and adds_conj2: "adds (\<lambda>c. Q c \<and> R c) l l' \<Longrightarrow> adds R l l'"
  by (auto elim: adds_mono)

definition offer_of :: "peers \<Rightarrow> u64 \<Rightarrow> u64 \<Rightarrow> string fallible" where
  "offer_of P tick pip = marshal_work_offer P \<lparr>wo_PipId = pip, wo_Tick = tick, wo_TraceId = []\<rparr>"

text \<open>What the offers of one pip do: at most one of them goes out, and it uses up one of its building's.\<close>

lemma offer_pip_law:
  fixes P pip tick
  defines "go \<equiv> offer_pip P pip tick"
  shows "same_fleet f (r_fleet r) \<Longrightarrow> \<forall>k \<in> set ks. k < length (f_drivers f) \<Longrightarrow>
    same_fleet f (r_fleet (go ks r)) \<and> r_credits (go ks r) = r_credits r
    \<and> f_next (r_fleet (go ks r)) = f_next (r_fleet r)
    \<and> adds (\<lambda>c. \<not> money_call c) (r_log r) (r_log (go ks r))
    \<and> (r_left (go ks r) = r_left r \<and> (\<forall>Q. published P Q (r_log (go ks r)) = published P Q (r_log r))
      \<or> (\<exists>k \<in> set ks. \<exists>body. 0 < getz (r_left r) (d_id (f_drivers f ! k)) \<and> offer_of P tick pip = Inr body
          \<and> r_left (go ks r) = subz (r_left r) (d_id (f_drivers f ! k)) 1
          \<and> (\<forall>Q. published P Q (r_log (go ks r)) = published P Q (r_log r)
               + (if Q (Publish gw_exchange (offerPrefix @ d_kind (f_drivers f ! k)) body ''10000'') then 1 else 0))))"
  unfolding go_def
proof (induction ks arbitrary: r)
  case Nil
  then show ?case by simp
next
  case (Cons k ks)
  let ?d = "f_drivers (r_fleet r) ! k"
  have same: "same_building (f_drivers f ! k) ?d" using same_fleet_nth Cons.prems by simp
  show ?case
  proof (cases "getz (r_left r) (d_id ?d) \<le> 0")
    case True
    with Cons.IH [OF Cons.prems(1)] Cons.prems(2) show ?thesis by auto
  next
    case False
    obtain sent d1 l1 where o: "Driver_offer P ?d pip tick (r_log r) = (sent, d1, l1)" by (metis prod_cases3)
    let ?r1 = "r\<lparr>r_fleet := set_driver k d1 (r_fleet r), r_log := l1\<rparr>"
    from o show ?thesis
    proof (cases rule: offer_says)
      case silent
      have l1: "adds (\<lambda>c. \<not> publish_call c \<and> \<not> money_call c) (r_log r) l1" using silent(3) by (rule clock_not_publish)
      have sf: "same_fleet f (r_fleet ?r1)" using same_fleet_set [OF Cons.prems(1) silent(2)] by simp
      have "published P Q l1 = published P Q (r_log r)" for Q using published_adds [OF adds_conj1 [OF l1]] .
      moreover have "offer_pip P pip tick (k # ks) r = offer_pip P pip tick ks ?r1" using False o silent(1) by simp
      ultimately show ?thesis
        using Cons.IH [OF sf] Cons.prems(2) adds_trans [OF adds_conj2 [OF l1]] by (auto simp: set_driver_def)
    next
      case (spoke l2 body)
      have l2: "adds (\<lambda>c. \<not> publish_call c \<and> \<not> money_call c) (r_log r) l2" using spoke(1) by (rule clock_not_publish)
      have l1: "adds (\<lambda>c. \<not> money_call c) (r_log r) l1"
        using adds_conj2 [OF l2] unfolding spoke(5) by (rule adds_trans) (rule adds_one, simp)
      have sf: "same_fleet f (r_fleet ?r1)" using same_fleet_set [OF Cons.prems(1) spoke(2)] by simp
      have pub: "published P Q l1 = published P Q (r_log r)
          + (if sent \<and> Q (Publish gw_exchange (offerPrefix @ d_kind ?d) body ''10000'') then 1 else 0)" for Q
        using published_adds [OF adds_conj1 [OF l2]] spoke(5,6) by (simp add: published_snoc)
      show ?thesis
      proof (cases sent)
        case True
        have go: "offer_pip P pip tick (k # ks) r = ?r1\<lparr>r_left := subz (r_left r) (d_id ?d) 1\<rparr>"
          using False o True by simp
        have "offer_of P tick pip = Inr body" using spoke(4) by (simp add: offer_of_def)
        then show ?thesis using False pub True same sf l1 unfolding go
          by (auto simp: same_building_def set_driver_def)
      next
        case False2: False
        have "offer_pip P pip tick (k # ks) r = offer_pip P pip tick ks ?r1" using False o False2 by simp
        then show ?thesis using Cons.IH [OF sf] Cons.prems(2) pub False2 adds_trans [OF l1] by (auto simp: set_driver_def)
      qed
    qed
  qed
qed

section \<open>Shifts of a round\<close>

text \<open>\<open>earned P pips tick n l w pip amount\<close>: the building \<open>w\<close> answered a call of this round for a pip on its
  payroll and inside it with this wage.\<close>

definition earned :: "peers \<Rightarrow> Pip list \<Rightarrow> u64 \<Rightarrow> nat \<Rightarrow> call_log \<Rightarrow> u64 \<Rightarrow> u64 \<Rightarrow> i64 \<Rightarrow> bool" where
  "earned P pips tick n l w pip amount \<longleftrightarrow> 0 <s amount \<and>
     (\<exists>p \<in> set pips. pip_id p = pip \<and> pip_employer p = Some w \<and> pip_inside p = Some w) \<and>
     (\<exists>pre post res addr. l = pre @ CallWork addr w pip tick # post \<and> n \<le> length pre \<and> wp_Work P (pre @ [CallWork addr w pip tick]) = Inr res
        \<and> wr_Wage res = amount \<and> \<not> wr_ShiftShouldEnd res)"

lemma earned_adds: "earned P pips tick n l w pip amount \<Longrightarrow> adds Q l l' \<Longrightarrow> earned P pips tick n l' w pip amount"
  by (fastforce simp: earned_def adds_def)

definition owed_ok :: "peers \<Rightarrow> Pip list \<Rightarrow> u64 \<Rightarrow> nat \<Rightarrow> round_state \<Rightarrow> bool" where
  "owed_ok P pips tick n r \<longleftrightarrow> (\<forall>w c pip amount. fmlookup (r_credits r) w = Some c \<longrightarrow> fmlookup c pip = Some amount \<longrightarrow>
     earned P pips tick n (r_log r) w pip amount)"

lemma work_pip_law:
  fixes P tick p k r
  defines "r' \<equiv> work_pip P tick p k r"
  assumes sf: "same_fleet f (r_fleet r)" and k: "k < length (f_drivers f)" "d_id (f_drivers f ! k) \<noteq> 0"
  shows "same_fleet f (r_fleet r')" and "r_left r' = r_left r" and "f_next (r_fleet r') = f_next (r_fleet r)"
    and "adds (\<lambda>c. \<not> publish_call c \<and> \<not> money_call c) (r_log r) (r_log r')"
    and "p \<in> set pips \<Longrightarrow> GetEmployerWorkplaceId p = d_id (f_drivers f ! k) \<Longrightarrow> n \<le> length (r_log r) \<Longrightarrow> owed_ok P pips tick n r \<Longrightarrow> owed_ok P pips tick n r'"
proof -
  let ?d = "f_drivers (r_fleet r) ! k"
  have id: "d_id ?d = d_id (f_drivers f ! k)" using same_fleet_nth [OF sf k(1)] by (simp add: same_building_def)
  obtain ok wage d1 l1 where w: "Driver_work P ?d (pip_id p) tick (GetInsideWorkplaceId p = d_id ?d) (r_log r) = ((ok, wage), d1, l1)"
    by (metis surj_pair)
  note law = work_says [OF w]
  let ?r1 = "r\<lparr>r_fleet := set_driver k d1 (r_fleet r), r_log := l1\<rparr>"
  have sf1: "same_fleet f (r_fleet ?r1)" using same_fleet_set [OF sf law(1)] by simp
  let ?pays = "ok \<and> GetInsideWorkplaceId p = d_id ?d \<and> 0 <s wage"
  let ?c = "fmupd (pip_id p) wage (case fmlookup (r_credits r) (d_id ?d) of None \<Rightarrow> fmempty | Some c \<Rightarrow> c)"
  have r': "r' = (if ?pays then ?r1\<lparr>r_credits := fmupd (d_id ?d) ?c (r_credits r)\<rparr> else ?r1)"
    using w by (simp add: r'_def work_pip_def Let_def)
  show "same_fleet f (r_fleet r')" "r_left r' = r_left r" "f_next (r_fleet r') = f_next (r_fleet r)"
    "adds (\<lambda>c. \<not> publish_call c \<and> \<not> money_call c) (r_log r) (r_log r')"
    using sf1 law(2) by (auto simp: r' set_driver_def)
  assume p: "p \<in> set pips" "GetEmployerWorkplaceId p = d_id (f_drivers f ! k)" and n: "n \<le> length (r_log r)" and ok: "owed_ok P pips tick n r"
  have old: "owed_ok P pips tick n ?r1" using ok earned_adds [OF _ law(2)] by (auto simp: owed_ok_def)
  show "owed_ok P pips tick n r'"
  proof (cases ?pays)
    case False
    with r' old show ?thesis by simp
  next
    case True
    from law(3) True obtain res where res: "wp_Work P (r_log r @ [CallWork (d_addr ?d) (d_id ?d) (pip_id p) tick]) = Inr res"
      "wr_Wage res = wage" "\<not> wr_ShiftShouldEnd res" by auto
    obtain ext where "l1 = r_log r @ CallWork (d_addr ?d) (d_id ?d) (pip_id p) tick # ext" using law(4) by blast
    moreover have "pip_employer p = Some (d_id ?d)" "pip_inside p = Some (d_id ?d)"
      using p(2) True id k(2) by (auto simp: get_optional_def split: option.splits)
    ultimately have "earned P pips tick n l1 (d_id ?d) (pip_id p) wage" using True res p(1) n by (fastforce simp: earned_def)
    with old True show ?thesis unfolding r' by (auto simp: owed_ok_def split: option.splits if_splits)
  qed
qed

lemma by_id_lookup:
  "fmlookup (by_id f) w = Some k \<Longrightarrow> k \<in> set (live_drivers f) \<and> d_id (f_drivers f ! k) = w"
proof -
  have "fmlookup (fold (\<lambda>k m. fmupd (d_id (f_drivers f ! k)) k m) ks m) w = Some k \<Longrightarrow>
      fmlookup m w = Some k \<or> k \<in> set ks \<and> d_id (f_drivers f ! k) = w" for ks m
  proof (induction ks arbitrary: m)
    case (Cons a ks)
    from Cons.prems have "fmlookup (fold (\<lambda>k m. fmupd (d_id (f_drivers f ! k)) k m) ks (fmupd (d_id (f_drivers f ! a)) a m)) w = Some k"
      by simp
    from Cons.IH [OF this] show ?case by (auto split: if_splits)
  qed simp
  then show "fmlookup (by_id f) w = Some k \<Longrightarrow> ?thesis" unfolding by_id_def by fastforce
qed

lemma by_id_none: "fmlookup (by_id f) w = None \<longleftrightarrow> (\<forall>k \<in> set (live_drivers f). d_id (f_drivers f ! k) \<noteq> w)"
proof -
  have "fmlookup (fold (\<lambda>k m. fmupd (d_id (f_drivers f ! k)) k m) ks m) w = None \<longleftrightarrow>
      fmlookup m w = None \<and> (\<forall>k \<in> set ks. d_id (f_drivers f ! k) \<noteq> w)" for ks m
    by (induction ks arbitrary: m) auto
  then show ?thesis by (simp add: by_id_def)
qed

section \<open>The loop of a cycle\<close>

lemma cycle_pips_law:
  fixes P tick f ring
  defines "go \<equiv> cycle_pips P tick (by_id f) ring"
  assumes ring: "set ring \<subseteq> set (live_drivers f)"
  shows "same_fleet f (r_fleet r) \<Longrightarrow> owed_ok P pips tick n r \<Longrightarrow> set ps \<subseteq> set pips \<Longrightarrow> n \<le> length (r_log r) \<Longrightarrow>
    same_fleet f (r_fleet (go ps r)) \<and> owed_ok P pips tick n (go ps r)
    \<and> f_next (r_fleet (go ps r)) = f_next (r_fleet r)
    \<and> adds (\<lambda>c. \<not> money_call c) (r_log r) (r_log (go ps r))"
  unfolding go_def
proof (induction ps arbitrary: r)
  case Nil
  then show ?case by simp
next
  case (Cons p ps)
  show ?case
  proof (cases "fmlookup (by_id f) (GetEmployerWorkplaceId p)")
    case None
    let ?r = "offer_pip P (pip_id p) tick ring r"
    have ks: "\<forall>k \<in> set ring. k < length (f_drivers f)" using ring live_drivers_lt by blast
    note law = offer_pip_law [OF Cons.prems(1) ks, of P "pip_id p" tick]
    have "owed_ok P pips tick n ?r"
      using Cons.prems(2) law earned_adds [of P pips tick n "r_log r"] unfolding owed_ok_def by metis
    moreover have "n \<le> length (r_log ?r)" using law adds_length Cons.prems(4) by (meson le_trans)
    ultimately show ?thesis using Cons.IH [of ?r] law Cons.prems(3) None by (auto intro: adds_trans)
  next
    case (Some k)
    then have k: "k < length (f_drivers f)" "d_id (f_drivers f ! k) \<noteq> 0" "GetEmployerWorkplaceId p = d_id (f_drivers f ! k)"
      using by_id_lookup live_drivers_lt by metis+
    note law = work_pip_law [where P = P and tick = tick and p = p, OF Cons.prems(1) k(1,2)]
    have "n \<le> length (r_log (work_pip P tick p k r))" using adds_length [OF law(4)] Cons.prems(4) by simp
    with Cons.IH [OF law(1) law(5) [OF _ k(3) Cons.prems(4,2)]] law(3) adds_conj2 [OF law(4)] Cons.prems(3) Some
    show ?thesis by (auto intro: adds_trans)
  qed
qed

section \<open>Payroll\<close>

definition payroll :: "u64 \<Rightarrow> u64 \<Rightarrow> (u64 \<times> i64) list \<Rightarrow> BatchTransferRequest" where
  "payroll w tick pays = \<lparr>bq_Payer = workplaceAccount w,
     bq_Credits = map (\<lambda>(pip, amount). \<lparr>cr_Payee = pipAccount pip, cr_Amount = amount\<rparr>) pays,
     bq_Kind = TRANSFER_KIND_WAGE, bq_Tick = tick\<rparr>"

lemma pay_list_set:
  assumes "set order = fset (fmdom c)"
  shows "set (pay_list order c) = {(pip, a). fmlookup c pip = Some a \<and> 0 <s a}"
proof -
  have "(pip, a) \<in> set (pay_list order c) \<longleftrightarrow> pip \<in> fset (fmdom c) \<and> getz c pip = a \<and> 0 <s a" for pip a
    by (auto simp: pay_list_def assms)
  moreover have "pip \<in> fset (fmdom c) \<and> getz c pip = a \<and> 0 <s a \<longleftrightarrow> fmlookup c pip = Some a \<and> 0 <s a" for pip a
    by (auto simp: getz_def fmlookup_dom_iff split: option.splits)
  ultimately have "(pip, a) \<in> set (pay_list order c) \<longleftrightarrow> fmlookup c pip = Some a \<and> 0 <s a" for pip a
    by blast
  then show ?thesis by auto
qed

lemma payWages_says:
  assumes "walks_maps P" "Fleet_payWages P f w tick c l = l'"
  obtains (nothing) "l' = l" "\<not> f_bank f \<or> (\<forall>pip a. fmlookup c pip = Some a \<longrightarrow> \<not> 0 <s a)"
  | (refused) pays where "pays \<noteq> []" "set pays = {(pip, a). fmlookup c pip = Some a \<and> 0 <s a}"
      "l' = l @ [CallBatchTransfer (payroll w tick pays)]" "\<forall>r. bank_BatchTransfer P l' = Inr r \<longrightarrow> \<not> OK r"
  | (paid) pays r where "pays \<noteq> []" "set pays = {(pip, a). fmlookup c pip = Some a \<and> 0 <s a}"
      "l' = l @ [CallBatchTransfer (payroll w tick pays), SubmitIntent (CreditBalances (workplaceAccount w) pays tick)]"
      "bank_BatchTransfer P (l @ [CallBatchTransfer (payroll w tick pays)]) = Inr r" "OK r"
proof -
  let ?pays = "pay_list (map_order P l (fmdom c)) c" and ?l = "l @ [CallBatchTransfer (payroll w tick (pay_list (map_order P l (fmdom c)) c))]"
  have set: "set ?pays = {(pip, a). fmlookup c pip = Some a \<and> 0 <s a}"
    by (rule pay_list_set) (use assms(1) in \<open>simp add: walks_maps_def\<close>)
  show ?thesis
  proof (cases "\<not> f_bank f \<or> c = fmempty \<or> ?pays = []")
    case True
    then have "l' = l" using assms(2) by (auto simp: Fleet_payWages_def)
    moreover have "\<not> f_bank f \<or> {(pip, a). fmlookup c pip = Some a \<and> 0 <s a} = {}"
      using True set by auto
    ultimately show ?thesis by - (rule nothing, auto)
  next
    case False
    then have l': "l' = (case bank_BatchTransfer P ?l of Inl err \<Rightarrow> ?l
        | Inr r \<Rightarrow> if \<not> OK r then ?l else ?l @ [SubmitIntent (CreditBalances (workplaceAccount w) ?pays tick)])"
      using assms(2) by (auto simp: Fleet_payWages_def ask_def payroll_def Let_def split: sum.splits)
    show ?thesis
    proof (cases "\<exists>r. bank_BatchTransfer P ?l = Inr r \<and> OK r")
      case True
      then obtain r where r: "bank_BatchTransfer P ?l = Inr r" "OK r" by blast
      with l' False set show ?thesis by (intro paid [of ?pays r]) auto
    next
      case bad: False
      then have "l' = ?l" using l' by (auto split: sum.splits)
      with bad False set show ?thesis by (intro refused [of ?pays]) auto
    qed
  qed
qed

text \<open>What holds of each entry a cycle writes.\<close>

definition pay_entry_ok :: "peers \<Rightarrow> Pip list \<Rightarrow> u64 \<Rightarrow> nat \<Rightarrow> call_log \<Rightarrow> nat \<Rightarrow> bool" where
  "pay_entry_ok P pips tick n l j \<longleftrightarrow>
     (\<forall>b. l ! j = CallBatchTransfer b \<longrightarrow> (\<exists>w pays. b = payroll w tick pays \<and>
        (\<forall>(pip, a) \<in> set pays. earned P pips tick n (take j l) w pip a))) \<and>
     (\<forall>acc cs t. l ! j = SubmitIntent (CreditBalances acc cs t) \<longrightarrow> (\<exists>w r. 0 < j \<and> acc = workplaceAccount w \<and> t = tick \<and>
        l ! (j - 1) = CallBatchTransfer (payroll w tick cs) \<and> bank_BatchTransfer P (take j l) = Inr r \<and> OK r)) \<and>
     (\<forall>t. l ! j \<noteq> CallTransfer t) \<and> (\<forall>a b m k kd t. l ! j \<noteq> SubmitIntent (TransferMoney a b m k kd t))"

lemma pay_entry_app: "j < length l \<Longrightarrow> pay_entry_ok P pips tick n (l @ ext) j = pay_entry_ok P pips tick n l j"
  by (auto simp: pay_entry_ok_def nth_append)

lemma pay_entry_quiet:
  assumes "adds (\<lambda>c. \<not> money_call c) l l'" "length l \<le> j" "j < length l'"
  shows "pay_entry_ok P pips tick n l' j"
proof -
  obtain ext where "l' = l @ ext" "list_all (\<lambda>c. \<not> money_call c) ext" using assms(1) by (auto simp: adds_def)
  with assms(2,3) have "\<not> money_call (l' ! j)" by (auto simp: nth_append list_all_length)
  then show ?thesis by (auto simp: pay_entry_ok_def)
qed

lemma payWages_entries:
  assumes "walks_maps P" and owed: "\<And>pip a. fmlookup c pip = Some a \<Longrightarrow> earned P pips tick n l w pip a"
    and run: "Fleet_payWages P g w tick c l = l'"
  shows "adds (\<lambda>_. True) l l' \<and> (\<forall>j. length l \<le> j \<longrightarrow> j < length l' \<longrightarrow> pay_entry_ok P pips tick n l' j)"
  using assms(1) run
proof (cases rule: payWages_says)
  case nothing
  then show ?thesis by simp
next
  case (refused pays)
  then have "pay_entry_ok P pips tick n l' (length l)"
    using owed by (auto simp: pay_entry_ok_def intro!: exI [of _ w] exI [of _ pays])
  moreover have "j = length l" if "length l \<le> j" "j < length l'" for j using that refused(3) by simp
  ultimately have "\<forall>j. length l \<le> j \<longrightarrow> j < length l' \<longrightarrow> pay_entry_ok P pips tick n l' j" by blast
  then show ?thesis using refused(3) by (auto simp: adds_def list_all_iff)
next
  case (paid pays r)
  have "pay_entry_ok P pips tick n l' (length l)"
    using owed paid by (auto simp: pay_entry_ok_def nth_append intro!: exI [of _ w] exI [of _ pays])
  moreover have "pay_entry_ok P pips tick n l' (Suc (length l))"
    using paid by (auto simp: pay_entry_ok_def nth_append)
  moreover have "j = length l \<or> j = Suc (length l)" if "length l \<le> j" "j < length l'" for j using that paid(3) by auto
  ultimately have "\<forall>j. length l \<le> j \<longrightarrow> j < length l' \<longrightarrow> pay_entry_ok P pips tick n l' j" by blast
  then show ?thesis using paid(3) by (auto simp: adds_def list_all_iff)
qed

lemma pay_all_entries:
  assumes "walks_maps P" and "\<And>w c pip a. fmlookup cs w = Some c \<Longrightarrow> fmlookup c pip = Some a \<Longrightarrow> earned P pips tick n l w pip a"
  shows "adds (\<lambda>_. True) l (pay_all P g ws tick cs l) \<and>
    (\<forall>j. length l \<le> j \<longrightarrow> j < length (pay_all P g ws tick cs l) \<longrightarrow> pay_entry_ok P pips tick n (pay_all P g ws tick cs l) j)"
  using assms(2)
proof (induction ws arbitrary: l)
  case Nil
  then show ?case by simp
next
  case (Cons w ws)
  let ?c = "case fmlookup cs w of None \<Rightarrow> fmempty | Some c \<Rightarrow> c" and ?l = "pay_all P g (w # ws) tick cs l"
  let ?l1 = "Fleet_payWages P g w tick ?c l"
  have "earned P pips tick n l w pip a" if "fmlookup ?c pip = Some a" for pip a
    using that Cons.prems by (auto split: option.splits)
  from payWages_entries [where g = g, OF assms(1) this refl]
  have one: "adds (\<lambda>_. True) l ?l1" "\<And>j. length l \<le> j \<Longrightarrow> j < length ?l1 \<Longrightarrow> pay_entry_ok P pips tick n ?l1 j" by auto
  have rest: "adds (\<lambda>_. True) ?l1 ?l" "\<And>j. length ?l1 \<le> j \<Longrightarrow> j < length ?l \<Longrightarrow> pay_entry_ok P pips tick n ?l j"
    using Cons.IH [of ?l1] Cons.prems earned_adds [OF _ one(1)] by auto
  then obtain ext where ext: "?l = ?l1 @ ext" by (auto simp: adds_def)
  have "pay_entry_ok P pips tick n ?l j" if "length l \<le> j" "j < length ?l" for j
    using one(2) [of j] rest(2) [of j] that pay_entry_app [of j ?l1] ext by (cases "j < length ?l1") auto
  with one(1) rest(1) show ?case using adds_trans by blast
qed

section \<open>The parts of a cycle\<close>

lemma end_shifts_says:
  "end_shifts P k tick ps (g, l) = (g', l') \<Longrightarrow> same_fleet f g \<Longrightarrow>
    same_fleet f g' \<and> f_next g' = f_next g \<and> adds (\<lambda>c. \<not> publish_call c \<and> \<not> money_call c) l l'"
proof (induction ps arbitrary: g l)
  case Nil
  then show ?case by simp
next
  case (Cons p ps)
  obtain d l1 where e: "Driver_endShift P (f_drivers g ! k) p tick ''no longer employed here'' l = (d, l1)" by fastforce
  note one = endShift_says [OF e]
  have "adds (\<lambda>c. \<not> publish_call c \<and> \<not> money_call c) l l1" using one by (simp add: adds_def)
  moreover have "same_fleet f (set_driver k d g)" using same_fleet_set [OF Cons.prems(2)] one by blast
  moreover have "end_shifts P k tick ps (set_driver k d g, l1) = (g', l')" using Cons.prems(1) e by simp
  ultimately show ?case using Cons.IH by (fastforce simp: set_driver_def intro: adds_trans)
qed

lemma sync_all_says:
  "sync_all P pips tick ks (g, l) = (g', l') \<Longrightarrow> same_fleet f g \<Longrightarrow>
    same_fleet f g' \<and> f_next g' = f_next g \<and> adds (\<lambda>c. \<not> publish_call c \<and> \<not> money_call c) l l'"
proof (induction ks arbitrary: g l)
  case Nil
  then show ?case by simp
next
  case (Cons k ks)
  let ?d = "f_drivers g ! k"
  obtain gone d l1 where s: "syncEmployment P ?d (employed_by pips (d_id ?d)) l = (gone, d, l1)" by (metis prod_cases3)
  obtain g2 l2 where e: "end_shifts P k tick gone (set_driver k d g, l1) = (g2, l2)" by fastforce
  have sf: "same_fleet f (set_driver k d g)" using same_fleet_set [OF Cons.prems(2)] syncEmployment_says(2) [OF s] by blast
  have "adds (\<lambda>c. \<not> publish_call c \<and> \<not> money_call c) l l1" using clock_not_publish [OF syncEmployment_says(1) [OF s]] .
  moreover have "sync_all P pips tick ks (g2, l2) = (g', l')" using Cons.prems(1) s e by simp
  ultimately show ?case using end_shifts_says [OF e sf] Cons.IH
    by (fastforce simp: set_driver_def intro: adds_trans)
qed

lemma Fleet_cycle_runs:
  assumes "Fleet_cycle P f l = (res, f', l')" "sim_Snapshot P (l @ [Snapshot]) = Inr snap" "live_drivers f \<noteq> []"
  obtains f2 l2 r where "sync_all P (snap_pips snap) (snap_tick snap) (live_drivers f) (f, l @ [Snapshot]) = (f2, l2)"
    "r = cycle_pips P (snap_tick snap) (by_id f) (rotation (f_next f2) (live_drivers f)) (snap_pips snap)
      \<lparr>r_fleet = f2\<lparr>f_next := Suc (f_next f2)\<rparr>, r_left = offers_left (f2\<lparr>f_next := Suc (f_next f2)\<rparr>),
       r_credits = fmempty, r_log = l2\<rparr>"
    "f' = r_fleet r" "l' = pay_all P (r_fleet r) (map_order P (r_log r) (fmdom (r_credits r))) (snap_tick snap) (r_credits r) (r_log r)"
    "res = Inr ()"
proof -
  obtain f2 l2 where s: "sync_all P (snap_pips snap) (snap_tick snap) (live_drivers f) (f, l @ [Snapshot]) = (f2, l2)" by fastforce
  with assms show ?thesis by (intro that [OF s refl]) (auto simp: Fleet_cycle_def ask_def Let_def)
qed

lemma Fleet_cycle_idle:
  assumes "\<forall>snap. sim_Snapshot P (l @ [Snapshot]) = Inr snap \<longrightarrow> live_drivers f = []"
  shows "snd (Fleet_cycle P f l) = (f, l @ [Snapshot])"
  using assms by (auto simp: Fleet_cycle_def ask_def split: sum.splits)

text \<open>The cycle up to payroll.\<close>

lemma cycle_before_pay:
  assumes "sync_all P (snap_pips snap) (snap_tick snap) (live_drivers f) (f, l @ [Snapshot]) = (f2, l2)"
    "r = cycle_pips P (snap_tick snap) (by_id f) (rotation n (live_drivers f)) (snap_pips snap)
      \<lparr>r_fleet = f2\<lparr>f_next := n'\<rparr>, r_left = left, r_credits = fmempty, r_log = l2\<rparr>"
  shows "same_fleet f (r_fleet r)" "owed_ok P (snap_pips snap) (snap_tick snap) (length l) r"
    "adds (\<lambda>c. \<not> money_call c) l (r_log r)" "f_next (r_fleet r) = n'" "f_next f2 = f_next f"
proof -
  note sync = sync_all_says [OF assms(1) same_fleet_refl]
  have "owed_ok P (snap_pips snap) (snap_tick snap) (length l)
      \<lparr>r_fleet = f2\<lparr>f_next := n'\<rparr>, r_left = left, r_credits = fmempty, r_log = l2\<rparr>" by (simp add: owed_ok_def)
  from cycle_pips_law [where P = P and tick = "snap_tick snap" and ring = "rotation n (live_drivers f)"
      and ps = "snap_pips snap", OF rotation_set _ this order_refl]
  have law: "same_fleet f (r_fleet r)" "owed_ok P (snap_pips snap) (snap_tick snap) (length l) r"
    "adds (\<lambda>c. \<not> money_call c) l2 (r_log r)" "f_next (r_fleet r) = n'"
    using sync adds_length [OF conjunct2 [OF conjunct2 [OF sync]]] by (auto simp: assms(2))
  have "adds (\<lambda>c. \<not> money_call c) l (l @ [Snapshot])" by (rule adds_one) simp
  with law(3) sync adds_conj2 show "adds (\<lambda>c. \<not> money_call c) l (r_log r)" by (meson adds_trans)
  show "same_fleet f (r_fleet r)" "owed_ok P (snap_pips snap) (snap_tick snap) (length l) r" "f_next (r_fleet r) = n'" "f_next f2 = f_next f"
    using law sync by auto
qed

section \<open>The offers of a cycle\<close>

definition under_key :: "string \<Rightarrow> call \<Rightarrow> bool" where
  "under_key kind c \<longleftrightarrow> (\<exists>body x. c = Publish gw_exchange (offerPrefix @ kind) body x)"

definition with_body :: "string \<Rightarrow> call \<Rightarrow> bool" where
  "with_body body c \<longleftrightarrow> (\<exists>key x. c = Publish gw_exchange key body x)"

text \<open>The offers the buildings of a kind have left together.\<close>

definition room :: "Fleet \<Rightarrow> string \<Rightarrow> (u64, int) fmap \<Rightarrow> int" where
  "room f kind left = (\<Sum>k \<leftarrow> filter (\<lambda>k. d_kind (f_drivers f ! k) = kind) (live_drivers f). getz left (d_id (f_drivers f ! k)))"

lemma sum_list_minus_one:
  "distinct (map h xs) \<Longrightarrow> (\<Sum>x \<leftarrow> xs. g x - (if h x = i then 1 else 0 :: int)) = (\<Sum>x \<leftarrow> xs. g x) - (if i \<in> h ` set xs then 1 else 0)"
  by (induction xs) auto

lemma room_sub:
  assumes "distinct (map (\<lambda>k. d_id (f_drivers f ! k)) (live_drivers f))" "k \<in> set (live_drivers f)"
  shows "room f kind (subz left (d_id (f_drivers f ! k)) 1) = room f kind left - (if d_kind (f_drivers f ! k) = kind then 1 else 0)"
proof -
  let ?L = "filter (\<lambda>k. d_kind (f_drivers f ! k) = kind) (live_drivers f)"
  have "distinct (map (\<lambda>k. d_id (f_drivers f ! k)) ?L)" using assms(1) by (induction "live_drivers f") (auto simp: distinct_map inj_on_def)
  moreover have "d_id (f_drivers f ! k) \<in> (\<lambda>k. d_id (f_drivers f ! k)) ` set ?L \<longleftrightarrow> d_kind (f_drivers f ! k) = kind"
    using assms by (auto simp: distinct_map inj_on_def)
  ultimately show ?thesis by (simp add: room_def getz_subz sum_list_minus_one)
qed

lemma offers_left_getz: "k \<in> set (live_drivers f) \<Longrightarrow> getz (offers_left f) (d_id (f_drivers f ! k)) = maxOffersPerRound"
  and offers_left_nonneg: "0 \<le> getz (offers_left f) x"
proof -
  have fold: "getz (fold (\<lambda>k m. fmupd (d_id (f_drivers f ! k)) maxOffersPerRound m) ks m) x =
      (if \<exists>k \<in> set ks. d_id (f_drivers f ! k) = x then maxOffersPerRound else getz m x)" for ks m x
    by (induction ks arbitrary: m) auto
  show "k \<in> set (live_drivers f) \<Longrightarrow> getz (offers_left f) (d_id (f_drivers f ! k)) = maxOffersPerRound"
    "0 \<le> getz (offers_left f) x"
    unfolding offers_left_def fold by (auto simp: maxOffersPerRound_def)
qed

lemma same_fleet_live: "same_fleet f g \<Longrightarrow> live_drivers g = live_drivers f"
  unfolding live_drivers_def
  by (rule filter_cong) (auto simp: same_fleet_length dest: same_fleet_nth simp: same_building_def)

lemma same_fleet_offers_left: "same_fleet f g \<Longrightarrow> offers_left g = offers_left f"
  unfolding offers_left_def same_fleet_live
  by (rule fold_cong) (auto dest: same_fleet_nth live_drivers_lt simp: same_building_def)

lemma room_offers_left:
  "room f kind (offers_left f) = 8 * int (length (filter (\<lambda>k. d_kind (f_drivers f ! k) = kind) (live_drivers f)))"
proof -
  have "room f kind (offers_left f) = (\<Sum>k \<leftarrow> filter (\<lambda>k. d_kind (f_drivers f ! k) = kind) (live_drivers f). 8)"
    unfolding room_def
    by (intro arg_cong [of _ _ sum_list] map_cong) (auto simp: offers_left_getz [unfolded maxOffersPerRound_def])
  then show ?thesis by (simp add: sum_list_triv)
qed

lemma cycle_offers_law:
  fixes P tick f ring
  defines "go \<equiv> cycle_pips P tick (by_id f) ring"
  assumes ring: "set ring \<subseteq> set (live_drivers f)"
    and ids: "distinct (map (\<lambda>k. d_id (f_drivers f ! k)) (live_drivers f))"
  shows "same_fleet f (r_fleet r) \<Longrightarrow> (\<And>x. 0 \<le> getz (r_left r) x) \<Longrightarrow>
    (\<forall>x. 0 \<le> getz (r_left (go ps r)) x)
    \<and> int (published P (under_key kind) (r_log (go ps r))) + room f kind (r_left (go ps r))
      = int (published P (under_key kind) (r_log r)) + room f kind (r_left r)
    \<and> published P (with_body body) (r_log (go ps r)) \<le> published P (with_body body) (r_log r)
      + length (filter (\<lambda>p. fmlookup (by_id f) (GetEmployerWorkplaceId p) = None \<and> offer_of P tick (pip_id p) = Inr body) ps)"
  unfolding go_def
proof (induction ps arbitrary: r)
  case Nil
  then show ?case by simp
next
  case (Cons p ps)
  show ?case
  proof (cases "fmlookup (by_id f) (GetEmployerWorkplaceId p)")
    case (Some k)
    then have k: "k < length (f_drivers f)" "d_id (f_drivers f ! k) \<noteq> 0" using by_id_lookup live_drivers_lt by metis+
    note law = work_pip_law [where P = P and tick = tick and p = p, OF Cons.prems(1) k]
    have "published P Q (r_log (work_pip P tick p k r)) = published P Q (r_log r)" for Q
      using published_adds [OF adds_conj1 [OF law(4)]] .
    with Cons.IH [OF law(1)] Cons.prems(2) law(2) Some show ?thesis by simp
  next
    case None
    let ?r = "offer_pip P (pip_id p) tick ring r"
    have ks: "\<forall>k \<in> set ring. k < length (f_drivers f)" using ring live_drivers_lt by blast
    note law = offer_pip_law [OF Cons.prems(1) ks, of P "pip_id p" tick]
    consider (none) "r_left ?r = r_left r" "\<And>Q. published P Q (r_log ?r) = published P Q (r_log r)"
      | (one) k b where "k \<in> set ring" "0 < getz (r_left r) (d_id (f_drivers f ! k))" "offer_of P tick (pip_id p) = Inr b"
          "r_left ?r = subz (r_left r) (d_id (f_drivers f ! k)) 1"
          "\<And>Q. published P Q (r_log ?r) = published P Q (r_log r)
             + (if Q (Publish gw_exchange (offerPrefix @ d_kind (f_drivers f ! k)) b ''10000'') then 1 else 0)"
      using law by metis
    then show ?thesis
    proof cases
      case none
      with Cons.IH [of ?r] law Cons.prems(2) None show ?thesis by fastforce
    next
      case one
      have live: "k \<in> set (live_drivers f)" using ring one(1) by blast
      have nn: "0 \<le> getz (r_left ?r) x" for x using Cons.prems(2) [of x] one(2) by (auto simp: one(4) getz_subz)
      have keyed: "int (published P (under_key kind) (r_log ?r)) + room f kind (r_left ?r)
          = int (published P (under_key kind) (r_log r)) + room f kind (r_left r)"
        by (simp add: one(4,5) room_sub [OF ids live] under_key_def)
      have bodied: "published P (with_body body) (r_log ?r) \<le> published P (with_body body) (r_log r)
          + (if offer_of P tick (pip_id p) = Inr body then 1 else 0)"
        by (simp add: one(3,5) with_body_def)
      from Cons.IH [of ?r] law nn keyed bodied None show ?thesis by auto
    qed
  qed
qed

lemma pay_all_quiet: "adds (\<lambda>c. \<not> publish_call c) l (pay_all P g ws tick cs l)"
proof (induction ws arbitrary: l)
  case Nil
  then show ?case by simp
next
  case (Cons w ws)
  have "adds (\<lambda>c. \<not> publish_call c) l (Fleet_payWages P g w tick c l)" for c
    by (auto simp: Fleet_payWages_def ask_def adds_def Let_def split: sum.splits)
  then show ?case using Cons.IH by (auto intro: adds_trans)
qed

text \<open>In a list of distinct keys, a test only one of the keys can pass leaves at most that element.\<close>

lemma filter_one_key:
  assumes "distinct (map h xs)" "x \<in> set xs" "\<And>y. y \<in> set xs \<Longrightarrow> Q y \<Longrightarrow> h y = h x"
  shows "filter Q xs = (if Q x then [x] else [])"
  using assms
proof (induction xs)
  case Nil
  then show ?case by simp
next
  case (Cons a xs)
  show ?case
  proof (cases "x = a")
    case True
    have "\<not> Q y" if y: "y \<in> set xs" for y
    proof
      assume "Q y"
      with Cons.prems(3) [of y] y True have "h y = h a" by simp
      with y Cons.prems(1) show False by (auto simp: image_iff)
    qed
    with True show ?thesis by (simp add: filter_empty_conv)
  next
    case False
    then have x: "x \<in> set xs" using Cons.prems(2) by simp
    have "\<not> Q a" using Cons.prems(3) [of a] Cons.prems(1) x by (auto simp: image_iff)
    with Cons x show ?thesis by simp
  qed
qed

section \<open>The vocabulary of a cycle\<close>

text \<open>What holds of every call the loop over the pips can make holds of all it makes.\<close>

definition loop_vocabulary :: "u64 \<Rightarrow> (call \<Rightarrow> bool) \<Rightarrow> bool" where
  "loop_vocabulary tick Q \<longleftrightarrow> Q ReadClock \<and> (\<forall>e k b x. Q (Publish e k b x)) \<and> (\<forall>a v p. Q (CallWork a v p tick))
     \<and> (\<forall>a v p t why. Q (CallEndShift a v p t why)) \<and> (\<forall>p. Q (SubmitIntent (EndEmployment p)))
     \<and> (\<forall>p ds. Q (SubmitIntent (ApplyNeeds p ds)))"

lemma clock_adds: "adds clock_call a b \<Longrightarrow> Q ReadClock \<Longrightarrow> adds Q a b"
  by (erule adds_mono) (simp add: clock_call_def)

lemma offer_pip_adds:
  assumes "loop_vocabulary tick Q"
  shows "adds Q (r_log r) (r_log (offer_pip P pip t ks r))"
proof (induction ks arbitrary: r)
  case (Cons k ks)
  let ?d = "f_drivers (r_fleet r) ! k"
  obtain sent d1 l1 where o: "Driver_offer P ?d pip t (r_log r) = (sent, d1, l1)" by (metis prod_cases3)
  let ?r1 = "r\<lparr>r_fleet := set_driver k d1 (r_fleet r), r_log := l1\<rparr>"
  note Q = assms [unfolded loop_vocabulary_def]
  from o have "adds Q (r_log r) l1"
  proof (cases rule: offer_says)
    case silent
    with Q clock_adds show ?thesis by blast
  next
    case (spoke l2 body)
    have "adds Q (r_log r) l2" using spoke(1) Q clock_adds by blast
    moreover have "adds Q l2 l1" unfolding spoke(5) by (rule adds_one) (use Q in blast)
    ultimately show ?thesis by (rule adds_trans)
  qed
  with Cons [of r] Cons [of ?r1] o show ?case by (auto simp: Let_def intro: adds_trans)
qed simp

lemma work_pip_adds:
  assumes "loop_vocabulary tick Q"
  shows "adds Q (r_log r) (r_log (work_pip P tick p k r))"
proof -
  let ?d = "f_drivers (r_fleet r) ! k"
  obtain ok wage d1 l1 where w: "Driver_work P ?d (pip_id p) tick (GetInsideWorkplaceId p = d_id ?d) (r_log r) = ((ok, wage), d1, l1)"
    by (metis surj_pair)
  then have "adds Q (r_log r) l1"
    using assms by (auto simp: Driver_work_def Driver_endShift_def ask_def adds_def loop_vocabulary_def split: sum.splits if_splits)
  with w show ?thesis by (simp add: work_pip_def Let_def)
qed

lemma cycle_pips_adds:
  assumes "loop_vocabulary tick Q"
  shows "adds Q (r_log r) (r_log (cycle_pips P tick byID ring ps r))"
proof (induction ps arbitrary: r)
  case (Cons p ps)
  let ?r = "case fmlookup byID (GetEmployerWorkplaceId p) of Some k \<Rightarrow> work_pip P tick p k r
      | None \<Rightarrow> offer_pip P (pip_id p) tick ring r"
  have "adds Q (r_log r) (r_log ?r)"
    by (simp add: offer_pip_adds [OF assms] work_pip_adds [OF assms] split: option.split)
  from adds_trans [OF this Cons [of ?r]] show ?case by simp
qed simp

end
