(* ===== verification/FleetProps.thy ===== *)
theory FleetProps
  imports FleetFacts
begin

text \<open>
  The properties of the gateway's economy: what a cycle pays and offers, employment, purchases,
  endowment, and what happens when a peer fails or the world restarts. Peers are arbitrary functions of
  the calls made, unless a property says otherwise.
\<close>

section \<open>A concrete surrounding\<close>

text \<open>A world of two pips at work in building 1 and one without work, a building that pays 60 a call, a bank
  and a broker that take everything; ids are printed as the broker's messages.\<close>

definition pip_at_work :: "u64 \<Rightarrow> Pip" where
  "pip_at_work i = \<lparr>pip_id = i, pip_employer = Some 1, pip_inside = Some 1, pip_balance = 100\<rparr>"

definition pip_idle :: "u64 \<Rightarrow> Pip" where
  "pip_idle i = \<lparr>pip_id = i, pip_employer = None, pip_inside = None, pip_balance = 100\<rparr>"

definition calm :: "Pip list \<Rightarrow> peers" where
  "calm pips = \<lparr>clock_reads = (\<lambda>_. 0),
     sim_Snapshot = (\<lambda>_. Inr \<lparr>snap_tick = 5, snap_pips = pips, snap_workplaces = [], snap_structures = []\<rparr>),
     sim_SubmitIntent = (\<lambda>_. Inr (True, [])),
     wp_List = (\<lambda>_. Inr []), wp_Describe = (\<lambda>_. Inl (CodeUnavailable, [])),
     wp_Work = (\<lambda>_. Inr (no_work\<lparr>wr_Wage := 60\<rparr>)), wp_EndShift = (\<lambda>_. Inr ()),
     wp_Buy = (\<lambda>_. Inr \<lparr>br_Ok = True, br_Reason = [], br_Price = 50\<rparr>),
     bank_BatchTransfer = (\<lambda>_. Inr \<lparr>OK = True, Reason = [], PayerBalance = 0\<rparr>),
     bank_Transfer = (\<lambda>_. Inr \<lparr>OK = True, Reason = [], PayerBalance = 0\<rparr>),
     bank_GetBalance = (\<lambda>_. Inr 0),
     amqp_Publish = (\<lambda>_. None), marshal_work_offer = (\<lambda>m. Inr (FormatUint (wo_PipId m))),
     map_order = (\<lambda>_ ks. sorted_list_of_set (fset ks))\<rparr>"

lemma calm_walks: "walks_maps (calm pips)"
  by (simp add: calm_def walks_maps_def)

lemma calm_sel [simp]: "clock_reads (calm pips) l = 0" "amqp_Publish (calm pips) l = None"
  "sim_SubmitIntent (calm pips) l = Inr (True, [])" "offer_of (calm pips) t q = Inr (FormatUint q)"
  by (simp_all add: calm_def offer_of_def)

definition one_farm_fleet :: Fleet where
  "one_farm_fleet = NewFleet True [NewDriverFor ''farm:8090'' fmempty 1 ''farm'']"

lemma one_farm_live: "live_drivers one_farm_fleet = [0]"
  by (simp add: live_drivers_def one_farm_fleet_def NewFleet_def NewDriverFor_def NewDriver_def)

lemmas run_defs = Fleet_cycle_def live_drivers_def by_id_def rotation_def offers_left_def syncEmployment_def
  Driver_work_def Driver_offer_def Publisher_Offer_def work_pip_def set_driver_def ask_def employed_by_def get_optional_def
  Fleet_payWages_def pay_list_def payroll_def Let_def
lemmas calm_defs = calm_def one_farm_fleet_def NewFleet_def NewDriverFor_def NewDriver_def pip_at_work_def pip_idle_def no_work_def

lemma calm_cycle:
  "snd (snd (Fleet_cycle (calm [pip_at_work 7, pip_idle 8]) one_farm_fleet [])) =
    [Snapshot, CallWork ''farm:8090'' 1 7 5, ReadClock,
     Publish gw_exchange (offerPrefix @ ''farm'') (FormatUint 8) ''10000'',
     CallBatchTransfer (payroll 1 5 [(7, 60)]),
     SubmitIntent (CreditBalances (workplaceAccount 1) [(7, 60)] 5)]"
  by (simp add: run_defs calm_defs maxOffersPerRound_def getz_def word_sless_alt)

section \<open>Payroll\<close>

text \<open>
  C4: A cycle pays what was earned and nothing else. Every payroll it sends to the bank is of one building,
  as wages of the snapshot's tick, and every credit in it is a positive wage that this building answered,
  earlier in this cycle, for a pip the snapshot shows employed by it and inside it. sim-core is told of
  a payroll only right after the bank booked it, with the same payer, pips, amounts and tick. The cycle
  moves no other money, and without a snapshot or a building it does nothing at all.
\<close>

theorem cycle_pays_what_was_earned:
  assumes "walks_maps P" and run: "Fleet_cycle P f l = (res, f', l')"
    and j: "length l \<le> j" "j < length l'"
    and snap: "sim_Snapshot P (l @ [Snapshot]) = Inr snap"
  shows "pay_entry_ok P (snap_pips snap) (snap_tick snap) (length l) l' j"
proof (cases "live_drivers f = []")
  case True
  then have "l' = l @ [Snapshot]" using Fleet_cycle_idle run by (metis snd_conv)
  moreover have "adds (\<lambda>c. \<not> money_call c) l (l @ [Snapshot])" by (rule adds_one) simp
  ultimately show ?thesis using pay_entry_quiet j by blast
next
  case False
  from run snap False show ?thesis
  proof (cases rule: Fleet_cycle_runs)
    case (1 f2 l2 r)
    note quiet = cycle_before_pay [OF 1(1,2)]
    have "earned P (snap_pips snap) (snap_tick snap) (length l) (r_log r) w pip a"
      if "fmlookup (r_credits r) w = Some c" "fmlookup c pip = Some a" for w c pip a
      using quiet(2) that by (simp add: owed_ok_def)
    from pay_all_entries [where cs = "r_credits r", OF assms(1) this]
    have pay: "adds (\<lambda>_. True) (r_log r) l'" "length (r_log r) \<le> j \<Longrightarrow> pay_entry_ok P (snap_pips snap) (snap_tick snap) (length l) l' j"
      using 1(4) j(2) by auto
    then obtain ext where ext: "l' = r_log r @ ext" by (auto simp: adds_def)
    show ?thesis
    proof (cases "j < length (r_log r)")
      case True
      with pay_entry_quiet [OF quiet(3) j(1)] pay_entry_app ext show ?thesis by metis
    qed (use pay(2) in simp)
  qed
qed

theorem cycle_pays_what_was_earned_witness:
  "pay_entry_ok (calm [pip_at_work 7, pip_idle 8]) [pip_at_work 7, pip_idle 8] 5 0
     (snd (snd (Fleet_cycle (calm [pip_at_work 7, pip_idle 8]) one_farm_fleet []))) 4"
proof -
  let ?P = "calm [pip_at_work 7, pip_idle 8]"
  obtain r f' l' where run: "Fleet_cycle ?P one_farm_fleet [] = (r, f', l')" by (metis prod_cases3)
  have snap: "sim_Snapshot ?P ([] @ [Snapshot]) =
      Inr \<lparr>snap_tick = 5, snap_pips = [pip_at_work 7, pip_idle 8], snap_workplaces = [], snap_structures = []\<rparr>"
    by (simp add: calm_def)
  have len: "4 < length l'" using calm_cycle run by simp
  from cycle_pays_what_was_earned [OF calm_walks run _ len snap] show ?thesis by (simp add: run)
qed

section \<open>Offers\<close>

text \<open>
  C11: Offers of a round are bounded. In one cycle the broker takes at most eight offers per building of a
  kind, at most one offer of each pip that no building of this gateway employs, and none of a pip that is
  employed, whatever the broker refuses and whichever offers are still pending.
\<close>

theorem cycle_offers_bounded:
  assumes run: "Fleet_cycle P f l = (res, f', l')" and walks: "walks_maps P"
    and snap: "sim_Snapshot P (l @ [Snapshot]) = Inr snap"
    and ids: "distinct (map (\<lambda>k. d_id (f_drivers f ! k)) (live_drivers f))"
    and pips: "distinct (map pip_id (snap_pips snap))" "p \<in> set (snap_pips snap)"
    and coded: "offer_of P (snap_tick snap) (pip_id p) = Inr body"
      "\<And>q. offer_of P (snap_tick snap) q = Inr body \<Longrightarrow> q = pip_id p"
  shows "published P (under_key kind) l' \<le> published P (under_key kind) l
      + 8 * length (filter (\<lambda>k. d_kind (f_drivers f ! k) = kind) (live_drivers f))
    \<and> published P (with_body body) l' \<le> published P (with_body body) l
      + (if \<exists>k \<in> set (live_drivers f). d_id (f_drivers f ! k) = GetEmployerWorkplaceId p then 0 else 1)"
proof (cases "live_drivers f = []")
  case True
  then have "l' = l @ [Snapshot]" using Fleet_cycle_idle run by (metis snd_conv)
  then show ?thesis by (simp add: published_snoc)
next
  case False
  from run snap False show ?thesis
  proof (cases rule: Fleet_cycle_runs)
    case (1 f2 l2 r)
    let ?f3 = "f2\<lparr>f_next := Suc (f_next f2)\<rparr>" and ?n = "length (filter (\<lambda>k. d_kind (f_drivers f ! k) = kind) (live_drivers f))"
    note sync = sync_all_says [OF 1(1) same_fleet_refl]
    have sf: "same_fleet f ?f3" using sync by simp
    have start: "published P Q l2 = published P Q l" for Q
      using published_adds [OF adds_conj1 [OF conjunct2 [OF conjunct2 [OF sync]]]] by (simp add: published_snoc)
    have room: "room f kind (offers_left ?f3) = 8 * int ?n"
      by (simp only: same_fleet_offers_left [OF sf] room_offers_left)
    have law: "(\<forall>x. 0 \<le> getz (r_left r) x)
      \<and> int (published P (under_key kind) (r_log r)) + room f kind (r_left r) = int (published P (under_key kind) l) + 8 * int ?n
      \<and> published P (with_body body) (r_log r) \<le> published P (with_body body) l + length (filter (\<lambda>q.
          fmlookup (by_id f) (GetEmployerWorkplaceId q) = None \<and> offer_of P (snap_tick snap) (pip_id q) = Inr body) (snap_pips snap))"
      using cycle_offers_law [where P = P and tick = "snap_tick snap" and ps = "snap_pips snap"
          and kind = kind and body = body and ring = "rotation (f_next f2) (live_drivers f)"
          and r = "\<lparr>r_fleet = ?f3, r_left = offers_left ?f3, r_credits = fmempty, r_log = l2\<rparr>", OF rotation_set ids]
        sf offers_left_nonneg start room by (simp add: 1(2) [symmetric])
    have none: "0 \<le> room f kind (r_left r)" unfolding room_def by (rule sum_list_nonneg) (use law in auto)
    have pay: "published P Q l' = published P Q (r_log r)" for Q
      unfolding 1(4) by (rule published_adds [OF pay_all_quiet])
    have "\<And>q. fmlookup (by_id f) (GetEmployerWorkplaceId q) = None \<and> offer_of P (snap_tick snap) (pip_id q) = Inr body
        \<Longrightarrow> pip_id q = pip_id p" using coded(2) by blast
    from filter_one_key [OF pips this] coded(1)
    have one: "filter (\<lambda>q. fmlookup (by_id f) (GetEmployerWorkplaceId q) = None \<and> offer_of P (snap_tick snap) (pip_id q) = Inr body) (snap_pips snap)
        = (if fmlookup (by_id f) (GetEmployerWorkplaceId p) = None then [p] else [])" by simp
    have "(\<exists>k \<in> set (live_drivers f). d_id (f_drivers f ! k) = GetEmployerWorkplaceId p) \<longleftrightarrow> fmlookup (by_id f) (GetEmployerWorkplaceId p) \<noteq> None"
      unfolding by_id_none [of f "GetEmployerWorkplaceId p"] by blast
    then show ?thesis using law none one unfolding pay by auto
  qed
qed

theorem cycle_offers_bounded_witness:
  "published (calm [pip_at_work 7, pip_idle 8]) (with_body (FormatUint 8))
     (snd (snd (Fleet_cycle (calm [pip_at_work 7, pip_idle 8]) one_farm_fleet []))) \<le> 1"
proof -
  let ?P = "calm [pip_at_work 7, pip_idle 8]"
    and ?s = "\<lparr>snap_tick = 5, snap_pips = [pip_at_work 7, pip_idle 8], snap_workplaces = [], snap_structures = []\<rparr>"
  obtain r f' l' where run: "Fleet_cycle ?P one_farm_fleet [] = (r, f', l')" by (metis prod_cases3)
  have snap: "sim_Snapshot ?P ([] @ [Snapshot]) = Inr ?s" by (simp add: calm_def)
  have pips: "distinct (map pip_id (snap_pips ?s))" "pip_idle 8 \<in> set (snap_pips ?s)"
    by (simp_all add: pip_at_work_def pip_idle_def)
  have code: "offer_of ?P (snap_tick ?s) q = Inr (FormatUint q)" for q by (simp add: offer_of_def calm_def)
  have "published ?P (with_body (FormatUint 8)) l' \<le> published ?P (with_body (FormatUint 8)) []
      + (if \<exists>k \<in> set (live_drivers one_farm_fleet). d_id (f_drivers one_farm_fleet ! k) = GetEmployerWorkplaceId (pip_idle 8) then 0 else 1)"
    by (rule conjunct2 [OF cycle_offers_bounded [OF run calm_walks snap _ pips]])
       (simp_all only: code, simp_all add: one_farm_live pip_idle_def)
  also have "\<dots> \<le> 1" by (simp add: published_def)
  finally show ?thesis by (simp add: run)
qed

text \<open>
  An offer is pending with one building only, so it does not stop the next one. A pip that is still
  waiting for the answer to its offer to one building of a kind is offered again, under the same routing
  key and so into the same queue, by the next building in rotation: with two farms a pip is in the farm
  queue twice after two rounds.
\<close>

theorem pending_offer_repeated:
  assumes a: "d_kind (f_drivers (r_fleet r) ! a) = kind" "fmlookup (d_pending (f_drivers (r_fleet r) ! a)) pip = Some since"
      "\<And>l'. time_sub (clock_reads P l') since < offerPatience"
    and b: "d_kind (f_drivers (r_fleet r) ! b) = kind" "fmlookup (d_pending (f_drivers (r_fleet r) ! b)) pip = None"
      "0 < getz (r_left r) (d_id (f_drivers (r_fleet r) ! b))"
    and kind: "kind \<noteq> []" "a \<noteq> b"
    and body: "offer_of P tick pip = Inr body" and broker: "\<And>l'. amqp_Publish P l' = None"
  shows "published P (under_key kind) (r_log (offer_pip P pip tick [a, b] r)) = published P (under_key kind) (r_log r) + 1
    \<and> published P (with_body body) (r_log (offer_pip P pip tick [a, b] r)) = published P (with_body body) (r_log r) + 1"
proof -
  let ?da = "f_drivers (r_fleet r) ! a" and ?db = "f_drivers (r_fleet r) ! b"
  have first: "Driver_offer P ?da pip tick l = (False, ?da, l @ [ReadClock])" for l
    using a kind by (simp add: Driver_offer_def ask_def)
  have second: "Driver_offer P ?db pip tick l = (True, ?db\<lparr>d_pending := fmupd pip (clock_reads P (l @ [ReadClock])) (d_pending ?db)\<rparr>,
      l @ [ReadClock, Publish gw_exchange (offerPrefix @ kind) body ''10000''])" for l
    using b kind body broker by (simp add: Driver_offer_def ask_def Publisher_Offer_def offer_of_def Let_def)
  have same: "f_drivers (set_driver a ?da (r_fleet r)) = f_drivers (r_fleet r)" by (simp add: set_driver_def)
  have quiet: "published P Q (r_log r @ [ReadClock, ReadClock]) = published P Q (r_log r)"
    "published P Q (r_log r @ [ReadClock]) = published P Q (r_log r)" for Q
    by (rule published_adds; simp add: adds_def)+
  obtain pre where pre: "r_log (offer_pip P pip tick [a, b] r) = pre @ [Publish gw_exchange (offerPrefix @ kind) body ''10000'']"
    "\<And>Q. published P Q pre = published P Q (r_log r)"
  proof (cases "getz (r_left r) (d_id ?da) \<le> 0")
    case True
    with b(3) second [of "r_log r"] show ?thesis by (intro that [of "r_log r @ [ReadClock]"]) (simp_all add: quiet Let_def)
  next
    case False
    with b(3) first [of "r_log r"] second [of "r_log r @ [ReadClock]"] same show ?thesis
      by (intro that [of "r_log r @ [ReadClock, ReadClock]"]) (simp_all add: quiet Let_def)
  qed
  then show ?thesis using broker by (simp add: published_snoc under_key_def with_body_def)
qed

lemma ffilter_empty_one: "\<not> Q x \<Longrightarrow> ffilter Q {|x|} = {||}"
  by auto

definition two_farms_fleet :: Fleet where
  "two_farms_fleet = NewFleet True [NewDriverFor ''farm:8090'' fmempty 1 ''farm'', NewDriverFor ''farm:8090'' fmempty 2 ''farm'']"

theorem pending_offer_repeated_witness:
  "let P = calm [pip_idle 8]; f = fst (snd (Fleet_cycle P two_farms_fleet []));
       r = \<lparr>r_fleet = f, r_left = offers_left f, r_credits = fmempty, r_log = []\<rparr>
   in published P (with_body (FormatUint 8)) (r_log (offer_pip P 8 6 [0, 1] r)) = 1"
proof -
  let ?P = "calm [pip_idle 8]"
  let ?f = "fst (snd (Fleet_cycle ?P two_farms_fleet []))"
  have ds: "f_drivers ?f = [(NewDriverFor ''farm:8090'' fmempty 1 ''farm'')\<lparr>d_pending := fmupd 8 0 fmempty\<rparr>,
      NewDriverFor ''farm:8090'' fmempty 2 ''farm'']"
    by (simp add: run_defs calm_defs two_farms_fleet_def maxOffersPerRound_def getz_def ffilter_empty_one)
  let ?r = "\<lparr>r_fleet = ?f, r_left = offers_left ?f, r_credits = fmempty, r_log = []\<rparr>"
  have left: "0 < getz (offers_left ?f) 2"
    using offers_left_getz [of 1 ?f] by (simp add: live_drivers_def ds NewDriverFor_def NewDriver_def maxOffersPerRound_def)
  have "published ?P (with_body (FormatUint 8)) (r_log (offer_pip ?P 8 6 [0, 1] ?r)) =
      published ?P (with_body (FormatUint 8)) (r_log ?r) + 1"
    by (rule conjunct2 [OF pending_offer_repeated [where kind = "''farm''" and since = 0]])
       (use left in \<open>simp_all add: ds NewDriverFor_def NewDriver_def time_sub_def offerPatience_def\<close>)
  also have "\<dots> = 1" by (simp add: published_def)
  finally show ?thesis unfolding Let_def .
qed

section \<open>Employment\<close>

definition recent :: "int \<Rightarrow> (u64, int) fmap \<Rightarrow> u64 \<Rightarrow> bool" where
  "recent now hired pip \<longleftrightarrow> (\<exists>at. fmlookup hired pip = Some at \<and> time_sub now at \<le> hireGrace)"

lemma grace_loop_spec:
  assumes clock: "\<And>l. clock_reads P l = now" and "distinct ps"
  shows "grace_loop P ps hired employed l = (hired', employed', l') \<Longrightarrow>
    (\<forall>p. fmlookup hired' p = (if p \<in> set ps \<and> \<not> recent now hired p then None else fmlookup hired p))
    \<and> (\<forall>p. p |\<in>| employed' \<longleftrightarrow> p |\<in>| employed \<or> p \<in> set ps \<and> recent now hired p)"
  using assms(2)
proof (induction ps arbitrary: hired employed l)
  case Nil
  then show ?case by simp
next
  case (Cons p ps)
  have p: "p \<notin> set ps" "distinct ps" using Cons.prems(2) by auto
  show ?case
  proof (cases "fmlookup hired p")
    case None
    with Cons.IH [OF _ p(2)] Cons.prems(1) show ?thesis by (fastforce simp: recent_def)
  next
    case (Some t)
    show ?thesis
    proof (cases "recent now hired p")
      case True
      then have "grace_loop P ps hired (finsert p employed) (l @ [ReadClock]) = (hired', employed', l')"
        using Cons.prems(1) Some by (simp add: ask_def clock recent_def not_less)
      from Cons.IH [OF this p(2)] True show ?thesis by auto
    next
      case False
      then have "grace_loop P ps (fmdrop p hired) employed (l @ [ReadClock]) = (hired', employed', l')"
        using Cons.prems(1) Some by (simp add: ask_def clock recent_def not_le)
      from Cons.IH [OF this p(2)] p(1) False show ?thesis by (auto simp: recent_def)
    qed
  qed
qed

text \<open>
  C24: What a driver believes after looking at the snapshot: exactly the pips sim-core says it employs and
  those it hired within the grace, which are not forgotten even if the snapshot does not show them yet.
  It lets go of exactly the others it believed in, each once.
\<close>

theorem syncEmployment_believes:
  assumes "walks_maps P" and clock: "\<And>l. clock_reads P l = now"
    and run: "syncEmployment P d employed l = (gone, d', l')"
  shows "(\<forall>p. p |\<in>| d_employed d' \<longleftrightarrow> p |\<in>| employed \<or> recent now (d_hiredAt d) p)
    \<and> (\<forall>p. p \<in> set gone \<longleftrightarrow> p |\<in>| d_employed d \<and> p |\<notin>| employed \<and> \<not> recent now (d_hiredAt d) p) \<and> distinct gone
    \<and> (\<forall>p. fmlookup (d_hiredAt d') p = (if recent now (d_hiredAt d) p then fmlookup (d_hiredAt d) p else None))"
proof -
  let ?ps = "map_order P l (fmdom (d_hiredAt d))"
  obtain hired e1 l1 where g: "grace_loop P ?ps (d_hiredAt d) employed l = (hired, e1, l1)" by (metis prod_cases3)
  have ps: "distinct ?ps" "set ?ps = fset (fmdom (d_hiredAt d))" using assms(1) by (simp_all add: walks_maps_def)
  have in_ps: "recent now (d_hiredAt d) p \<Longrightarrow> p \<in> set ?ps" for p using ps(2) by (auto simp: recent_def fmlookup_dom_iff)
  have out_ps: "p \<notin> set ?ps \<Longrightarrow> fmlookup (d_hiredAt d) p = None" for p using ps(2) by (auto simp: fmdom_notD)
  note spec = grace_loop_spec [OF clock ps(1) g]
  have "d_employed d' = e1" "d_hiredAt d' = hired" "gone = filter (\<lambda>p. p |\<notin>| e1) (map_order P l1 (d_employed d))"
    using run g by (auto simp: syncEmployment_def)
  moreover have "distinct (map_order P l1 (d_employed d))" "set (map_order P l1 (d_employed d)) = fset (d_employed d)"
    using assms(1) by (simp_all add: walks_maps_def)
  ultimately show ?thesis using spec in_ps out_ps by auto
qed

theorem syncEmployment_believes_witness:
  "(\<forall>p. p |\<in>| d_employed (fst (snd (syncEmployment (calm []) ((NewDriver [] fmempty)\<lparr>d_employed := {|7, 8|}, d_hiredAt := fmupd 8 0 fmempty\<rparr>) {|9|} [])))
      \<longleftrightarrow> p = 9 \<or> p = 8)"
proof -
  let ?d = "(NewDriver [] fmempty)\<lparr>d_employed := {|7, 8|}, d_hiredAt := fmupd 8 0 fmempty\<rparr>"
  obtain gone d' l' where run: "syncEmployment (calm []) ?d {|9|} [] = (gone, d', l')" by (metis prod_cases3)
  have clock: "clock_reads (calm []) l = 0" for l by (simp add: calm_def)
  from syncEmployment_believes [OF calm_walks clock run] show ?thesis
    by (auto simp: run recent_def time_sub_def hireGrace_def split: if_splits)
qed

end
