(* ===== verification/EconomyProps.thy ===== *)
theory EconomyProps
  imports FleetProps BankProps
begin

text \<open>
  Where the economy meets sim-core and the bank: a pip that changes its employer, a payroll after the
  world restarted, endowment against the bank's own ledger, purchases and registration.
\<close>

section \<open>A pip that moves to another building\<close>

lemma grace_loop_only:
  "grace_loop P ps hired employed l = (hired', employed', l') \<Longrightarrow> p |\<in>| employed' \<Longrightarrow> p |\<in>| employed \<or> fmlookup hired p \<noteq> None"
proof (induction ps arbitrary: hired employed l)
  case Nil
  then show ?case by simp
next
  case (Cons a ps)
  then show ?case by (fastforce simp: ask_def split: option.splits if_splits)
qed

lemma end_shifts_mem:
  "end_shifts P k tick ps (g, l) = (g', l') \<Longrightarrow> (\<forall>p \<in> set ps. SubmitIntent (EndEmployment p) \<in> set l') \<and> set l \<subseteq> set l'
    \<and> (\<forall>i. i \<noteq> k \<longrightarrow> f_drivers g' ! i = f_drivers g ! i)"
proof (induction ps arbitrary: g l)
  case Nil
  then show ?case by simp
next
  case (Cons p ps)
  obtain d l1 where e: "Driver_endShift P (f_drivers g ! k) p tick ''no longer employed here'' l = (d, l1)" by fastforce
  from Cons.prems e have "end_shifts P k tick ps (set_driver k d g, l1) = (g', l')" by simp
  from Cons.IH [OF this] endShift_says [OF e] show ?case by (auto simp: set_driver_def)
qed

lemma sync_all_lets_go:
  assumes "walks_maps P"
  shows "sync_all P pips tick ks (g, l) = (g', l') \<Longrightarrow> distinct ks \<Longrightarrow> set l \<subseteq> set l' \<and>
    (k \<in> set ks \<longrightarrow> p |\<in>| d_employed (f_drivers g ! k) \<longrightarrow> fmlookup (d_hiredAt (f_drivers g ! k)) p = None \<longrightarrow>
      p |\<notin>| employed_by pips (d_id (f_drivers g ! k)) \<longrightarrow> SubmitIntent (EndEmployment p) \<in> set l')"
proof (induction ks arbitrary: g l)
  case Nil
  then show ?case by simp
next
  case (Cons i ks)
  let ?d = "f_drivers g ! i" and ?e = "employed_by pips (d_id (f_drivers g ! i))"
  obtain hired e1 l0 where gl: "grace_loop P (map_order P l (fmdom (d_hiredAt ?d))) (d_hiredAt ?d) ?e l = (hired, e1, l0)"
    by (metis prod_cases3)
  let ?gone = "filter (\<lambda>pip. pip |\<notin>| e1) (map_order P l0 (d_employed ?d))" and ?d1 = "?d\<lparr>d_hiredAt := hired, d_employed := e1\<rparr>"
  have s: "syncEmployment P ?d ?e l = (?gone, ?d1, l0)" by (simp add: syncEmployment_def gl)
  obtain g2 l2 where es: "end_shifts P i tick ?gone (set_driver i ?d1 g, l0) = (g2, l2)" by fastforce
  note mem = end_shifts_mem [OF es]
  have rest: "sync_all P pips tick ks (g2, l2) = (g', l')" using Cons.prems(1) s es by simp
  note IH = Cons.IH [OF rest]
  have l0: "set l \<subseteq> set l0" using syncEmployment_says(1) [OF s] by (auto simp: adds_def)
  show ?case
  proof (cases "k = i")
    case True
    have "p \<in> set ?gone" if "p |\<in>| d_employed ?d" "fmlookup (d_hiredAt ?d) p = None" "p |\<notin>| ?e"
      using grace_loop_only [OF gl, of p] that assms by (auto simp: walks_maps_def)
    with IH Cons.prems(2) mem l0 True show ?thesis by auto
  next
    case False
    then have "f_drivers g2 ! k = f_drivers g ! k" using mem by (simp add: set_driver_def)
    with IH Cons.prems(2) mem l0 False show ?thesis by auto
  qed
qed

lemma cycle_pips_works:
  fixes P tick f ring
  assumes ring: "set ring \<subseteq> set (live_drivers f)"
  shows "same_fleet f (r_fleet r) \<Longrightarrow> set (r_log r) \<subseteq> set (r_log (cycle_pips P tick (by_id f) ring ps r)) \<and>
    (p \<in> set ps \<longrightarrow> fmlookup (by_id f) (GetEmployerWorkplaceId p) \<noteq> None \<longrightarrow>
      (\<exists>addr. CallWork addr (GetEmployerWorkplaceId p) (pip_id p) tick \<in> set (r_log (cycle_pips P tick (by_id f) ring ps r))))"
proof (induction ps arbitrary: r)
  case Nil
  then show ?case by simp
next
  case (Cons q ps)
  show ?case
  proof (cases "fmlookup (by_id f) (GetEmployerWorkplaceId q)")
    case None
    have ks: "\<forall>k \<in> set ring. k < length (f_drivers f)" using ring live_drivers_lt by blast
    note law = offer_pip_law [OF Cons.prems ks, of P "pip_id q" tick]
    then have "set (r_log r) \<subseteq> set (r_log (offer_pip P (pip_id q) tick ring r))" by (auto simp: adds_def)
    with Cons.IH [of "offer_pip P (pip_id q) tick ring r"] law None show ?thesis by auto
  next
    case (Some k)
    then have k: "k < length (f_drivers f)" "d_id (f_drivers f ! k) \<noteq> 0" "GetEmployerWorkplaceId q = d_id (f_drivers f ! k)"
      using by_id_lookup live_drivers_lt by metis+
    note law = work_pip_law [where P = P and tick = tick and p = q, OF Cons.prems k(1,2)]
    let ?d = "f_drivers (r_fleet r) ! k"
    have id: "d_id ?d = GetEmployerWorkplaceId q" using same_fleet_nth [OF Cons.prems k(1)] k(3) by (simp add: same_building_def)
    obtain ok wage d1 l1 where w: "Driver_work P ?d (pip_id q) tick (GetInsideWorkplaceId q = d_id ?d) (r_log r) = ((ok, wage), d1, l1)"
      by (metis surj_pair)
    have "r_log (work_pip P tick q k r) = l1" using w by (simp add: work_pip_def Let_def)
    then have "CallWork (d_addr ?d) (GetEmployerWorkplaceId q) (pip_id q) tick \<in> set (r_log (work_pip P tick q k r))"
      using work_says(4) [OF w] id by auto
    moreover have "set (r_log r) \<subseteq> set (r_log (work_pip P tick q k r))" using law(4) by (auto simp: adds_def)
    moreover have "cycle_pips P tick (by_id f) ring (q # ps) r = cycle_pips P tick (by_id f) ring ps (work_pip P tick q k r)"
      using Some by simp
    ultimately show ?thesis using Cons.IH [OF law(1)] by auto
  qed
qed

text \<open>
  C32: A pip that has moved to another building is let go by it. When sim-core shows a pip employed by one
  building and the driver of another still believes in it, the cycle ends that belief with an intent
  which names the pip alone, although in the same cycle it works the pip's shift in its new building.
\<close>

theorem moved_pip_is_let_go:
  assumes run: "Fleet_cycle P f l = (res, f', l')" and walks: "walks_maps P"
    and snap: "sim_Snapshot P (l @ [Snapshot]) = Inr snap"
    and p: "p \<in> set (snap_pips snap)" "distinct (map pip_id (snap_pips snap))"
    and old: "a \<in> set (live_drivers f)" "pip_id p |\<in>| d_employed (f_drivers f ! a)"
      "fmlookup (d_hiredAt (f_drivers f ! a)) (pip_id p) = None"
    and new: "b \<in> set (live_drivers f)" "d_id (f_drivers f ! b) = GetEmployerWorkplaceId p" "d_id (f_drivers f ! a) \<noteq> d_id (f_drivers f ! b)"
  shows "SubmitIntent (EndEmployment (pip_id p)) \<in> set l'
    \<and> (\<exists>addr. CallWork addr (GetEmployerWorkplaceId p) (pip_id p) (snap_tick snap) \<in> set l')"
proof -
  have "live_drivers f \<noteq> []" using old(1) by auto
  from run snap this show ?thesis
  proof (cases rule: Fleet_cycle_runs)
    case (1 f2 l2 r)
    let ?f3 = "f2\<lparr>f_next := Suc (f_next f2)\<rparr>"
    have "pip_id p |\<notin>| employed_by (snap_pips snap) (d_id (f_drivers f ! a))"
    proof
      assume "pip_id p |\<in>| employed_by (snap_pips snap) (d_id (f_drivers f ! a))"
      then obtain q where q: "q \<in> set (snap_pips snap)" "pip_id q = pip_id p" "GetEmployerWorkplaceId q = d_id (f_drivers f ! a)"
        by (auto simp: employed_by_def fset_of_list_elem)
      then have "q = p" using p by (auto simp: distinct_map inj_on_def)
      with q(3) new show False by simp
    qed
    moreover have "distinct (live_drivers f)" by (simp add: live_drivers_def)
    ultimately have fired: "SubmitIntent (EndEmployment (pip_id p)) \<in> set l2"
      using sync_all_lets_go [OF walks 1(1), of a "pip_id p"] old by auto
    have sf: "same_fleet f ?f3" using sync_all_says [OF 1(1) same_fleet_refl] by simp
    have "fmlookup (by_id f) (GetEmployerWorkplaceId p) \<noteq> None" using new by (auto simp: by_id_none)
    with cycle_pips_works [where f = f and P = P and tick = "snap_tick snap" and ring = "rotation (f_next f2) (live_drivers f)"
        and r = "\<lparr>r_fleet = ?f3, r_left = offers_left ?f3, r_credits = fmempty, r_log = l2\<rparr>"
        and ps = "snap_pips snap" and p = p, OF rotation_set] sf p(1)
    have "set l2 \<subseteq> set (r_log r)" "\<exists>addr. CallWork addr (GetEmployerWorkplaceId p) (pip_id p) (snap_tick snap) \<in> set (r_log r)"
      by (auto simp: 1(2))
    moreover have "set (r_log r) \<subseteq> set l'" unfolding 1(4)
      using pay_all_quiet [of "r_log r" P "r_fleet r" "map_order P (r_log r) (fmdom (r_credits r))" "snap_tick snap" "r_credits r"]
      by (auto simp: adds_def)
    ultimately show ?thesis using fired by blast
  qed
qed

theorem moved_pip_is_let_go_witness:
  "let pip = \<lparr>pip_id = 8, pip_employer = Some 2, pip_inside = None, pip_balance = 0\<rparr>;
       f = NewFleet True [(NewDriverFor ''farm:8090'' fmempty 1 ''farm'')\<lparr>d_employed := {|8|}\<rparr>, NewDriverFor ''farm:8090'' fmempty 2 ''farm'']
   in SubmitIntent (EndEmployment 8) \<in> set (snd (snd (Fleet_cycle (calm [pip]) f [])))"
proof -
  let ?pip = "\<lparr>pip_id = 8, pip_employer = Some 2, pip_inside = None, pip_balance = 0\<rparr> :: Pip"
  let ?f = "NewFleet True [(NewDriverFor ''farm:8090'' fmempty 1 ''farm'')\<lparr>d_employed := {|8|}\<rparr>, NewDriverFor ''farm:8090'' fmempty 2 ''farm'']"
  obtain r f' l' where run: "Fleet_cycle (calm [?pip]) ?f [] = (r, f', l')" by (metis prod_cases3)
  have snap: "sim_Snapshot (calm [?pip]) ([] @ [Snapshot]) = Inr \<lparr>snap_tick = 5, snap_pips = [?pip], snap_workplaces = [], snap_structures = []\<rparr>"
    by (simp add: calm_def)
  have "SubmitIntent (EndEmployment (pip_id ?pip)) \<in> set l'"
    by (rule conjunct1 [OF moved_pip_is_let_go [where a = 0 and b = 1, OF run calm_walks snap]])
       (simp_all add: live_drivers_def NewFleet_def NewDriverFor_def NewDriver_def get_optional_def)
  then show ?thesis by (simp add: run)
qed

section \<open>A payroll after a restart\<close>

text \<open>
  C33: After sim-core restarts with a fresh world its ticks come again, but the bank remembers the old ones.
  A payroll of a building at a tick for which the bank has accepted one before is answered from that
  record: no account of the bank changes, and sim-core is told of the new credits as if they were paid.
\<close>

theorem restarted_world_pays_from_old_record:
  assumes old: "Handler_BatchTransfer MemoryLedger ev j (m0, k0) (payroll w tick before) = (Inr r0, m, k)" "OK r0"
    and bank: "\<And>b. bank_BatchTransfer P (l @ [CallBatchTransfer b]) = fst (Handler_BatchTransfer MemoryLedger ev i (m, k) b)"
    and walks: "walks_maps P" and owed: "f_bank f" "fmlookup c pip = Some a" "0 <s a"
  shows "\<exists>pays. (pip, a) \<in> set pays \<and> fst (snd (Handler_BatchTransfer MemoryLedger ev i (m, k) (payroll w tick pays))) = m
    \<and> Fleet_payWages P f w tick c l = l @ [CallBatchTransfer (payroll w tick pays),
        SubmitIntent (CreditBalances (workplaceAccount w) pays tick)]"
proof -
  let ?acc = "workplaceAccount w" and ?key = "idempotencyKey (workplaceAccount w) ''batch'' tick KindWage"
  have payer: "bq_Payer (payroll w tick ps) \<noteq> []" "bq_Kind (payroll w tick ps) = TRANSFER_KIND_WAGE"
    "bq_Payer (payroll w tick ps) = ?acc" "bq_Tick (payroll w tick ps) = tick" for ps
    by (simp_all add: payroll_def workplaceAccount_def)
  obtain res m1 where B: "Memory_BatchTransfer j m0 (bq_Payer (payroll w tick before)) (bq_Credits (payroll w tick before)) KindWage
      (bq_Tick (payroll w tick before)) = (res, m1)" by fastforce
  from old(1) [unfolded Handler_payroll [OF payer(1,2) B]] have m1: "res = r0" "m1 = m" by auto
  have key: "fmlookup (idempotent m) ?key = Some r0"
    using B m1 old(2) by (auto simp: Memory_BatchTransfer_def payer insufficient_def Let_def split: option.splits prod.splits if_splits)
  have again: "Handler_BatchTransfer MemoryLedger ev i (m, k) (payroll w tick ps) = (Inr r0, m,
      publish_wages ev (bq_Payer (payroll w tick ps)) (bq_Tick (payroll w tick ps)) (bq_Credits (payroll w tick ps)) k)" for ps
  proof -
    have "Memory_BatchTransfer i m (bq_Payer (payroll w tick ps)) (bq_Credits (payroll w tick ps)) KindWage (bq_Tick (payroll w tick ps)) = (r0, m)"
      using key by (simp add: Memory_BatchTransfer_def payer)
    from Handler_payroll [OF payer(1,2) this] old(2) show ?thesis by simp
  qed
  from walks refl [of "Fleet_payWages P f w tick c l"] show ?thesis
  proof (cases rule: payWages_says)
    case nothing
    with owed show ?thesis by blast
  next
    case (refused pays)
    with bank [of "payroll w tick pays"] again old(2) show ?thesis by simp
  next
    case (paid pays r)
    with again owed show ?thesis by auto
  qed
qed

text \<open>The farm paid 60 at tick 5 of the old world, when it held nothing else.\<close>

theorem restarted_world_pays_from_old_record_witness:
  "let bank = NewMemory\<lparr>balances := fmupd (workplaceAccount 1) 60 fmempty\<rparr>;
       m = fst (snd (Handler_BatchTransfer MemoryLedger noopPublisher ''u'' (bank, ()) (payroll 1 5 [(7, 60)])));
       P = (calm [])\<lparr>bank_BatchTransfer := \<lambda>l. case last l of
              CallBatchTransfer b \<Rightarrow> fst (Handler_BatchTransfer MemoryLedger noopPublisher ''v'' (m, ()) b) | _ \<Rightarrow> Inl (CodeOther, [])\<rparr>
   in \<exists>pays. (9, 30) \<in> set pays \<and> Fleet_payWages P one_farm_fleet 1 5 (fmupd 9 30 fmempty) [] =
        [CallBatchTransfer (payroll 1 5 pays), SubmitIntent (CreditBalances (workplaceAccount 1) pays 5)]"
proof -
  let ?bank = "NewMemory\<lparr>balances := fmupd (workplaceAccount 1) 60 fmempty\<rparr>"
  let ?first = "Handler_BatchTransfer MemoryLedger noopPublisher ''u'' (?bank, ()) (payroll 1 5 [(7, 60)])"
  let ?m = "fst (snd ?first)"
  let ?P = "(calm [])\<lparr>bank_BatchTransfer := \<lambda>l. case last l of
      CallBatchTransfer b \<Rightarrow> fst (Handler_BatchTransfer MemoryLedger noopPublisher ''v'' (?m, ()) b) | _ \<Rightarrow> Inl (CodeOther, [])\<rparr>"
  have first: "?first = (Inr (accepted 0), ?m, ())"
    by (simp add: Handler_BatchTransfer_def MemoryLedger_def kindFromProto_def Memory_BatchTransfer_def payroll_def
        workplaceAccount_def TreasuryAccount_def NewMemory_def credits_total_def accepted_def pipAccount_def Let_def getz_addz getz_subz
        idempotencyKey_def)
  have "walks_maps ?P" using calm_walks [of "[]"] by (simp add: walks_maps_def)
  from restarted_world_pays_from_old_record [where l = "[]" and i = "''v''" and f = one_farm_fleet
      and c = "fmupd 9 30 fmempty" and pip = 9 and a = 30, OF first _ _ this]
  show ?thesis unfolding Let_def
    by (auto simp: accepted_def one_farm_fleet_def NewFleet_def word_sless_alt)
qed

section \<open>Endowment\<close>

text \<open>The request an endowment sends for a building that holds \<open>held\<close>.\<close>

definition issuance :: "u64 \<Rightarrow> u64 \<Rightarrow> i64 \<Rightarrow> TransferRequest" where
  "issuance w tick amount = \<lparr>tq_Payer = ''treasury'', tq_Payee = workplaceAccount w, tq_Amount = amount,
     tq_Kind = TRANSFER_KIND_ISSUANCE, tq_Tick = tick\<rparr>"



section \<open>Purchases\<close>

lemma find_driver_some:
  assumes "find_driver w f = Some k"
  shows "d_id (f_drivers f ! k) = w" and "f_drivers f ! k \<in> set (f_drivers f)"
proof -
  have "d_id (f_drivers f ! k) = w \<and> k < length (f_drivers f)"
    using assms by (auto simp: find_driver_def find_Some_iff)
  then show "d_id (f_drivers f ! k) = w" "f_drivers f ! k \<in> set (f_drivers f)" by simp_all
qed

lemma find_driver_none: "find_driver w f = None \<longleftrightarrow> (\<forall>d \<in> set (f_drivers f). d_id d \<noteq> w)"
  by (auto simp: find_driver_def find_None_iff set_conv_nth)

text \<open>A purchase comes to the counter of the building, or it ends before with nothing moved.\<close>

lemma Fleet_Buy_runs:
  assumes run: "Fleet_Buy P f pip w kind tick l = (r, l')"
  obtains (stays) "(\<exists>why. r = Inr (False, why, 0)) \<or> (\<exists>err. r = Inl err)" "l' = l \<or> l' = l @ [Snapshot]"
  | (counter) k snap buyer where "d_id (f_drivers f ! k) = w" "f_drivers f ! k \<in> set (f_drivers f)"
      "sim_Snapshot P (l @ [Snapshot]) = Inr snap" "find_driver w f = Some k"
      "buyer \<in> set (snap_pips snap)" "pip_id buyer = pip" "GetInsideWorkplaceId buyer = w"
      "(r, l') = (let l2 = l @ [Snapshot, CallBuy (d_addr (f_drivers f ! k)) w pip kind tick] in
        case wp_Buy P l2 of Inl err \<Rightarrow> (Inl err, l2)
        | Inr res \<Rightarrow> if \<not> br_Ok res then (Inr (False, br_Reason res, 0), l2)
           else if pip_balance buyer <s br_Price res then (Inr (False, ''insufficient funds'', br_Price res), l2)
           else (let l3 = l2 @ [SubmitIntent (TransferMoney (pipAccount pip) (workplaceAccount w) (br_Price res)
               (resource_number kind) TRANSFER_KIND_PURCHASE tick)]
             in case sim_SubmitIntent P l3 of Inl err \<Rightarrow> (Inl err, l3) | Inr _ \<Rightarrow> (Inr (True, [], br_Price res), l3)))"
proof -
  consider "find_driver w f = None" | k er where "find_driver w f = Some k" "sim_Snapshot P (l @ [Snapshot]) = Inl er"
    | k snap where "find_driver w f = Some k" "sim_Snapshot P (l @ [Snapshot]) = Inr snap" "List.find (\<lambda>p. pip_id p = pip) (snap_pips snap) = None"
    | k snap buyer where "find_driver w f = Some k" "sim_Snapshot P (l @ [Snapshot]) = Inr snap"
        "List.find (\<lambda>p. pip_id p = pip) (snap_pips snap) = Some buyer" by (metis not_None_eq sum.exhaust)
  then show thesis
  proof cases
    case (4 k snap buyer)
    then have "buyer \<in> set (snap_pips snap)" "pip_id buyer = pip" by (auto simp: find_Some_iff)
    note b = this
    show thesis
    proof (cases "GetInsideWorkplaceId buyer = w")
      case True
      show thesis
        by (rule counter [OF find_driver_some [OF 4(1)] 4(2,1) b True])
          (use run [symmetric] 4 True in \<open>simp add: Fleet_Buy_def ask_def Let_def split: sum.split\<close>)
    qed (use run 4 in \<open>auto simp: Fleet_Buy_def ask_def intro!: stays\<close>)
  qed (use run in \<open>auto simp: Fleet_Buy_def ask_def intro!: stays\<close>)
qed



text \<open>
  The place is checked by comparing with the building's id, and a pip that is outside has the zero of the
  absent field: with a driver that has not introduced itself yet, workplace zero sells to a pip on the road.
\<close>

lemma Buy_on_the_road:
  assumes "find_driver 0 f = Some k" "sim_Snapshot P (l @ [Snapshot]) = Inr snap"
    "List.find (\<lambda>p. pip_id p = pip) (snap_pips snap) = Some buyer" "pip_inside buyer = None"
    "wp_Buy P (l @ [Snapshot, CallBuy (d_addr (f_drivers f ! k)) 0 pip kind tick]) = Inr res" "br_Ok res"
    "\<not> pip_balance buyer <s br_Price res" "\<And>l. sim_SubmitIntent P l = Inr x"
  shows "fst (Fleet_Buy P f pip 0 kind tick l) = Inr (True, [], br_Price res)"
  using assms by (simp add: Fleet_Buy_def ask_def get_optional_def)

section \<open>A shift that ended early\<close>

lemma distinct_set_single: "distinct xs \<Longrightarrow> set xs = {x} \<longleftrightarrow> xs = [x]"
  by (cases xs; cases "tl xs") auto

text \<open>
  A shift the workplace ends within the grace of its hire is not over for the driver: the mark of the hire
  stays, so the next look at the snapshot makes the driver believe in the pip again, and when the grace
  has passed it is let go a second time, by an intent that ends whatever employment the pip has by then.
\<close>

lemma ended_shift_comes_back:
  assumes d: "d_employed d = {|pip|}" "d_hiredAt d = fmupd pip at fmempty"
    and walks: "walks_maps P"
    and ended: "Driver_endShift P d pip tick why l = (d1, l1)"
    and within: "clock_reads P (l1 @ [ReadClock]) = soon" "\<not> hireGrace < time_sub soon at"
    and sync1: "syncEmployment P d1 {||} l1 = (gone1, d2, l2)"
    and after: "\<And>l'. clock_reads P (l2 @ l' @ [ReadClock]) = later" "hireGrace < time_sub later at"
    and sync2: "syncEmployment P d2 {||} l2 = (gone2, d3, l3)"
  shows "d_employed d1 = {||} \<and> gone1 = [] \<and> d_employed d2 = {|pip|} \<and> gone2 = [pip]"
proof -
  have d1: "d_employed d1 = {||}" "d_hiredAt d1 = fmupd pip at fmempty"
    using ended d by (auto simp: Driver_endShift_def ask_def)
  have single: "map_order P l' {|p|} = [p]" "map_order P l' {||} = []" for l' p
  proof -
    have "distinct (map_order P l' ks)" "set (map_order P l' ks) = fset ks" for ks using walks by (simp_all add: walks_maps_def)
    from this [of "{|p|}"] this [of "{||}"] show "map_order P l' {|p|} = [p]" "map_order P l' {||} = []"
      by (simp_all add: distinct_set_single)
  qed
  have d2: "gone1 = []" "d_employed d2 = {|pip|}" "d_hiredAt d2 = fmupd pip at fmempty"
    using sync1 within by (auto simp: syncEmployment_def d1 single ask_def)
  have "gone2 = [pip]"
    using sync2 after(1) [of "[]"] after(2) by (auto simp: syncEmployment_def d2 single ask_def)
  with d1 d2 show ?thesis by simp
qed

end
