(* ===== verification/WorldBooks.thy ===== *)
theory WorldBooks
  imports EconomyProps
begin

text \<open>
  The gateway with the bank behind it: the answers of the bank are those of its handler over the
  in-process ledger, whose state is what the calls so far have made of it. sim-core keeps a replica of
  the balances from the intents it is sent; the theory shows that the economy loop and the endowments
  tell it exactly what the ledger has booked, as long as the world does not show a tick twice.
\<close>

section \<open>The bank behind the calls\<close>

text \<open>What a call does to the ledger; \<open>tid\<close> is the transfer id it draws.\<close>

definition ledger_step :: "string \<Rightarrow> call \<Rightarrow> memory \<Rightarrow> memory" where
  "ledger_step tid c m =
     (case c of
        CallBatchTransfer b \<Rightarrow> fst (snd (Handler_BatchTransfer MemoryLedger noopPublisher tid (m, ()) b))
      | CallTransfer t \<Rightarrow> fst (snd (Handler_Transfer MemoryLedger noopPublisher tid (m, ()) t))
      | _ \<Rightarrow> m)"

text \<open>A call reaches the bank and is answered, or neither: \<open>up\<close> decides, from the log that ends in it.\<close>

record bank_link =
  up :: "call_log \<Rightarrow> bool"
  ids :: "nat \<Rightarrow> string"
  first_books :: memory

definition bank_after :: "bank_link \<Rightarrow> call_log \<Rightarrow> memory" where
  "bank_after B l = fold (\<lambda>j m. if up B (take (Suc j) l) then ledger_step (ids B j) (l ! j) m else m)
     [0..<length l] (first_books B)"

definition served :: "bank_link \<Rightarrow> peers \<Rightarrow> bool" where
  "served B P \<longleftrightarrow>
     (\<forall>l b. bank_BatchTransfer P (l @ [CallBatchTransfer b]) = (if up B (l @ [CallBatchTransfer b])
        then fst (Handler_BatchTransfer MemoryLedger noopPublisher (ids B (length l)) (bank_after B l, ()) b)
        else Inl (CodeUnavailable, ''no connection''))) \<and>
     (\<forall>l t. bank_Transfer P (l @ [CallTransfer t]) = (if up B (l @ [CallTransfer t])
        then fst (Handler_Transfer MemoryLedger noopPublisher (ids B (length l)) (bank_after B l, ()) t)
        else Inl (CodeUnavailable, ''no connection'')))"

text \<open>The balance changes sim-core is sent: the same rows as the ledger's, of every money intent.\<close>

fun told_rows :: "call \<Rightarrow> JournalEntry list" where
  "told_rows (SubmitIntent (CreditBalances payer pays t)) =
     batch_rows [] payer (map (\<lambda>(pip, amount). \<lparr>cr_Payee = pipAccount pip, cr_Amount = amount\<rparr>) pays) KindWage t"
| "told_rows (SubmitIntent (TransferMoney payer payee n r k t)) = transfer_rows [] payer payee n KindIssuance t"
| "told_rows _ = []"

definition told :: "call_log \<Rightarrow> string \<Rightarrow> i64" where
  "told l a = journal_balance (concat (map told_rows l)) a"

text \<open>By how much the ledger is ahead of what sim-core was told, account by account.\<close>

definition ahead :: "bank_link \<Rightarrow> call_log \<Rightarrow> string \<Rightarrow> i64" where
  "ahead B l a = getz (balances (bank_after B l)) a - told l a"

definition recorded :: "bank_link \<Rightarrow> call_log \<Rightarrow> string \<Rightarrow> bool" where
  "recorded B l key \<longleftrightarrow> fmlookup (idempotent (bank_after B l)) key \<noteq> None"

definition wage_key :: "u64 \<Rightarrow> u64 \<Rightarrow> string" where
  "wage_key w t = idempotencyKey (workplaceAccount w) ''batch'' t KindWage"

definition issue_key :: "u64 \<Rightarrow> u64 \<Rightarrow> string" where
  "issue_key w t = idempotencyKey TreasuryAccount (workplaceAccount w) t KindIssuance"

lemma bank_after_snoc:
  "bank_after B (l @ [c]) = (if up B (l @ [c]) then ledger_step (ids B (length l)) c (bank_after B l) else bank_after B l)"
proof -
  have "fold (\<lambda>j m. if up B (take (Suc j) (l @ [c])) then ledger_step (ids B j) ((l @ [c]) ! j) m else m) [0..<length l] (first_books B)
      = bank_after B l"
    unfolding bank_after_def by (rule fold_cong) (auto simp: nth_append)
  then show ?thesis by (simp add: bank_after_def [of B "l @ [c]"])
qed

lemma told_snoc: "told (l @ [c]) a = told l a + journal_balance (told_rows c) a"
  by (simp add: told_def)

lemma quiet_call: "\<not> money_call c \<Longrightarrow> ledger_step tid c m = m \<and> told_rows c = []"
proof (cases c)
  case (SubmitIntent i)
  then show "\<not> money_call c \<Longrightarrow> ?thesis" by (cases i) (simp_all add: ledger_step_def)
qed (simp_all add: ledger_step_def)

lemma quiet_ahead:
  assumes "adds (\<lambda>c. \<not> money_call c) l l'"
  shows "bank_after B l' = bank_after B l" "ahead B l' = ahead B l" "recorded B l' = recorded B l"
proof -
  have "bank_after B (l @ ext) = bank_after B l \<and> told (l @ ext) = told l" if "list_all (\<lambda>c. \<not> money_call c) ext" for ext
    using that
  proof (induction ext rule: rev_induct)
    case (snoc c ext)
    then show ?case
      using bank_after_snoc [of B "l @ ext" c] told_snoc [of "l @ ext" c] quiet_call [of c] by (auto simp: fun_eq_iff)
  qed simp
  with assms show "bank_after B l' = bank_after B l" "ahead B l' = ahead B l" "recorded B l' = recorded B l"
    by (auto simp: adds_def ahead_def recorded_def fun_eq_iff)
qed

lemma workplace_bar_free [simp]: "bar_free (workplaceAccount w)" "bar_free TreasuryAccount"
  using bar_free_FormatUint [of w] by (auto simp: bar_free_def workplaceAccount_def TreasuryAccount_def)

lemma keys_distinct [simp]:
  "wage_key w t = wage_key w' t' \<longleftrightarrow> w = w' \<and> t = t'" "issue_key w t = issue_key w' t' \<longleftrightarrow> w = w' \<and> t = t'"
  "wage_key w t \<noteq> issue_key w' t'" "issue_key w t \<noteq> wage_key w' t'"
proof -
  have "workplaceAccount w = workplaceAccount w' \<longleftrightarrow> w = w'" by (simp add: workplaceAccount_def)
  moreover have "workplaceAccount v \<noteq> TreasuryAccount" "TreasuryAccount \<noteq> workplaceAccount v" for v by (simp_all add: workplaceAccount_def TreasuryAccount_def)
  ultimately show "wage_key w t = wage_key w' t' \<longleftrightarrow> w = w' \<and> t = t'" "issue_key w t = issue_key w' t' \<longleftrightarrow> w = w' \<and> t = t'"
    "wage_key w t \<noteq> issue_key w' t'" "issue_key w t \<noteq> wage_key w' t'"
    by (auto simp: wage_key_def issue_key_def idempotencyKey_inj)
qed

section \<open>Payroll\<close>

text \<open>One payroll: a key that is not recorded yet is recorded, and both sides book the same rows.\<close>

lemma rows_amounts: "journal_balance (batch_rows i p cs k t) = journal_balance (batch_rows i' p cs k' t')"
  by (rule ext) (simp add: batch_rows_def journal_balance_def filter_map comp_def)

lemma rows_amounts2: "journal_balance (transfer_rows i p q n k t) = journal_balance (transfer_rows i' p q n k' t')"
  by (rule ext) (simp add: transfer_rows_def)

lemma handled_payroll:
  assumes "fmlookup (idempotent m) (wage_key w t) = None"
  obtains (refused) r where "\<not> OK r" "Handler_BatchTransfer MemoryLedger noopPublisher tid (m, ()) (payroll w t pays) = (Inr r, m, ())"
  | (booked) r m' where "OK r" "Handler_BatchTransfer MemoryLedger noopPublisher tid (m, ()) (payroll w t pays) = (Inr r, m', ())"
      "\<And>a. getz (balances m') a = getz (balances m) a + journal_balance (told_rows (SubmitIntent (CreditBalances (workplaceAccount w) pays t))) a"
      "\<And>key. fmlookup (idempotent m') key \<noteq> None \<longleftrightarrow> key = wage_key w t \<or> fmlookup (idempotent m) key \<noteq> None"
proof -
  let ?acc = "workplaceAccount w" and ?cs = "map (\<lambda>(pip, amount). \<lparr>cr_Payee = pipAccount pip, cr_Amount = amount\<rparr>) pays"
  have ne: "?acc \<noteq> []" by (simp add: workplaceAccount_def)
  have call: "Handler_BatchTransfer MemoryLedger noopPublisher tid (m, ()) (payroll w t pays) =
      (let (r, m') = Memory_BatchTransfer tid m ?acc ?cs KindWage t in (Inr r, m', ()))"
    using ne by (simp add: Handler_BatchTransfer_def payroll_def MemoryLedger_def kindFromProto_def map_prod_def split: prod.split)
  show ?thesis
  proof (cases rule: Memory_BatchTransfer_cases [of m ?acc t KindWage tid ?cs])
    case (replay r)
    with assms show ?thesis by (simp add: wage_key_def)
  next
    case refused
    then show ?thesis using call by (intro that(1)) (simp_all add: insufficient_def)
  next
    case committed
    then show ?thesis
      using call rows_amounts [of tid ?acc ?cs KindWage t "[]" KindWage t]
      by (intro that(2) [OF _ call [unfolded committed(3) Let_def prod.case]])
         (simp_all add: accepted_def getz_batch_moved [where i = tid and k = KindWage and t = t] wage_key_def)
  qed
qed

lemma payWages_books:
  assumes B: "served B P" and "walks_maps P" and fresh: "\<not> recorded B l (wage_key w t)"
    and run: "Fleet_payWages P f w t c l = l'"
  shows "ahead B l' = ahead B l \<and> (\<forall>key. recorded B l' key \<longrightarrow> recorded B l key \<or> key = wage_key w t)"
proof -
  have key: "fmlookup (idempotent (bank_after B l)) (wage_key w t) = None" using fresh by (simp add: recorded_def)
  have asked: "bank_after B (l @ [CallBatchTransfer b]) = (if up B (l @ [CallBatchTransfer b])
      then fst (snd (Handler_BatchTransfer MemoryLedger noopPublisher (ids B (length l)) (bank_after B l, ()) b)) else bank_after B l)" for b
    by (simp add: bank_after_snoc ledger_step_def)
  have answer: "bank_BatchTransfer P (l @ [CallBatchTransfer b]) = (if up B (l @ [CallBatchTransfer b])
      then fst (Handler_BatchTransfer MemoryLedger noopPublisher (ids B (length l)) (bank_after B l, ()) b)
      else Inl (CodeUnavailable, ''no connection''))" for b
    using B by (simp add: served_def)
  from assms(2) run show ?thesis
  proof (cases rule: payWages_says)
    case nothing
    then show ?thesis by simp
  next
    case (refused pays)
    have "bank_after B l' = bank_after B l"
    proof (cases "up B l'")
      case True
      from key show ?thesis
        by (cases rule: handled_payroll [where tid = "ids B (length l)" and pays = pays])
           (use True refused(3,4) asked answer in auto)
    qed (use refused(3) asked in auto)
    moreover have "told l' = told l" by (simp add: refused(3) told_snoc fun_eq_iff)
    ultimately show ?thesis by (auto simp: ahead_def recorded_def fun_eq_iff)
  next
    case (paid pays r)
    let ?l1 = "l @ [CallBatchTransfer (payroll w t pays)]" and ?tell = "SubmitIntent (CreditBalances (workplaceAccount w) pays t)"
    have up: "up B ?l1" using paid(4) answer by (auto split: if_splits)
    have l': "l' = ?l1 @ [?tell]" using paid(3) by simp
    have last: "bank_after B l' = bank_after B ?l1" unfolding l' by (simp only: bank_after_snoc ledger_step_def call.case if_cancel)
    have tell: "told l' a = told l a + journal_balance (told_rows ?tell) a" for a
      unfolding l' by (simp only: told_snoc) (simp add: told_rows.simps(3))
    from key show ?thesis
    proof (cases rule: handled_payroll [where tid = "ids B (length l)" and pays = pays])
      case (refused r')
      with up paid(4,5) answer show ?thesis by auto
    next
      case (booked r' m')
      then have "bank_after B l' = m'" using last asked up by simp
      then show ?thesis using booked(3,4) tell by (auto simp: ahead_def recorded_def fun_eq_iff)
    qed
  qed
qed

lemma pay_all_books:
  assumes B: "served B P" and w: "walks_maps P"
  shows "distinct ws \<Longrightarrow> \<forall>x \<in> set ws. \<not> recorded B l (wage_key x t) \<Longrightarrow>
    ahead B (pay_all P f ws t cs l) = ahead B l \<and>
    (\<forall>key. recorded B (pay_all P f ws t cs l) key \<longrightarrow> recorded B l key \<or> (\<exists>x. key = wage_key x t))"
proof (induction ws arbitrary: l)
  case Nil
  then show ?case by simp
next
  case (Cons x ws)
  let ?l1 = "Fleet_payWages P f x t (case fmlookup cs x of None \<Rightarrow> fmempty | Some c \<Rightarrow> c) l"
  have one: "ahead B ?l1 = ahead B l \<and> (\<forall>key. recorded B ?l1 key \<longrightarrow> recorded B l key \<or> key = wage_key x t)"
    using Cons.prems(2) by (intro payWages_books [OF B w _ refl]) simp
  then have "\<forall>y \<in> set ws. \<not> recorded B ?l1 (wage_key y t)" using Cons.prems by auto
  from Cons.IH [OF _ this] Cons.prems(1) one show ?case by auto
qed

section \<open>Endowment\<close>

text \<open>The treasury is never refused, so a fresh issuance that reaches the bank is booked.\<close>

lemma handled_issuance:
  assumes "fmlookup (idempotent m) (issue_key w t) = None"
  obtains r m' where "OK r" "Handler_Transfer MemoryLedger noopPublisher tid (m, ()) (issuance w t n) = (Inr r, m', ())"
      "\<forall>a. getz (balances m') a = getz (balances m) a + journal_balance (told_rows
         (SubmitIntent (TransferMoney ''treasury'' (workplaceAccount w) n 0 TRANSFER_KIND_ISSUANCE t))) a"
      "\<forall>key. fmlookup (idempotent m') key \<noteq> None \<longleftrightarrow> key = issue_key w t \<or> fmlookup (idempotent m) key \<noteq> None"
proof -
  let ?acc = "workplaceAccount w"
  have treasury: "''treasury'' = TreasuryAccount" by (simp add: TreasuryAccount_def)
  have ne: "TreasuryAccount \<noteq> []" "?acc \<noteq> []" by (simp_all add: workplaceAccount_def TreasuryAccount_def)
  have call: "Handler_Transfer MemoryLedger noopPublisher tid (m, ()) (issuance w t n) =
      (let (r, m') = Memory_Transfer tid m TreasuryAccount ?acc n KindIssuance t in (Inr r, m', ()))"
    using ne by (simp add: Handler_Transfer_def issuance_def MemoryLedger_def kindFromProto_def map_prod_def treasury noopPublisher_def
        split: prod.split)
  show ?thesis
  proof (cases rule: Memory_Transfer_cases [of m TreasuryAccount ?acc t KindIssuance tid n])
    case (replay r)
    with assms show ?thesis by (simp add: issue_key_def)
  next
    case refused
    then show ?thesis by simp
  next
    case committed
    then show ?thesis
      using call
      by (intro that [OF _ call [unfolded committed(3) Let_def prod.case]])
         (simp_all add: accepted_def getz_moved [where i = "[]" and k = KindIssuance and t = t] issue_key_def treasury)
  qed
qed

lemma endow_one_books:
  assumes B: "served B P" and fresh: "d_id d \<noteq> 0 \<Longrightarrow> \<not> recorded B l (issue_key (d_id d) t)"
  shows "ahead B (endow_one P capital t d l) = ahead B l
    \<and> (\<forall>key. recorded B (endow_one P capital t d l) key \<longrightarrow> recorded B l key \<or> d_id d \<noteq> 0 \<and> key = issue_key (d_id d) t)"
proof -
  let ?a = "workplaceAccount (d_id d)" and ?l1 = "l @ [CallGetBalance (workplaceAccount (d_id d))]"
  have ask1: "ahead B ?l1 = ahead B l" "recorded B ?l1 = recorded B l" "bank_after B ?l1 = bank_after B l"
    by (rule quiet_ahead, rule adds_one, simp)+
  show ?thesis
  proof (cases "d_id d = 0 \<or> (\<forall>held. bank_GetBalance P ?l1 = Inr held \<longrightarrow> endowmentFor held capital = 0)")
    case True
    then have "endow_one P capital t d l = l \<or> endow_one P capital t d l = ?l1"
      by (auto simp: endow_one_def ask_def Let_def split: sum.splits)
    with ask1 show ?thesis by auto
  next
    case False
    then obtain held where held: "d_id d \<noteq> 0" "bank_GetBalance P ?l1 = Inr held" "endowmentFor held capital \<noteq> 0" by blast
    let ?n = "endowmentFor held capital"
    let ?l2 = "?l1 @ [CallTransfer (issuance (d_id d) t (endowmentFor held capital))]"
    let ?tell = "SubmitIntent (TransferMoney ''treasury'' ?a (endowmentFor held capital) 0 TRANSFER_KIND_ISSUANCE t)"
    have run: "endow_one P capital t d l = (case bank_Transfer P ?l2 of Inl _ \<Rightarrow> ?l2 | Inr res \<Rightarrow> if OK res then ?l2 @ [?tell] else ?l2)"
      using held by (simp add: endow_one_def ask_def issuance_def Let_def split: sum.split)
    have key: "fmlookup (idempotent (bank_after B ?l1)) (issue_key (d_id d) t) = None"
      using fresh [OF held(1)] ask1(3) by (simp add: recorded_def)
    have after: "bank_after B ?l2 = (if up B ?l2 then fst (snd (Handler_Transfer MemoryLedger noopPublisher (ids B (length ?l1))
        (bank_after B ?l1, ()) (issuance (d_id d) t ?n))) else bank_after B ?l1)"
      by (simp only: bank_after_snoc ledger_step_def call.case)
    have answer: "bank_Transfer P ?l2 = (if up B ?l2 then fst (Handler_Transfer MemoryLedger noopPublisher (ids B (length ?l1))
        (bank_after B ?l1, ()) (issuance (d_id d) t ?n)) else Inl (CodeUnavailable, ''no connection''))"
      using B by (simp only: served_def)
    have told2: "told ?l2 = told ?l1" by (rule ext) (simp only: told_snoc told_rows.simps journal_simps add_0_right)
    show ?thesis
    proof (cases "up B ?l2")
      case False
      then have "endow_one P capital t d l = ?l2" using run answer by simp
      moreover have "bank_after B ?l2 = bank_after B ?l1" using after False by simp
      ultimately show ?thesis using told2 ask1 by (simp add: ahead_def recorded_def fun_eq_iff)
    next
      case True
      obtain r m' where booked: "OK r" "Handler_Transfer MemoryLedger noopPublisher (ids B (length ?l1)) (bank_after B ?l1, ())
            (issuance (d_id d) t ?n) = (Inr r, m', ())"
        "\<forall>a. getz (balances m') a = getz (balances (bank_after B ?l1)) a + journal_balance (told_rows ?tell) a"
        "\<forall>key. fmlookup (idempotent m') key \<noteq> None \<longleftrightarrow> key = issue_key (d_id d) t \<or> fmlookup (idempotent (bank_after B ?l1)) key \<noteq> None"
        by (rule handled_issuance [where tid = "ids B (length ?l1)" and n = ?n, OF key])
      have l': "endow_one P capital t d l = ?l2 @ [?tell]" using run answer True booked by simp
      have m': "bank_after B (?l2 @ [?tell]) = m'"
        using after True booked(2) by (simp only: bank_after_snoc [of B ?l2] ledger_step_def call.case if_cancel) simp
      have tell: "told (?l2 @ [?tell]) a = told ?l1 a + journal_balance (told_rows ?tell) a" for a
        by (simp only: told_snoc [of ?l2] told2)
      show ?thesis using m' tell booked(3,4) ask1 held(1) unfolding l' by (auto simp: ahead_def recorded_def fun_eq_iff)
    qed
  qed
qed

lemma Endow_books:
  assumes B: "served B P"
    and ids: "distinct (map d_id (filter (\<lambda>d. d_id d \<noteq> 0) (f_drivers f)))"
    and fresh: "\<And>snap w. sim_Snapshot P (l @ [Snapshot]) = Inr snap \<Longrightarrow> \<not> recorded B l (issue_key w (snap_tick snap))"
  shows "ahead B (Fleet_Endow P f capital l) = ahead B l \<and> (\<forall>key. recorded B (Fleet_Endow P f capital l) key \<longrightarrow> recorded B l key \<or>
      (\<exists>w snap. sim_Snapshot P (l @ [Snapshot]) = Inr snap \<and> key = issue_key w (snap_tick snap)))"
proof -
  have all: "distinct (map d_id (filter (\<lambda>d. d_id d \<noteq> 0) ds)) \<Longrightarrow>
      \<forall>d \<in> set ds. d_id d \<noteq> 0 \<longrightarrow> \<not> recorded B l (issue_key (d_id d) t) \<Longrightarrow>
      ahead B (fold (endow_one P capital t) ds l) = ahead B l \<and>
      (\<forall>key. recorded B (fold (endow_one P capital t) ds l) key \<longrightarrow> recorded B l key \<or> (\<exists>w. key = issue_key w t))" for ds t l
  proof (induction ds arbitrary: l)
    case (Cons d ds)
    let ?l1 = "endow_one P capital t d l"
    have one: "ahead B ?l1 = ahead B l \<and> (\<forall>key. recorded B ?l1 key \<longrightarrow> recorded B l key \<or> d_id d \<noteq> 0 \<and> key = issue_key (d_id d) t)"
      using Cons.prems(2) by (intro endow_one_books [OF B]) simp
    have "d_id e \<noteq> d_id d" if "e \<in> set ds" "d_id e \<noteq> 0" "d_id d \<noteq> 0" for e
      using Cons.prems(1) that by (auto simp: image_iff)
    then have rest: "\<forall>e \<in> set ds. d_id e \<noteq> 0 \<longrightarrow> \<not> recorded B ?l1 (issue_key (d_id e) t)"
      using one Cons.prems(2) by fastforce
    have "distinct (map d_id (filter (\<lambda>d. d_id d \<noteq> 0) ds))" using Cons.prems(1) by (auto split: if_splits)
    from Cons.IH [OF this rest] one show ?case by auto
  qed simp
  have snap: "ahead B (l @ [Snapshot]) = ahead B l" "recorded B (l @ [Snapshot]) = recorded B l"
    by (rule quiet_ahead, rule adds_one, simp)+
  show ?thesis
  proof (cases "\<not> f_bank f \<or> capital \<le>s 0 \<or> (\<exists>err. sim_Snapshot P (l @ [Snapshot]) = Inl err)")
    case True
    then have "Fleet_Endow P f capital l = l \<or> Fleet_Endow P f capital l = l @ [Snapshot]"
      by (auto simp: Fleet_Endow_def ask_def)
    with snap show ?thesis by auto
  next
    case False
    then obtain s where s: "sim_Snapshot P (l @ [Snapshot]) = Inr s" by (cases "sim_Snapshot P (l @ [Snapshot])") auto
    with False have "Fleet_Endow P f capital l = fold (endow_one P capital (snap_tick s)) (f_drivers f) (l @ [Snapshot])"
      by (simp add: Fleet_Endow_def ask_def)
    then show ?thesis using all [OF ids, of "l @ [Snapshot]" "snap_tick s"] fresh [OF s] s snap by auto
  qed
qed

section \<open>A cycle\<close>

lemma cycle_books:
  assumes B: "served B P" and w: "walks_maps P" and run: "Fleet_cycle P f l = (res, f', l')"
    and fresh: "\<And>snap w. sim_Snapshot P (l @ [Snapshot]) = Inr snap \<Longrightarrow> \<not> recorded B l (wage_key w (snap_tick snap))"
  shows "same_fleet f f' \<and> ahead B l' = ahead B l \<and> (\<forall>key. recorded B l' key \<longrightarrow> recorded B l key \<or>
      (\<exists>w snap. sim_Snapshot P (l @ [Snapshot]) = Inr snap \<and> key = wage_key w (snap_tick snap)))"
proof (cases "\<exists>snap. sim_Snapshot P (l @ [Snapshot]) = Inr snap \<and> live_drivers f \<noteq> []")
  case False
  then have "f' = f" "l' = l @ [Snapshot]" using Fleet_cycle_idle [of P l f] run by auto
  moreover have "ahead B (l @ [Snapshot]) = ahead B l" "recorded B (l @ [Snapshot]) = recorded B l"
    by (rule quiet_ahead, rule adds_one, simp)+
  ultimately show ?thesis by simp
next
  case True
  then obtain snap where snap: "sim_Snapshot P (l @ [Snapshot]) = Inr snap" "live_drivers f \<noteq> []" by blast
  from run snap show ?thesis
  proof (cases rule: Fleet_cycle_runs)
    case (1 f2 l2 r)
    note before = cycle_before_pay [OF 1(1,2)]
    note quiet = quiet_ahead [OF before(3), of B]
    let ?ws = "map_order P (r_log r) (fmdom (r_credits r))"
    have "distinct ?ws" using w by (simp add: walks_maps_def)
    moreover have "\<forall>x \<in> set ?ws. \<not> recorded B (r_log r) (wage_key x (snap_tick snap))"
      using fresh [OF snap(1)] by (simp add: quiet(3))
    ultimately show ?thesis
      using pay_all_books [OF B w, of ?ws "r_log r" "snap_tick snap" "r_fleet r" "r_credits r"] 1(3,4) before(1) quiet snap(1)
      by auto
  qed
qed

section \<open>A life of the gateway\<close>

text \<open>Cycles and endowments in any order; \<open>True\<close> is a cycle.\<close>

fun gateway_beats :: "peers \<Rightarrow> i64 \<Rightarrow> bool list \<Rightarrow> Fleet \<Rightarrow> call_log \<Rightarrow> Fleet \<times> call_log" where
  "gateway_beats P capital [] f l = (f, l)"
| "gateway_beats P capital (True # bs) f l = (let (res, f1, l1) = Fleet_cycle P f l in gateway_beats P capital bs f1 l1)"
| "gateway_beats P capital (False # bs) f l = gateway_beats P capital bs f (Fleet_Endow P f capital l)"

text \<open>From the log \<open>l\<close> on, no two snapshots show the same tick, and none shows a tick the bank has recorded.\<close>

definition world_moves_on :: "bank_link \<Rightarrow> peers \<Rightarrow> call_log \<Rightarrow> bool" where
  "world_moves_on B P l \<longleftrightarrow>
     (\<forall>l1 l2 s1 s2. length l < length l1 \<and> length l1 < length l2 \<and> sim_Snapshot P l1 = Inr s1 \<and> sim_Snapshot P l2 = Inr s2 \<longrightarrow>
        snap_tick s1 \<noteq> snap_tick s2) \<and>
     (\<forall>l1 s1 w. length l < length l1 \<and> sim_Snapshot P l1 = Inr s1 \<longrightarrow>
        \<not> recorded B l (wage_key w (snap_tick s1)) \<and> \<not> recorded B l (issue_key w (snap_tick s1)))"

lemma moves_on_step:
  assumes m: "world_moves_on B P l" and longer: "length l < length l'"
    and new: "\<And>key. recorded B l' key \<Longrightarrow> recorded B l key \<or>
      (\<exists>w snap. sim_Snapshot P (l @ [Snapshot]) = Inr snap \<and> (key = wage_key w (snap_tick snap) \<or> key = issue_key w (snap_tick snap)))"
  shows "world_moves_on B P l'"
proof -
  have "\<not> recorded B l' (wage_key w (snap_tick s1)) \<and> \<not> recorded B l' (issue_key w (snap_tick s1))"
    if l1: "length l' < length l1" and s1: "sim_Snapshot P l1 = Inr s1" for l1 s1 w
  proof -
    have "length l < length (l @ [Snapshot])" "length (l @ [Snapshot]) < length l1" "length l < length l1" using longer l1 by auto
    then have "\<not> recorded B l (wage_key w (snap_tick s1))" "\<not> recorded B l (issue_key w (snap_tick s1))"
      "\<And>snap. sim_Snapshot P (l @ [Snapshot]) = Inr snap \<Longrightarrow> snap_tick snap \<noteq> snap_tick s1"
      using m s1 unfolding world_moves_on_def by blast+
    with new [of "wage_key w (snap_tick s1)"] new [of "issue_key w (snap_tick s1)"] show ?thesis by auto
  qed
  then show ?thesis using m longer unfolding world_moves_on_def by (meson less_trans)
qed

lemma moves_on_fresh:
  "world_moves_on B P l \<Longrightarrow> sim_Snapshot P (l @ [Snapshot]) = Inr snap \<Longrightarrow>
    \<not> recorded B l (wage_key w (snap_tick snap)) \<and> \<not> recorded B l (issue_key w (snap_tick snap))"
  unfolding world_moves_on_def by (metis length_append_singleton lessI)

lemma cycle_longer:
  assumes run: "Fleet_cycle P f l = (res, f', l')"
  shows "length l < length l'"
proof (cases "\<exists>snap. sim_Snapshot P (l @ [Snapshot]) = Inr snap \<and> live_drivers f \<noteq> []")
  case False
  then have "l' = l @ [Snapshot]" using Fleet_cycle_idle [of P l f] run by auto
  then show ?thesis by simp
next
  case True
  then obtain snap where snap: "sim_Snapshot P (l @ [Snapshot]) = Inr snap" "live_drivers f \<noteq> []" by blast
  have le: "length a \<le> length b" if "adds Q a b" for Q and a b using that by (auto simp: adds_def)
  from run snap show ?thesis
  proof (cases rule: Fleet_cycle_runs)
    case (1 f2 l2 r)
    note sync = sync_all_says [OF 1(1) same_fleet_refl]
    have "owed_ok P (snap_pips snap) (snap_tick snap) 0
        \<lparr>r_fleet = f2\<lparr>f_next := Suc (f_next f2)\<rparr>, r_left = offers_left (f2\<lparr>f_next := Suc (f_next f2)\<rparr>),
         r_credits = fmempty, r_log = l2\<rparr>" by (simp add: owed_ok_def)
    from cycle_pips_law [where P = P and tick = "snap_tick snap" and ring = "rotation (f_next f2) (live_drivers f)"
        and ps = "snap_pips snap", OF rotation_set _ this order_refl]
    have "adds (\<lambda>c. \<not> money_call c) l2 (r_log r)" using sync by (simp add: 1(2))
    moreover have "length (l @ [Snapshot]) \<le> length l2" using sync le by blast
    moreover have "length (r_log r) \<le> length l'" unfolding 1(4) by (rule le [OF pay_all_quiet])
    ultimately show ?thesis using le by fastforce
  qed
qed

lemma Endow_longer: "Fleet_Endow P f capital l = l \<or> length l < length (Fleet_Endow P f capital l)"
proof -
  have one: "length l \<le> length (endow_one P capital t d l)" for d t l
    by (auto simp: endow_one_def ask_def Let_def split: sum.splits)
  have "length l \<le> length (fold (endow_one P capital t) ds l)" for ds t l
  proof (induction ds arbitrary: l)
    case (Cons d ds)
    show ?case using Cons.IH [of "endow_one P capital t d l"] one [of l t d] by simp
  qed simp
  then have "length l < length (fold (endow_one P capital t) ds (l @ [Snapshot]))" for ds t
    by (metis length_append_singleton Suc_le_eq)
  then show ?thesis by (auto simp: Fleet_Endow_def ask_def split: sum.splits)
qed

lemma same_fleet_ids: "same_fleet f g \<Longrightarrow> map d_id (filter (\<lambda>d. d_id d \<noteq> 0) (f_drivers g)) = map d_id (filter (\<lambda>d. d_id d \<noteq> 0) (f_drivers f))"
proof -
  assume "same_fleet f g"
  then have "map d_id (f_drivers g) = map d_id (f_drivers f)"
    by (auto simp: same_fleet_def same_building_def list_all2_conv_all_nth intro: nth_equalityI)
  then have "filter (\<lambda>i. i \<noteq> 0) (map d_id (f_drivers g)) = filter (\<lambda>i. i \<noteq> 0) (map d_id (f_drivers f))" by simp
  then show ?thesis by (simp add: filter_map comp_def)
qed


text \<open>A bank that starts empty and is always reached, and a world that shows the length of the log as its tick.\<close>

definition first_bank :: bank_link where
  "first_bank = \<lparr>up = \<lambda>_. True, ids = FormatUint o of_nat, first_books = NewMemory\<rparr>"

definition banked_world :: peers where
  "banked_world = (calm [])\<lparr>
     sim_Snapshot := \<lambda>l. if length l < 1000 then Inr \<lparr>snap_tick = of_nat (length l), snap_pips = [pip_at_work 7],
        snap_workplaces = [], snap_structures = []\<rparr> else Inl (CodeUnavailable, []),
     bank_BatchTransfer := \<lambda>l. case last l of CallBatchTransfer b \<Rightarrow> fst (Handler_BatchTransfer MemoryLedger noopPublisher
        (FormatUint (of_nat (length l - 1))) (bank_after first_bank (butlast l), ()) b) | _ \<Rightarrow> Inl (CodeOther, []),
     bank_Transfer := \<lambda>l. case last l of CallTransfer t \<Rightarrow> fst (Handler_Transfer MemoryLedger noopPublisher
        (FormatUint (of_nat (length l - 1))) (bank_after first_bank (butlast l), ()) t) | _ \<Rightarrow> Inl (CodeOther, [])\<rparr>"

lemma banked_world_ok: "served first_bank banked_world" "walks_maps banked_world" "world_moves_on first_bank banked_world []"
proof -
  show "served first_bank banked_world" by (simp add: served_def banked_world_def first_bank_def)
  show "walks_maps banked_world" using calm_walks [of "[]"] by (simp add: walks_maps_def banked_world_def)
  have "of_nat m \<noteq> (of_nat n :: u64)" if "m < n" "n < 1000" for m n :: nat
  proof -
    have "unat (of_nat m :: u64) = m" "unat (of_nat n :: u64) = n" using that by (simp_all add: unat_of_nat take_bit_nat_eq_self)
    with that(1) show ?thesis by auto
  qed
  then show "world_moves_on first_bank banked_world []"
    by (auto simp: world_moves_on_def recorded_def bank_after_def first_bank_def NewMemory_def banked_world_def split: if_splits)
qed


end
