(* ===== verification/WorkExchange.thy ===== *)
theory WorkExchange
  imports FarmOffers FleetProps
begin

text \<open>
  The work exchange from end to end: an offer of the gateway, the queue it ends up in, the farm that
  decides, the outcome, and the hire the gateway submits. The two programs share no code for it: each
  states the names for itself, and the broker brings them together. The locale \<open>hiring\<close> is what
  the gateway may expect of a workplace that answers offers; the hosts of all three stores meet it.
\<close>

section \<open>Where a message goes\<close>

text \<open>
  The queues bound to a topic exchange with exactly this key. No binding key of the program holds a
  wildcard, so these are the queues the broker routes to.
\<close>

fun bound_to :: "string \<Rightarrow> string \<Rightarrow> amqp_declare \<Rightarrow> string option" where
  "bound_to ex key (QueueBind q k e) = (if e = ex \<and> k = key then Some q else None)"
| "bound_to ex key _ = None"

definition routed :: "amqp_declare list \<Rightarrow> string \<Rightarrow> string \<Rightarrow> string list" where
  "routed ds ex key = List.map_filter (bound_to ex key) ds"

text \<open>AMQP refuses a declaration that differs from an earlier one of the same name.\<close>

fun clashes :: "amqp_declare \<Rightarrow> amqp_declare \<Rightarrow> bool" where
  "clashes (ExchangeDeclare e t) (ExchangeDeclare e' t') \<longleftrightarrow> e = e' \<and> t \<noteq> t'"
| "clashes (QueueDeclare q a) (QueueDeclare q' a') \<longleftrightarrow> q = q' \<and> a \<noteq> a'"
| "clashes _ _ \<longleftrightarrow> False"

definition both_declare :: "amqp_declare list" where
  "both_declare = farm_declarations ''farm'' @ gateway_declarations"

lemma topology:
  "routed both_declare gw_exchange (offerPrefix @ kind) = (if kind = ''farm'' then [workQueuePrefix @ kind] else [])"
  "routed both_declare exchange hiredKey = [hiredQueue]"
  "\<forall>a \<in> set both_declare. \<forall>b \<in> set both_declare. \<not> clashes a b"
  by (simp_all add: both_declare_def routed_def farm_declarations_def gateway_declarations_def List.map_filter_simps
      exchange_def gw_exchange_def dlx_def gw_dlx_def hiredKey_def gw_hiredKey_def hiredQueue_def offerQueue_def
      offerPrefix_def offerKeyPrefix_def workQueuePrefix_def)

section \<open>A workplace that answers offers\<close>

locale hiring =
  fixes decide :: "'s \<Rightarrow> u64 \<Rightarrow> u64 \<Rightarrow> (bool \<times> string \<times> u64) \<times> 's"
    and on_shift :: "'s \<Rightarrow> u64 \<Rightarrow> u64 \<Rightarrow> bool" and good :: "'s \<Rightarrow> bool"
  assumes decide_law: "good s \<Longrightarrow> decide s pip tick = ((acc, why, wid), s') \<Longrightarrow>
      acc \<longrightarrow> wid \<noteq> 0 \<and> on_shift s' wid pip"
begin

text \<open>An offer the broker took is decided for the pip and the tick it was made for.\<close>

lemma offer_decided:
  assumes good: "good s" and sent: "Driver_offer P d pip tick l = (True, d', l')"
    and codec: "\<And>m b. marshal_work_offer P m = Inr b \<Longrightarrow> unmarshal_offer e b = Some m"
      "\<And>oc. \<exists>b. marshal_outcome e oc = Inr b" "publish_error e = None"
  shows "\<exists>l1 body oc s'. l' = l1 @ [Publish gw_exchange (offerPrefix @ d_kind d) body ''10000'']
    \<and> Consumer_handle decide kind e s body = (Acked, Some oc, s')
    \<and> ho_PipId oc = pip \<and> ho_Tick oc = tick \<and> ho_WorkplaceKind oc = kind
    \<and> (ho_Accepted oc \<longrightarrow> ho_WorkplaceId oc \<noteq> 0 \<and> on_shift s' (ho_WorkplaceId oc) pip)"
  using sent
proof (cases rule: offer_says)
  case (spoke l1 body)
  let ?m = "\<lparr>wo_PipId = pip, wo_Tick = tick, wo_TraceId = []\<rparr>"
  obtain acc why wid s' where dec: "decide s pip tick = ((acc, why, wid), s')" by (metis surj_pair)
  let ?oc = "\<lparr>ho_PipId = pip, ho_WorkplaceId = wid, ho_WorkplaceKind = kind, ho_Accepted = acc,
      ho_Reason = why, ho_Tick = tick, ho_TraceId = []\<rparr>"
  have "unmarshal_offer e body = Some ?m" using codec(1) [OF spoke(4)] .
  moreover obtain b where "marshal_outcome e ?oc = Inr b" using codec(2) by blast
  ultimately have "Consumer_handle decide kind e s body = (Acked, Some ?oc, s')"
    using codec(3) dec by (simp add: Consumer_handle_def)
  with spoke(5) decide_law [OF good dec] show ?thesis by fastforce
qed simp

end

text \<open>A farm host over any store is such a workplace.\<close>

sublocale hosted \<subseteq> workplace: hiring "Host_ConsiderOffer S e" "employs held"
  "\<lambda>h. all_keep keep h \<and> 0 \<notin> set (Host_ids h) \<and> (\<forall>i. legal (e i))" for e
  by unfold_locales (use host_offer in blast)

text \<open>Whatever the broker does over any number of sessions, the consumer never overfills a building.\<close>

context hosted begin

lemma consumer_within_cap:
  assumes "all_keep keep h" "\<And>i. legal (e i)"
    and "fmlookup (buildings (snd (Consumer_Run_farm (Host_ConsiderOffer S e) kind ses h))) i = Some s"
  shows "fcard (held s) \<le> cap"
proof -
  have step: "all_keep keep h'" if "all_keep keep g" "Host_ConsiderOffer S e g pip tick = (d, h')" for g pip tick d h'
  proof -
    obtain acc why wid where "d = (acc, why, wid)" by (cases d)
    with that(2) have run: "Host_ConsiderOffer S e g pip tick = ((acc, why, wid), h')" by simp
    show ?thesis using host_offer [OF that(1) assms(2) run] by blast
  qed
  have "all_keep keep (snd (Consumer_Run_farm (Host_ConsiderOffer S e) kind ses h))"
    by (rule Consumer_Run_keeps [where good = "all_keep keep"]) (use step assms(1) in blast)+
  then show ?thesis using host_capacity assms(3) by blast
qed

end

section \<open>The gateway's side of an outcome\<close>

text \<open>What one delivered outcome makes the fleet do.\<close>

lemma outcome_hires:
  assumes "ho_Accepted oc" "find_driver (ho_WorkplaceId oc) f = Some k" "sim_SubmitIntent P (l @ [SubmitIntent (Hire (ho_PipId oc) (ho_WorkplaceId oc))]) = Inr x"
  shows "\<exists>f'. outcomes_loop (Fleet_OnHired P) [Some oc] (f, l) =
      ([Acked], f', l @ [SubmitIntent (Hire (ho_PipId oc) (ho_WorkplaceId oc)), ReadClock])
    \<and> ho_PipId oc |\<in>| d_employed (f_drivers f' ! k) \<and> fmlookup (d_pending (f_drivers f' ! k)) (ho_PipId oc) = None"
proof -
  have "k < length (f_drivers f)" "d_id (f_drivers f ! k) = ho_WorkplaceId oc"
    using assms(2) by (auto simp: find_driver_def find_Some_iff)
  then show ?thesis
    using assms by (simp add: Fleet_OnHired_def Driver_OnHired_def ask_def set_driver_def Fleet.update_convs)
qed

lemma outcome_ignored:
  "\<not> ho_Accepted oc \<or> find_driver (ho_WorkplaceId oc) f = None \<Longrightarrow>
    outcomes_loop (Fleet_OnHired P) [Some oc] (f, l) = ([Acked], f, l)"
  by (auto simp: Fleet_OnHired_def)

text \<open>
  C13: An offer comes back as a hire. Take an offer the broker accepted for the kind farm. The declarations of
  the two programs agree, and route it to the queue the farm consumes and the gateway measures, and the
  answer to the queue the gateway consumes. The farm acknowledges it with an outcome for this pip and
  tick; if the outcome says hired, the building it names has the pip on shift, and the gateway, when it
  drives that building, submits exactly the hire of the pip by it and believes in it from then on; any
  other outcome makes it do nothing.
\<close>

theorem offer_becomes_hire:
  assumes farm: "all_keep (redis_ok MaxWorkers) h" "0 \<notin> set (Host_ids h)" "\<And>i. redis_legal (e i)"
    and sent: "Driver_offer P d pip tick l = (True, d', l')" "d_kind d = ''farm''"
    and codec: "\<And>m b. marshal_work_offer P m = Inr b \<Longrightarrow> unmarshal_offer dl b = Some m"
      "\<And>oc. \<exists>b. marshal_outcome dl oc = Inr b" "publish_error dl = None"
    and core: "\<And>lg. \<exists>x. sim_SubmitIntent P lg = Inr x"
  shows "routed both_declare gw_exchange (offerPrefix @ d_kind d) = [offerQueue] \<and> routed both_declare exchange hiredKey = [hiredQueue]
    \<and> (\<forall>a \<in> set both_declare. \<forall>b \<in> set both_declare. \<not> clashes a b)
    \<and> (\<exists>l1 body oc h'. l' = l1 @ [Publish gw_exchange (offerPrefix @ d_kind d) body ''10000'']
      \<and> Consumer_handle (Host_ConsiderOffer (\<lambda>i. RedisStore (FarmRedis i)) e) ''farm'' dl h body = (Acked, Some oc, h')
      \<and> ho_PipId oc = pip \<and> ho_Tick oc = tick
      \<and> (case find_driver (ho_WorkplaceId oc) f of
           Some k \<Rightarrow> if ho_Accepted oc then employs redis_held h' (ho_WorkplaceId oc) pip \<and>
               (\<exists>f'. outcomes_loop (Fleet_OnHired P) [Some oc] (f, lg) =
                  ([Acked], f', lg @ [SubmitIntent (Hire pip (ho_WorkplaceId oc)), ReadClock])
                \<and> pip |\<in>| d_employed (f_drivers f' ! k))
             else outcomes_loop (Fleet_OnHired P) [Some oc] (f, lg) = ([Acked], f, lg)
         | None \<Rightarrow> outcomes_loop (Fleet_OnHired P) [Some oc] (f, lg) = ([Acked], f, lg)))"
proof -
  have routes: "routed both_declare gw_exchange (offerPrefix @ d_kind d) = [offerQueue]"
    using topology(1) [of "d_kind d"] sent(2) by (simp add: workQueuePrefix_def offerQueue_def)
  have good: "all_keep (redis_ok MaxWorkers) h \<and> 0 \<notin> set (Host_ids h) \<and> (\<forall>i. redis_legal (e i))" using farm by blast
  have decided: "\<exists>l1 body oc s'. l' = l1 @ [Publish gw_exchange (offerPrefix @ d_kind d) body ''10000'']
    \<and> Consumer_handle (Host_ConsiderOffer (\<lambda>i. RedisStore (FarmRedis i)) e) ''farm'' dl h body = (Acked, Some oc, s')
    \<and> ho_PipId oc = pip \<and> ho_Tick oc = tick \<and> ho_WorkplaceKind oc = ''farm''
    \<and> (ho_Accepted oc \<longrightarrow> ho_WorkplaceId oc \<noteq> 0 \<and> employs redis_held s' (ho_WorkplaceId oc) pip)"
    by (rule redis_host.workplace.offer_decided [OF good sent(1)]) (use codec in blast)+
  then obtain l1 body oc h' where o: "l' = l1 @ [Publish gw_exchange (offerPrefix @ d_kind d) body ''10000'']"
    "Consumer_handle (Host_ConsiderOffer (\<lambda>i. RedisStore (FarmRedis i)) e) ''farm'' dl h body = (Acked, Some oc, h')"
    "ho_PipId oc = pip" "ho_Tick oc = tick" "ho_Accepted oc \<longrightarrow> employs redis_held h' (ho_WorkplaceId oc) pip"
    by blast
  have "case find_driver (ho_WorkplaceId oc) f of
           Some k \<Rightarrow> if ho_Accepted oc then employs redis_held h' (ho_WorkplaceId oc) pip \<and>
               (\<exists>f'. outcomes_loop (Fleet_OnHired P) [Some oc] (f, lg) =
                  ([Acked], f', lg @ [SubmitIntent (Hire pip (ho_WorkplaceId oc)), ReadClock])
                \<and> pip |\<in>| d_employed (f_drivers f' ! k))
             else outcomes_loop (Fleet_OnHired P) [Some oc] (f, lg) = ([Acked], f, lg)
         | None \<Rightarrow> outcomes_loop (Fleet_OnHired P) [Some oc] (f, lg) = ([Acked], f, lg)"
  proof (cases "ho_Accepted oc \<and> find_driver (ho_WorkplaceId oc) f \<noteq> None")
    case True
    then obtain k where k: "find_driver (ho_WorkplaceId oc) f = Some k" by blast
    obtain x where x: "sim_SubmitIntent P (lg @ [SubmitIntent (Hire (ho_PipId oc) (ho_WorkplaceId oc))]) = Inr x" using core by blast
    from outcome_hires [OF _ k x] True k o(3,5) show ?thesis by auto
  next
    case False
    then have "outcomes_loop (Fleet_OnHired P) [Some oc] (f, lg) = ([Acked], f, lg)" by (intro outcome_ignored) blast
    with False show ?thesis by (auto split: option.split)
  qed
  with o routes topology(2,3) show ?thesis by blast
qed

definition redis_quiet :: redis_env where
  "redis_quiet = \<lparr>now_ms = 0, hgetall = \<lambda>h. h, first_cmd = Answered, second_cmd = Answered\<rparr>"

text \<open>Offers of tick 5 without a trace, printed as the pip's id; an empty farm of one building.\<close>

definition plain_offers :: peers where
  "plain_offers = (calm [])\<lparr>marshal_work_offer := \<lambda>m. if wo_Tick m = 5 \<and> wo_TraceId m = []
     then Inr (FormatUint (wo_PipId m)) else Inl ''unprintable''\<rparr>"

definition plain_delivery :: delivery_env where
  "plain_delivery = \<lparr>unmarshal_offer = \<lambda>b. map_option (\<lambda>p. \<lparr>wo_PipId = p, wo_Tick = 5, wo_TraceId = []\<rparr>) (ParseUint b),
     marshal_outcome = \<lambda>_. Inr [], publish_error = None\<rparr>"

theorem offer_becomes_hire_witness:
  "\<exists>oc h'. Consumer_handle (Host_ConsiderOffer (\<lambda>i. RedisStore (FarmRedis i)) (\<lambda>_. redis_quiet)) ''farm'' plain_delivery
      (NewHost [(1, [] :: redis_hash)]) (FormatUint 7) = (Acked, Some oc, h') \<and> ho_PipId oc = 7 \<and> ho_Tick oc = 5"
proof -
  let ?h = "NewHost [(1, [] :: redis_hash)]" and ?d = "NewDriverFor ''farm:8090'' fmempty 1 ''farm''"
  have farm: "all_keep (redis_ok MaxWorkers) ?h" by (rule NewHost_keep) (auto simp: redis_ok_def)
  have ids: "0 \<notin> set (Host_ids ?h)" by (simp add: Host_ids_def NewHost_def)
  have legal: "redis_legal redis_quiet" by (simp add: redis_legal_def redis_quiet_def)
  have "\<exists>d'. Driver_offer plain_offers ?d 7 5 [] =
      (True, d', [ReadClock, Publish gw_exchange (offerPrefix @ ''farm'') (FormatUint 7) ''10000''])"
    by (simp add: Driver_offer_def NewDriverFor_def NewDriver_def plain_offers_def calm_def ask_def Publisher_Offer_def)
  then obtain d' where sent: "Driver_offer plain_offers ?d 7 5 [] =
      (True, d', [ReadClock, Publish gw_exchange (offerPrefix @ ''farm'') (FormatUint 7) ''10000''])" by blast
  have kind: "d_kind ?d = ''farm''" by (simp add: NewDriverFor_def)
  have codec: "marshal_work_offer plain_offers m = Inr b \<Longrightarrow> unmarshal_offer plain_delivery b = Some m" for m b
    by (cases m) (auto simp: plain_offers_def plain_delivery_def split: if_splits)
  have "\<exists>x. sim_SubmitIntent plain_offers lg = Inr x" for lg by (auto simp: plain_offers_def calm_def)
  moreover have "\<exists>b. marshal_outcome plain_delivery oc = Inr b" "publish_error plain_delivery = None" for oc
    by (simp_all add: plain_delivery_def)
  moreover note codec
  ultimately show ?thesis
    using offer_becomes_hire [where dl = plain_delivery and P = plain_offers, OF farm ids legal sent kind] by fastforce
qed

end
