(* ===== verification/Gateway.thy ===== *)
theory Gateway
  imports Fleet
begin

text \<open>
  The service browsers talk to (\<^verbatim>\<open>services/world-gateway/internal/gateway\<close>): the RPC handlers of
  \<^verbatim>\<open>gateway.go\<close>, over sim-core and the economy as functions it may or may not have, and the services on
  the map of \<^verbatim>\<open>structures.go\<close>. As in \<open>GatewayPeers\<close>, what is outside answers by the log of calls; the
  health endpoints and the browser's stream are parameters of their own.
\<close>

section \<open>The server\<close>

record Server =
  sv_simSeed :: u64
  sv_tickHz :: i32
  sv_describe :: "(call_log \<Rightarrow> DescribeResponse list \<times> call_log) option"
  sv_buy :: "(u64 \<Rightarrow> u64 \<Rightarrow> ResourceKind \<Rightarrow> u64 \<Rightarrow> call_log \<Rightarrow> (bool \<times> string \<times> i64) response \<times> call_log) option"

definition NewServer :: "u64 \<Rightarrow> i32 \<Rightarrow> Server" where
  "NewServer seed hz = \<lparr>sv_simSeed = seed, sv_tickHz = hz, sv_describe = None, sv_buy = None\<rparr>"

definition WithWorkplaces where "WithWorkplaces s describe = s\<lparr>sv_describe := Some describe\<rparr>"

definition WithBuy where "WithBuy s buy = s\<lparr>sv_buy := Some buy\<rparr>"

record JoinWorldResponse =
  jw_Tick :: u64
  jw_TickHz :: i32
  jw_SimSeed :: u64
  jw_Pips :: "Pip list"
  jw_Structures :: "SimStructure list"
  jw_Workplaces :: "DescribeResponse list"
  jw_Buildings :: "SimWorkplace list"

definition Server_JoinWorld :: "peers \<Rightarrow> Server \<Rightarrow> call_log \<Rightarrow> JoinWorldResponse response \<times> call_log" where
  "Server_JoinWorld P s l =
     (case ask (sim_Snapshot P) Snapshot l of
        (Inl (code, err), l1) \<Rightarrow> (Inl (CodeUnavailable, err), l1)
      | (Inr snap, l1) \<Rightarrow>
        (let (workplaces, l2) = (case sv_describe s of None \<Rightarrow> ([], l1) | Some describe \<Rightarrow> describe l1) in
         (Inr \<lparr>jw_Tick = snap_tick snap, jw_TickHz = sv_tickHz s, jw_SimSeed = sv_simSeed s, jw_Pips = snap_pips snap,
               jw_Structures = snap_structures snap, jw_Workplaces = workplaces, jw_Buildings = snap_workplaces snap\<rparr>, l2)))"

text \<open>
  \<^verbatim>\<open>StreamWorld\<close>: \<open>ups\<close> are the deltas the upstream delivers before it ends with \<open>up_err\<close>; \<open>send i\<close> is the
  outcome of the \<open>i\<close>-th send, \<open>cancelled i\<close> whether the caller's context is done after \<open>i\<close> sends. The
  result: an error or none, and the deltas sent.
\<close>

datatype send_outcome = Sent | SendEOF | SendFailed go_error

record 'd stream_env =
  watch_error :: "go_error option"
  upstream_deltas :: "'d list"
  upstream_err :: "go_error option"
  send_result :: "nat \<Rightarrow> send_outcome"
  ctx_done :: "nat \<Rightarrow> bool"

fun stream_loop :: "'d stream_env \<Rightarrow> 'd list \<Rightarrow> 'd list \<Rightarrow> unit response \<times> 'd list" where
  "stream_loop e [] sent =
     (case upstream_err e of
        Some err \<Rightarrow> (if \<not> ctx_done e (length sent) then (Inl (CodeUnavailable, err), sent) else (Inr (), sent))
      | None \<Rightarrow> (Inr (), sent))"
| "stream_loop e (d # ds) sent =
     (case send_result e (length sent) of
        Sent \<Rightarrow> stream_loop e ds (sent @ [d])
      | SendEOF \<Rightarrow> (Inr (), sent)
      | SendFailed err \<Rightarrow> (if ctx_done e (length sent) then (Inr (), sent) else (Inl (CodeOther, err), sent)))"

definition Server_StreamWorld :: "'d stream_env \<Rightarrow> unit response \<times> 'd list" where
  "Server_StreamWorld e =
     (case watch_error e of
        Some err \<Rightarrow> (Inl (CodeUnavailable, err), [])
      | None \<Rightarrow> stream_loop e (upstream_deltas e) [])"

definition Server_AssignWork :: "peers \<Rightarrow> u64 \<Rightarrow> u64 \<Rightarrow> call_log \<Rightarrow> (bool \<times> string) response \<times> call_log" where
  "Server_AssignWork P pip w l =
     (case ask (sim_SubmitIntent P) (SubmitIntent (Hire pip w)) l of
        (Inl (code, err), l1) \<Rightarrow> (Inl (CodeUnavailable, err), l1)
      | (Inr (acc, reason), l1) \<Rightarrow> (Inr (acc, reason), l1))"

definition Server_Buy ::
  "peers \<Rightarrow> Server \<Rightarrow> u64 \<Rightarrow> u64 \<Rightarrow> ResourceKind \<Rightarrow> call_log \<Rightarrow> (bool \<times> string \<times> i64) response \<times> call_log"
where
  "Server_Buy P s pip w kind l =
     (case sv_buy s of
        None \<Rightarrow> (Inl (CodeUnimplemented, ''no economy wired up''), l)
      | Some buy \<Rightarrow>
        (case ask (sim_Snapshot P) Snapshot l of
           (Inl (code, err), l1) \<Rightarrow> (Inl (CodeUnavailable, err), l1)
         | (Inr snap, l1) \<Rightarrow>
           (case buy pip w kind (snap_tick snap) l1 of
              (Inl (code, err), l2) \<Rightarrow> (Inl (CodeUnavailable, err), l2)
            | (Inr (ok, reason, price), l2) \<Rightarrow> (Inr (ok, reason, price), l2))))"

definition Server_BuildWorkplace :: "u64 response" where
  "Server_BuildWorkplace = Inl (CodeUnimplemented, ''no workplace services deployed yet'')"

section \<open>Services on the map\<close>

definition structureRowY :: int where "structureRowY = 1500"
definition structureSpacingX :: int where "structureSpacingX = 4000"
definition structureFirstX :: int where "structureFirstX = 2000"
definition structureIDBase :: int where "structureIDBase = 900000"

record Structure =
  st_Kind :: string
  st_Role :: string
  st_HealthURL :: string

text \<open>The fields after the second bar are ignored, as are entries without a kind.\<close>

definition parse_structure :: "string \<Rightarrow> Structure option" where
  "parse_structure entry0 =
     (let e = TrimSpace entry0 in
      if e = [] then None
      else
        (let parts = split_on CHR ''|'' e; kind = TrimSpace (hd parts) in
         if kind = [] then None
         else Some \<lparr>st_Kind = kind,
                    st_Role = (if 1 < length parts then TrimSpace (parts ! 1) else []),
                    st_HealthURL = (if 2 < length parts then TrimSpace (parts ! 2) else [])\<rparr>))"

definition ParseStructures :: "string \<Rightarrow> Structure list" where
  "ParseStructures raw = List.map_filter parse_structure (split_on CHR '';'' raw)"

text \<open>\<open>poll u\<close>: the status the health endpoint answers, if it answers in time.\<close>

definition structure_healthy :: "(string \<Rightarrow> nat option) \<Rightarrow> Structure \<Rightarrow> bool" where
  "structure_healthy poll s = (st_HealthURL s = [] \<or> poll (st_HealthURL s) = Some 200)"

definition structure_intent :: "nat \<Rightarrow> Structure \<Rightarrow> bool \<Rightarrow> intent" where
  "structure_intent i s healthy =
     RegisterStructure (of_int (structureIDBase + int i)) (st_Kind s)
       \<lparr>x_milli = of_int (structureFirstX + int i * structureSpacingX), y_milli = of_int structureRowY\<rparr>
       (st_Role s) healthy"

text \<open>One pass; the health of the \<open>i\<close>-th structure is polled when its turn comes, an error does not end it.\<close>

fun register_from :: "peers \<Rightarrow> (nat \<Rightarrow> string \<Rightarrow> nat option) \<Rightarrow> nat \<Rightarrow> Structure list \<Rightarrow> call_log \<Rightarrow> call_log" where
  "register_from P poll i [] l = l"
| "register_from P poll i (s # ss) l =
     (let healthy = structure_healthy (poll i) s;
          (_, l1) = ask (sim_SubmitIntent P) (SubmitIntent (structure_intent i s healthy)) l
      in register_from P poll (Suc i) ss l1)"

definition registerAll where
  "registerAll P poll structures l = register_from P poll 0 structures l"

text \<open>\<^verbatim>\<open>Run\<close>, for as many beats as it gets; without structures it returns at once.\<close>

fun StructureRegistrar_Run ::
  "peers \<Rightarrow> (nat \<Rightarrow> nat \<Rightarrow> string \<Rightarrow> nat option) \<Rightarrow> nat \<Rightarrow> Structure list \<Rightarrow> call_log \<Rightarrow> call_log"
where
  "StructureRegistrar_Run P poll 0 structures l = l"
| "StructureRegistrar_Run P poll (Suc beats) structures l =
     (if structures = [] then l
      else StructureRegistrar_Run P poll beats structures (registerAll P (poll beats) structures l))"

end
