(* ===== verification/GatewayProps.thy ===== *)
theory GatewayProps
  imports Startup FleetProps
begin

text \<open>
  The properties of the gateway's front and of the commands' configuration: the services on the map, what a
  browser's stream carries, and the positions of the buildings.
\<close>

section \<open>Services on the map\<close>

lemma register_from_log:
  "register_from P poll i ss l =
    l @ map (\<lambda>(j, s). SubmitIntent (structure_intent j s (structure_healthy (poll j) s))) (enumerate i ss)"
  by (induction ss arbitrary: i l) (simp_all add: ask_def Let_def)

text \<open>An entry that says what it means: trimmed fields without the separators, and a kind.\<close>

definition clean_field :: "string \<Rightarrow> bool" where
  "clean_field s \<longleftrightarrow> CHR '';'' \<notin> set s \<and> CHR ''|'' \<notin> set s \<and> TrimSpace s = s"

definition show_structure :: "Structure \<Rightarrow> string" where
  "show_structure s = st_Kind s @ CHR ''|'' # st_Role s @ CHR ''|'' # st_HealthURL s"

lemma trim_idem_ends: "TrimSpace s = s \<Longrightarrow> s \<noteq> [] \<Longrightarrow> \<not> is_space (hd s) \<and> \<not> is_space (last s)"
proof -
  assume t: "TrimSpace s = s" "s \<noteq> []"
  have hd: "dropWhile is_space s = s"
  proof (rule ccontr)
    assume ne: "dropWhile is_space s \<noteq> s"
    then have "length (dropWhile is_space s) < length s"
      by (metis dropWhile_eq_self_iff length_dropWhile_le le_neq_implies_less hd_Cons_tl dropWhile.simps(2) length_Cons less_Suc_eq_le)
    moreover have "length (TrimSpace s) \<le> length (dropWhile is_space s)"
      using length_dropWhile_le [of is_space "rev (dropWhile is_space s)"] by (simp add: TrimSpace_def trim_def)
    ultimately show False using t by simp
  qed
  then have "rev (dropWhile is_space (rev s)) = s" using t by (simp add: TrimSpace_def trim_def)
  then have "dropWhile is_space (rev s) = rev s" by (metis rev_rev_ident)
  with hd t(2) show ?thesis by (auto simp: dropWhile_eq_self_iff hd_rev)
qed

lemma trim_drop_end: "s \<noteq> [] \<Longrightarrow> \<not> is_space (hd s) \<Longrightarrow> TrimSpace s = rev (dropWhile is_space (rev s))"
  by (simp add: TrimSpace_def trim_def dropWhile_eq_self_iff [THEN iffD2])

lemma parse_show_structure:
  assumes "st_Kind s \<noteq> []" "clean_field (st_Kind s)" "clean_field (st_Role s)" "clean_field (st_HealthURL s)"
  shows "parse_structure (show_structure s) = Some s"
proof -
  have kind: "\<not> is_space (hd (st_Kind s))" using trim_idem_ends assms(1,2) by (simp add: clean_field_def)
  have "TrimSpace (show_structure s) = show_structure s"
  proof (cases "st_HealthURL s = []")
    case True
    with assms(1) kind show ?thesis unfolding TrimSpace_def show_structure_def
      by (intro trim_id) (simp_all add: is_space_def)
  next
    case False
    then have "\<not> is_space (last (st_HealthURL s))" using trim_idem_ends assms(4) by (simp add: clean_field_def)
    with assms(1) kind False show ?thesis unfolding TrimSpace_def show_structure_def
      by (intro trim_id) simp_all
  qed
  moreover have "split_on CHR ''|'' (show_structure s) = [st_Kind s, st_Role s, st_HealthURL s]"
    using split_on_join [of "[st_Kind s, st_Role s, st_HealthURL s]" "CHR ''|''"] assms(2-4)
    by (auto simp: show_structure_def clean_field_def)
  moreover have "show_structure s \<noteq> []" by (simp add: show_structure_def)
  ultimately show ?thesis using assms by (simp add: parse_structure_def clean_field_def Let_def)
qed

lemma structure_ids_distinct:
  "int n \<le> 2 ^ 63 \<Longrightarrow> distinct (map (\<lambda>i. of_int (structureIDBase + int i) :: u64) [0..<n])"
  unfolding distinct_map
proof (intro conjI)
  assume n: "int n \<le> 2 ^ 63"
  show "inj_on (\<lambda>i. of_int (structureIDBase + int i) :: u64) (set [0..<n])"
  proof (rule inj_onI)
    fix i j assume "i \<in> set [0..<n]" "j \<in> set [0..<n]"
      and eq: "(of_int (structureIDBase + int i) :: u64) = of_int (structureIDBase + int j)"
    then have "int i < 2 ^ 63" "int j < 2 ^ 63" using n by auto
    then have "take_bit 64 (structureIDBase + int i) = structureIDBase + int i" "take_bit 64 (structureIDBase + int j) = structureIDBase + int j"
      by (simp_all add: structureIDBase_def take_bit_int_eq_self)
    moreover have width: "len_of TYPE(64) = (64 :: nat)" by simp
    have "take_bit 64 (structureIDBase + int i) = take_bit 64 (structureIDBase + int j)"
      using eq unfolding word_of_int_eq_iff width .
    ultimately have "structureIDBase + int i = structureIDBase + int j" by metis
    then show "i = j" by linarith
  qed
qed simp

text \<open>
  C40: The services configured are the services drawn. A list of services printed as the variable holds it is
  read back; a pass then submits one registration for each of them, in order, whatever the earlier ones
  were answered, lit exactly when nothing is polled or the endpoint answered 200; and no two of them share
  an id.
\<close>

theorem structures_on_the_map:
  assumes "ss \<noteq> []" "int (length ss) \<le> 2 ^ 63"
    and "\<And>s. s \<in> set ss \<Longrightarrow> st_Kind s \<noteq> [] \<and> clean_field (st_Kind s) \<and> clean_field (st_Role s) \<and> clean_field (st_HealthURL s)"
  shows "ParseStructures (join_with CHR '';'' (map show_structure ss)) = ss
    \<and> registerAll P poll ss l = l @ map (\<lambda>(i, s). SubmitIntent (structure_intent i s
        (st_HealthURL s = [] \<or> poll i (st_HealthURL s) = Some 200))) (enumerate 0 ss)
    \<and> distinct (map (\<lambda>i. of_int (structureIDBase + int i) :: u64) [0..<length ss])"
proof (intro conjI)
  have "split_on CHR '';'' (join_with CHR '';'' (map show_structure ss)) = map show_structure ss"
    by (rule split_on_join) (use assms in \<open>auto simp: show_structure_def clean_field_def\<close>)
  moreover have "List.map_filter parse_structure (map show_structure ts) = ts" if "set ts \<subseteq> set ss" for ts
    using that by (induction ts) (simp_all add: parse_show_structure assms(3))
  ultimately show "ParseStructures (join_with CHR '';'' (map show_structure ss)) = ss" by (simp add: ParseStructures_def)
  show "registerAll P poll ss l = l @ map (\<lambda>(i, s). SubmitIntent (structure_intent i s
        (st_HealthURL s = [] \<or> poll i (st_HealthURL s) = Some 200))) (enumerate 0 ss)"
    by (simp add: registerAll_def register_from_log structure_healthy_def)
  show "distinct (map (\<lambda>i. of_int (structureIDBase + int i) :: u64) [0..<length ss])"
    using assms(2) by (rule structure_ids_distinct)
qed

theorem structures_on_the_map_witness:
  "ParseStructures ''bank|ledger|http://bank/healthz;sim-core|the world|'' =
     [\<lparr>st_Kind = ''bank'', st_Role = ''ledger'', st_HealthURL = ''http://bank/healthz''\<rparr>,
      \<lparr>st_Kind = ''sim-core'', st_Role = ''the world'', st_HealthURL = []\<rparr>]"
proof -
  let ?ss = "[\<lparr>st_Kind = ''bank'', st_Role = ''ledger'', st_HealthURL = ''http://bank/healthz''\<rparr>,
      \<lparr>st_Kind = ''sim-core'', st_Role = ''the world'', st_HealthURL = []\<rparr>] :: Structure list"
  have "ParseStructures (join_with CHR '';'' (map show_structure ?ss)) = ?ss"
    by (rule conjunct1 [OF structures_on_the_map]) (auto simp: clean_field_def TrimSpace_def trim_def is_space_def)
  then show ?thesis by (simp add: show_structure_def)
qed

section \<open>Positions\<close>

definition show_position :: "u64 \<times> Vec2 \<Rightarrow> string" where
  "show_position p = FormatUint (fst p) @ CHR '':'' # show_int (sint (x_milli (snd p))) @ CHR '':'' # show_int (sint (y_milli (snd p)))"

lemma show_nat_hd: "is_digit (hd (show_nat n))" "is_digit (last (show_nat n))"
  using show_nat_digits [of n] show_nat_ne [of n] by (auto simp: list_all_iff)

lemma ParseUint_show_nat: "n < 2 ^ 64 \<Longrightarrow> ParseUint (show_nat n) = Some (of_nat n)"
  by (simp add: ParseUint_def)

lemma ParseInt_show_int:
  assumes "- (2 ^ 31) \<le> n" "n < 2 ^ 31"
  shows "ParseInt 32 (show_int n) = Some n"
proof (cases "n < 0")
  case True
  define k where "k = nat (- n)"
  with True assms have k: "n = - int k" "k \<le> 2 ^ 31" "0 < k" by auto
  then have "ParseUint (show_nat k) = Some (of_nat k)" by (intro ParseUint_show_nat) simp
  moreover have "unat (of_nat k :: u64) = k" using k by (simp add: unat_of_nat)
  ultimately show ?thesis using k by (simp add: ParseInt_def show_int_def)
next
  case False
  define k where "k = nat n"
  with False assms have k: "n = int k" "k < 2 ^ 31" by auto
  obtain c r where cr: "show_nat k = c # r" using show_nat_ne by (cases "show_nat k") auto
  then have "is_digit c" using show_nat_hd(1) [of k] by simp
  then have sign: "c \<noteq> CHR ''+''" "c \<noteq> CHR ''-''" by (auto simp: is_digit_def)
  have "ParseUint (c # r) = Some (of_nat k)" using ParseUint_show_nat [of k] k cr by simp
  moreover have "unat (of_nat k :: u64) = k" using k by (simp add: unat_of_nat)
  ultimately show ?thesis using k sign by (simp add: ParseInt_def show_int_def cr)
qed

lemma show_int_chars: "c \<in> set (show_int n) \<Longrightarrow> is_digit c \<or> c = CHR ''-''"
  using show_nat_digits by (auto simp: show_int_def list_all_iff split: if_splits)

lemma TrimSpace_no_space: "\<forall>c \<in> set s. \<not> is_space c \<Longrightarrow> TrimSpace s = s"
  by (simp add: TrimSpace_def trim_none)

lemma number_chars: "c \<in> set (show_int n) \<Longrightarrow> \<not> is_space c \<and> c \<noteq> CHR '':'' \<and> c \<noteq> CHR '',''"
  by (drule show_int_chars) (auto simp: is_digit_def is_space_def)

lemma id_chars: "c \<in> set (FormatUint i) \<Longrightarrow> \<not> is_space c \<and> c \<noteq> CHR '':'' \<and> c \<noteq> CHR '',''"
  using show_nat_digits [of "unat i"] by (auto simp: FormatUint_def list_all_iff is_digit_def is_space_def)

lemma show_position_chars: "c \<in> set (show_position p) \<Longrightarrow> \<not> is_space c \<and> c \<noteq> CHR '',''"
  by (auto simp: show_position_def is_space_def dest: number_chars id_chars)

lemma parse_show_position:
  assumes "fst p \<noteq> 0"
  shows "parse_position (show_position p) = Inr p"
proof -
  let ?x = "sint (x_milli (snd p))" and ?y = "sint (y_milli (snd p))"
  have "split_on CHR '':'' (show_position p) = [FormatUint (fst p), show_int ?x, show_int ?y]"
    using split_on_join [of "[FormatUint (fst p), show_int ?x, show_int ?y]" "CHR '':''"] number_chars id_chars
    by (fastforce simp: show_position_def)
  moreover have "TrimSpace (show_int n) = show_int n" for n using number_chars by (intro TrimSpace_no_space) blast
  moreover have "ParseInt 32 (show_int ?x) = Some ?x" "ParseInt 32 (show_int ?y) = Some ?y"
    using sint_greater_eq [of "x_milli (snd p)"] sint_less [of "x_milli (snd p)"] sint_greater_eq [of "y_milli (snd p)"]
      sint_less [of "y_milli (snd p)"] by (simp_all add: ParseInt_show_int)
  ultimately show ?thesis using assms by (cases p) (simp add: parse_position_def)
qed

lemma add_positions_exact:
  "(\<exists>m. add_positions ps out = Inr m) \<longleftrightarrow> (\<forall>part \<in> set ps. \<exists>v. parse_position part = Inr v)"
proof (induction ps arbitrary: out)
  case (Cons part ps)
  show ?case
  proof (cases "parse_position part")
    case (Inr p)
    with Cons.IH [of "fmupd (fst p) (snd p) out"] show ?thesis by (cases p) simp
  qed simp
qed simp

lemma add_positions_shown:
  "\<forall>p \<in> set ps. fst p \<noteq> 0 \<Longrightarrow> add_positions (map show_position ps) out = Inr (fold (\<lambda>(i, v). fmupd i v) ps out)"
  by (induction ps arbitrary: out) (simp_all add: parse_show_position split: prod.splits)

text \<open>
  The positions of the buildings are read strictly. The variable is accepted exactly when every entry that
  is not blank is an id other than zero and two 32-bit coordinates; and a list of positions printed as it
  holds them is read back, negative coordinates included, the last entry of an id winning.
\<close>

theorem positions_read_back:
  "((\<exists>m. workplacePositions E = Inr m) \<longleftrightarrow>
      (\<forall>part \<in> set (listed (TrimSpace (E ''WORKPLACE_POSITIONS''))). \<exists>v. parse_position part = Inr v))
    \<and> (ps \<noteq> [] \<longrightarrow> (\<forall>p \<in> set ps. fst p \<noteq> 0) \<longrightarrow> E ''WORKPLACE_POSITIONS'' = join_with CHR '','' (map show_position ps) \<longrightarrow>
        workplacePositions E = Inr (fold (\<lambda>(i, v). fmupd i v) ps fmempty))"
proof (intro conjI impI)
  show "(\<exists>m. workplacePositions E = Inr m) \<longleftrightarrow>
      (\<forall>part \<in> set (listed (TrimSpace (E ''WORKPLACE_POSITIONS''))). \<exists>v. parse_position part = Inr v)"
    unfolding workplacePositions_def by (rule add_positions_exact)
  assume ps: "ps \<noteq> []" "\<forall>p \<in> set ps. fst p \<noteq> 0" and raw: "E ''WORKPLACE_POSITIONS'' = join_with CHR '','' (map show_position ps)"
  have join: "\<forall>c \<in> set (join_with CHR '','' ts). P c" if "\<forall>t \<in> set ts. \<forall>c \<in> set t. P c" "P (CHR '','')" for ts P
    using that by (induction "CHR '',''" ts rule: join_with.induct) auto
  have "TrimSpace (E ''WORKPLACE_POSITIONS'') = E ''WORKPLACE_POSITIONS''"
    unfolding raw by (rule TrimSpace_no_space, rule join) (auto simp: is_space_def dest: show_position_chars)
  moreover have "split_on CHR '','' (join_with CHR '','' (map show_position ps)) = map show_position ps"
    by (rule split_on_join) (use ps show_position_chars in auto)
  moreover have "TrimSpace (show_position p) = show_position p" for p using show_position_chars by (intro TrimSpace_no_space) blast
  moreover have "show_position p \<noteq> []" for p by (simp add: show_position_def)
  ultimately have "listed (TrimSpace (E ''WORKPLACE_POSITIONS'')) = map show_position ps"
    by (simp add: listed_def raw o_def)
  then show "workplacePositions E = Inr (fold (\<lambda>(i, v). fmupd i v) ps fmempty)"
    using add_positions_shown [OF ps(2)] by (simp add: workplacePositions_def)
qed

theorem positions_read_back_witness:
  "workplacePositions (\<lambda>_. join_with CHR '','' [show_position (3, \<lparr>x_milli = - 5, y_milli = 20\<rparr>)]) =
     Inr (fmupd 3 \<lparr>x_milli = - 5, y_milli = 20\<rparr> fmempty)"
  using positions_read_back [THEN conjunct2, of "[(3, \<lparr>x_milli = - 5, y_milli = 20\<rparr>)]"
      "\<lambda>_. join_with CHR '','' [show_position (3, \<lparr>x_milli = - 5, y_milli = 20\<rparr>)]"] by simp

end
