(* ===== verification/Connect.thy ===== *)
theory Connect
  imports Startup
begin

text \<open>
  How a call finds its method: the generated Connect code (\<^verbatim>\<open>gen/go/pips/*/v1/*connect\<close>) gives each
  method a procedure, which is both the path a client posts to and the path a handler switches on; the
  commands mount the handlers on a \<^verbatim>\<open>ServeMux\<close> beside their own endpoints. What travels in a body is
  the library's.
\<close>

section \<open>Paths\<close>

definition TrimRight :: "char \<Rightarrow> string \<Rightarrow> string" where
  "TrimRight c s = rev (dropWhile (\<lambda>x. x = c) (rev s))"

text \<open>The path of an absolute \<^verbatim>\<open>http\<close> URL without a query.\<close>

definition url_path :: "string \<Rightarrow> string" where
  "url_path url = dropWhile (\<lambda>c. c \<noteq> CHR ''/'') (drop (length ''http://'') url)"

text \<open>
  \<^verbatim>\<open>http.ServeMux\<close> on clean paths: of the patterns that match, the longest; a pattern that ends in a
  slash matches every path below it.
\<close>

definition pattern_matches :: "string \<Rightarrow> string \<Rightarrow> bool" where
  "pattern_matches pat path \<longleftrightarrow> path = pat \<or> pat \<noteq> [] \<and> last pat = CHR ''/'' \<and> take (length pat) path = pat"

fun ServeMux :: "(string \<times> 'h) list \<Rightarrow> string \<Rightarrow> (string \<times> 'h) option" where
  "ServeMux [] path = None"
| "ServeMux ((pat, h) # ps) path =
     (if \<not> pattern_matches pat path then ServeMux ps path
      else case ServeMux ps path of
             Some (pat', h') \<Rightarrow> if length pat < length pat' then Some (pat', h') else Some (pat, h)
           | None \<Rightarrow> Some (pat, h))"

section \<open>Calls\<close>

text \<open>A call of a client, with its URL, and the kind of method a handler is built for.\<close>

datatype connect_call = CallUnary (posts_to: string) | CallServerStream (posts_to: string)

datatype stream_type = Unary | ServerStream

fun call_type :: "connect_call \<Rightarrow> stream_type" where
  "call_type (CallUnary url) = Unary"
| "call_type (CallServerStream url) = ServerStream"

section \<open>BankService\<close>

datatype bank_rpc = BankOpenAccount | BankTransfer | BankBatchTransfer | BankGetBalance

definition BankServiceName :: string where "BankServiceName = ''pips.bank.v1.BankService''"
definition BankServiceOpenAccountProcedure :: string where "BankServiceOpenAccountProcedure = ''/pips.bank.v1.BankService/OpenAccount''"
definition BankServiceTransferProcedure :: string where "BankServiceTransferProcedure = ''/pips.bank.v1.BankService/Transfer''"
definition BankServiceBatchTransferProcedure :: string where "BankServiceBatchTransferProcedure = ''/pips.bank.v1.BankService/BatchTransfer''"
definition BankServiceGetBalanceProcedure :: string where "BankServiceGetBalanceProcedure = ''/pips.bank.v1.BankService/GetBalance''"

text \<open>The client holds the URL of each method; a method posts to its own.\<close>

record bankServiceClient =
  bank_openAccount :: string
  bank_transfer :: string
  bank_batchTransfer :: string
  bank_getBalance :: string

definition NewBankServiceClient :: "string \<Rightarrow> bankServiceClient" where
  "NewBankServiceClient base =
     (let baseURL = TrimRight CHR ''/'' base in
      \<lparr>bank_openAccount = baseURL @ BankServiceOpenAccountProcedure,
       bank_transfer = baseURL @ BankServiceTransferProcedure,
       bank_batchTransfer = baseURL @ BankServiceBatchTransferProcedure,
       bank_getBalance = baseURL @ BankServiceGetBalanceProcedure\<rparr>)"

fun bank_client_call :: "bankServiceClient \<Rightarrow> bank_rpc \<Rightarrow> connect_call" where
  "bank_client_call c BankOpenAccount = CallUnary (bank_openAccount c)"
| "bank_client_call c BankTransfer = CallUnary (bank_transfer c)"
| "bank_client_call c BankBatchTransfer = CallUnary (bank_batchTransfer c)"
| "bank_client_call c BankGetBalance = CallUnary (bank_getBalance c)"

definition bank_client_url :: "string \<Rightarrow> bank_rpc \<Rightarrow> string" where
  "bank_client_url baseURL m = posts_to (bank_client_call (NewBankServiceClient baseURL) m)"

lemma bank_client_urls [simp]:
  "bank_client_url baseURL BankOpenAccount = TrimRight CHR ''/'' baseURL @ BankServiceOpenAccountProcedure"
  "bank_client_url baseURL BankTransfer = TrimRight CHR ''/'' baseURL @ BankServiceTransferProcedure"
  "bank_client_url baseURL BankBatchTransfer = TrimRight CHR ''/'' baseURL @ BankServiceBatchTransferProcedure"
  "bank_client_url baseURL BankGetBalance = TrimRight CHR ''/'' baseURL @ BankServiceGetBalanceProcedure"
  by (simp_all add: bank_client_url_def NewBankServiceClient_def Let_def)

text \<open>The handler: where it is mounted, and its switch on the path; \<open>None\<close> is \<^verbatim>\<open>http.NotFound\<close>.\<close>

definition bank_service_route :: "string \<Rightarrow> bank_rpc option" where
  "bank_service_route path =
     (if path = BankServiceOpenAccountProcedure then Some BankOpenAccount
      else if path = BankServiceTransferProcedure then Some BankTransfer
      else if path = BankServiceBatchTransferProcedure then Some BankBatchTransfer
      else if path = BankServiceGetBalanceProcedure then Some BankGetBalance
      else None)"

definition NewBankServiceHandler :: "string \<times> (string \<Rightarrow> bank_rpc option)" where
  "NewBankServiceHandler = (''/pips.bank.v1.BankService/'', bank_service_route)"

definition bank_handler_type :: "bank_rpc \<Rightarrow> stream_type" where "bank_handler_type m = Unary"

fun UnimplementedBankServiceHandler :: "bank_rpc \<Rightarrow> 'a response" where
  "UnimplementedBankServiceHandler BankOpenAccount = Inl (CodeUnimplemented, ''pips.bank.v1.BankService.OpenAccount is not implemented'')"
| "UnimplementedBankServiceHandler BankTransfer = Inl (CodeUnimplemented, ''pips.bank.v1.BankService.Transfer is not implemented'')"
| "UnimplementedBankServiceHandler BankBatchTransfer = Inl (CodeUnimplemented, ''pips.bank.v1.BankService.BatchTransfer is not implemented'')"
| "UnimplementedBankServiceHandler BankGetBalance = Inl (CodeUnimplemented, ''pips.bank.v1.BankService.GetBalance is not implemented'')"

lemmas bank_procedures = BankServiceOpenAccountProcedure_def BankServiceTransferProcedure_def BankServiceBatchTransferProcedure_def BankServiceGetBalanceProcedure_def

section \<open>SimService\<close>

datatype sim_rpc = SimStep | SimSnapshot | SimWatchDeltas | SimSubmitIntent

definition SimServiceName :: string where "SimServiceName = ''pips.sim.v1.SimService''"
definition SimServiceStepProcedure :: string where "SimServiceStepProcedure = ''/pips.sim.v1.SimService/Step''"
definition SimServiceSnapshotProcedure :: string where "SimServiceSnapshotProcedure = ''/pips.sim.v1.SimService/Snapshot''"
definition SimServiceWatchDeltasProcedure :: string where "SimServiceWatchDeltasProcedure = ''/pips.sim.v1.SimService/WatchDeltas''"
definition SimServiceSubmitIntentProcedure :: string where "SimServiceSubmitIntentProcedure = ''/pips.sim.v1.SimService/SubmitIntent''"

text \<open>The client holds the URL of each method; a method posts to its own.\<close>

record simServiceClient =
  sim_step :: string
  sim_snapshot :: string
  sim_watchDeltas :: string
  sim_submitIntent :: string

definition NewSimServiceClient :: "string \<Rightarrow> simServiceClient" where
  "NewSimServiceClient base =
     (let baseURL = TrimRight CHR ''/'' base in
      \<lparr>sim_step = baseURL @ SimServiceStepProcedure,
       sim_snapshot = baseURL @ SimServiceSnapshotProcedure,
       sim_watchDeltas = baseURL @ SimServiceWatchDeltasProcedure,
       sim_submitIntent = baseURL @ SimServiceSubmitIntentProcedure\<rparr>)"

fun sim_client_call :: "simServiceClient \<Rightarrow> sim_rpc \<Rightarrow> connect_call" where
  "sim_client_call c SimStep = CallUnary (sim_step c)"
| "sim_client_call c SimSnapshot = CallUnary (sim_snapshot c)"
| "sim_client_call c SimWatchDeltas = CallServerStream (sim_watchDeltas c)"
| "sim_client_call c SimSubmitIntent = CallUnary (sim_submitIntent c)"

definition sim_client_url :: "string \<Rightarrow> sim_rpc \<Rightarrow> string" where
  "sim_client_url baseURL m = posts_to (sim_client_call (NewSimServiceClient baseURL) m)"

lemma sim_client_urls [simp]:
  "sim_client_url baseURL SimStep = TrimRight CHR ''/'' baseURL @ SimServiceStepProcedure"
  "sim_client_url baseURL SimSnapshot = TrimRight CHR ''/'' baseURL @ SimServiceSnapshotProcedure"
  "sim_client_url baseURL SimWatchDeltas = TrimRight CHR ''/'' baseURL @ SimServiceWatchDeltasProcedure"
  "sim_client_url baseURL SimSubmitIntent = TrimRight CHR ''/'' baseURL @ SimServiceSubmitIntentProcedure"
  by (simp_all add: sim_client_url_def NewSimServiceClient_def Let_def)

text \<open>The handler: where it is mounted, and its switch on the path; \<open>None\<close> is \<^verbatim>\<open>http.NotFound\<close>.\<close>

definition sim_service_route :: "string \<Rightarrow> sim_rpc option" where
  "sim_service_route path =
     (if path = SimServiceStepProcedure then Some SimStep
      else if path = SimServiceSnapshotProcedure then Some SimSnapshot
      else if path = SimServiceWatchDeltasProcedure then Some SimWatchDeltas
      else if path = SimServiceSubmitIntentProcedure then Some SimSubmitIntent
      else None)"

definition NewSimServiceHandler :: "string \<times> (string \<Rightarrow> sim_rpc option)" where
  "NewSimServiceHandler = (''/pips.sim.v1.SimService/'', sim_service_route)"

fun sim_handler_type :: "sim_rpc \<Rightarrow> stream_type" where
  "sim_handler_type SimStep = Unary"
| "sim_handler_type SimSnapshot = Unary"
| "sim_handler_type SimWatchDeltas = ServerStream"
| "sim_handler_type SimSubmitIntent = Unary"

fun UnimplementedSimServiceHandler :: "sim_rpc \<Rightarrow> 'a response" where
  "UnimplementedSimServiceHandler SimStep = Inl (CodeUnimplemented, ''pips.sim.v1.SimService.Step is not implemented'')"
| "UnimplementedSimServiceHandler SimSnapshot = Inl (CodeUnimplemented, ''pips.sim.v1.SimService.Snapshot is not implemented'')"
| "UnimplementedSimServiceHandler SimWatchDeltas = Inl (CodeUnimplemented, ''pips.sim.v1.SimService.WatchDeltas is not implemented'')"
| "UnimplementedSimServiceHandler SimSubmitIntent = Inl (CodeUnimplemented, ''pips.sim.v1.SimService.SubmitIntent is not implemented'')"

lemmas sim_procedures = SimServiceStepProcedure_def SimServiceSnapshotProcedure_def SimServiceWatchDeltasProcedure_def SimServiceSubmitIntentProcedure_def

section \<open>WorkplaceService\<close>

datatype workplace_rpc = WorkplaceList | WorkplaceDescribe | WorkplaceCanEmploy | WorkplaceStartShift | WorkplaceWork | WorkplaceEndShift | WorkplaceBuy

definition WorkplaceServiceName :: string where "WorkplaceServiceName = ''pips.workplace.v1.WorkplaceService''"
definition WorkplaceServiceListProcedure :: string where "WorkplaceServiceListProcedure = ''/pips.workplace.v1.WorkplaceService/List''"
definition WorkplaceServiceDescribeProcedure :: string where "WorkplaceServiceDescribeProcedure = ''/pips.workplace.v1.WorkplaceService/Describe''"
definition WorkplaceServiceCanEmployProcedure :: string where "WorkplaceServiceCanEmployProcedure = ''/pips.workplace.v1.WorkplaceService/CanEmploy''"
definition WorkplaceServiceStartShiftProcedure :: string where "WorkplaceServiceStartShiftProcedure = ''/pips.workplace.v1.WorkplaceService/StartShift''"
definition WorkplaceServiceWorkProcedure :: string where "WorkplaceServiceWorkProcedure = ''/pips.workplace.v1.WorkplaceService/Work''"
definition WorkplaceServiceEndShiftProcedure :: string where "WorkplaceServiceEndShiftProcedure = ''/pips.workplace.v1.WorkplaceService/EndShift''"
definition WorkplaceServiceBuyProcedure :: string where "WorkplaceServiceBuyProcedure = ''/pips.workplace.v1.WorkplaceService/Buy''"

text \<open>The client holds the URL of each method; a method posts to its own.\<close>

record workplaceServiceClient =
  workplace_list :: string
  workplace_describe :: string
  workplace_canEmploy :: string
  workplace_startShift :: string
  workplace_work :: string
  workplace_endShift :: string
  workplace_buy :: string

definition NewWorkplaceServiceClient :: "string \<Rightarrow> workplaceServiceClient" where
  "NewWorkplaceServiceClient base =
     (let baseURL = TrimRight CHR ''/'' base in
      \<lparr>workplace_list = baseURL @ WorkplaceServiceListProcedure,
       workplace_describe = baseURL @ WorkplaceServiceDescribeProcedure,
       workplace_canEmploy = baseURL @ WorkplaceServiceCanEmployProcedure,
       workplace_startShift = baseURL @ WorkplaceServiceStartShiftProcedure,
       workplace_work = baseURL @ WorkplaceServiceWorkProcedure,
       workplace_endShift = baseURL @ WorkplaceServiceEndShiftProcedure,
       workplace_buy = baseURL @ WorkplaceServiceBuyProcedure\<rparr>)"

fun workplace_client_call :: "workplaceServiceClient \<Rightarrow> workplace_rpc \<Rightarrow> connect_call" where
  "workplace_client_call c WorkplaceList = CallUnary (workplace_list c)"
| "workplace_client_call c WorkplaceDescribe = CallUnary (workplace_describe c)"
| "workplace_client_call c WorkplaceCanEmploy = CallUnary (workplace_canEmploy c)"
| "workplace_client_call c WorkplaceStartShift = CallUnary (workplace_startShift c)"
| "workplace_client_call c WorkplaceWork = CallUnary (workplace_work c)"
| "workplace_client_call c WorkplaceEndShift = CallUnary (workplace_endShift c)"
| "workplace_client_call c WorkplaceBuy = CallUnary (workplace_buy c)"

definition workplace_client_url :: "string \<Rightarrow> workplace_rpc \<Rightarrow> string" where
  "workplace_client_url baseURL m = posts_to (workplace_client_call (NewWorkplaceServiceClient baseURL) m)"

lemma workplace_client_urls [simp]:
  "workplace_client_url baseURL WorkplaceList = TrimRight CHR ''/'' baseURL @ WorkplaceServiceListProcedure"
  "workplace_client_url baseURL WorkplaceDescribe = TrimRight CHR ''/'' baseURL @ WorkplaceServiceDescribeProcedure"
  "workplace_client_url baseURL WorkplaceCanEmploy = TrimRight CHR ''/'' baseURL @ WorkplaceServiceCanEmployProcedure"
  "workplace_client_url baseURL WorkplaceStartShift = TrimRight CHR ''/'' baseURL @ WorkplaceServiceStartShiftProcedure"
  "workplace_client_url baseURL WorkplaceWork = TrimRight CHR ''/'' baseURL @ WorkplaceServiceWorkProcedure"
  "workplace_client_url baseURL WorkplaceEndShift = TrimRight CHR ''/'' baseURL @ WorkplaceServiceEndShiftProcedure"
  "workplace_client_url baseURL WorkplaceBuy = TrimRight CHR ''/'' baseURL @ WorkplaceServiceBuyProcedure"
  by (simp_all add: workplace_client_url_def NewWorkplaceServiceClient_def Let_def)

text \<open>The handler: where it is mounted, and its switch on the path; \<open>None\<close> is \<^verbatim>\<open>http.NotFound\<close>.\<close>

definition workplace_service_route :: "string \<Rightarrow> workplace_rpc option" where
  "workplace_service_route path =
     (if path = WorkplaceServiceListProcedure then Some WorkplaceList
      else if path = WorkplaceServiceDescribeProcedure then Some WorkplaceDescribe
      else if path = WorkplaceServiceCanEmployProcedure then Some WorkplaceCanEmploy
      else if path = WorkplaceServiceStartShiftProcedure then Some WorkplaceStartShift
      else if path = WorkplaceServiceWorkProcedure then Some WorkplaceWork
      else if path = WorkplaceServiceEndShiftProcedure then Some WorkplaceEndShift
      else if path = WorkplaceServiceBuyProcedure then Some WorkplaceBuy
      else None)"

definition NewWorkplaceServiceHandler :: "string \<times> (string \<Rightarrow> workplace_rpc option)" where
  "NewWorkplaceServiceHandler = (''/pips.workplace.v1.WorkplaceService/'', workplace_service_route)"

definition workplace_handler_type :: "workplace_rpc \<Rightarrow> stream_type" where "workplace_handler_type m = Unary"

fun UnimplementedWorkplaceServiceHandler :: "workplace_rpc \<Rightarrow> 'a response" where
  "UnimplementedWorkplaceServiceHandler WorkplaceList = Inl (CodeUnimplemented, ''pips.workplace.v1.WorkplaceService.List is not implemented'')"
| "UnimplementedWorkplaceServiceHandler WorkplaceDescribe = Inl (CodeUnimplemented, ''pips.workplace.v1.WorkplaceService.Describe is not implemented'')"
| "UnimplementedWorkplaceServiceHandler WorkplaceCanEmploy = Inl (CodeUnimplemented, ''pips.workplace.v1.WorkplaceService.CanEmploy is not implemented'')"
| "UnimplementedWorkplaceServiceHandler WorkplaceStartShift = Inl (CodeUnimplemented, ''pips.workplace.v1.WorkplaceService.StartShift is not implemented'')"
| "UnimplementedWorkplaceServiceHandler WorkplaceWork = Inl (CodeUnimplemented, ''pips.workplace.v1.WorkplaceService.Work is not implemented'')"
| "UnimplementedWorkplaceServiceHandler WorkplaceEndShift = Inl (CodeUnimplemented, ''pips.workplace.v1.WorkplaceService.EndShift is not implemented'')"
| "UnimplementedWorkplaceServiceHandler WorkplaceBuy = Inl (CodeUnimplemented, ''pips.workplace.v1.WorkplaceService.Buy is not implemented'')"

lemmas workplace_procedures = WorkplaceServiceListProcedure_def WorkplaceServiceDescribeProcedure_def WorkplaceServiceCanEmployProcedure_def WorkplaceServiceStartShiftProcedure_def WorkplaceServiceWorkProcedure_def WorkplaceServiceEndShiftProcedure_def WorkplaceServiceBuyProcedure_def

section \<open>WorldService\<close>

datatype world_rpc = WorldJoinWorld | WorldStreamWorld | WorldBuildWorkplace | WorldAssignWork | WorldBuy

definition WorldServiceName :: string where "WorldServiceName = ''pips.world.v1.WorldService''"
definition WorldServiceJoinWorldProcedure :: string where "WorldServiceJoinWorldProcedure = ''/pips.world.v1.WorldService/JoinWorld''"
definition WorldServiceStreamWorldProcedure :: string where "WorldServiceStreamWorldProcedure = ''/pips.world.v1.WorldService/StreamWorld''"
definition WorldServiceBuildWorkplaceProcedure :: string where "WorldServiceBuildWorkplaceProcedure = ''/pips.world.v1.WorldService/BuildWorkplace''"
definition WorldServiceAssignWorkProcedure :: string where "WorldServiceAssignWorkProcedure = ''/pips.world.v1.WorldService/AssignWork''"
definition WorldServiceBuyProcedure :: string where "WorldServiceBuyProcedure = ''/pips.world.v1.WorldService/Buy''"

text \<open>The client holds the URL of each method; a method posts to its own.\<close>

record worldServiceClient =
  world_joinWorld :: string
  world_streamWorld :: string
  world_buildWorkplace :: string
  world_assignWork :: string
  world_buy :: string

definition NewWorldServiceClient :: "string \<Rightarrow> worldServiceClient" where
  "NewWorldServiceClient base =
     (let baseURL = TrimRight CHR ''/'' base in
      \<lparr>world_joinWorld = baseURL @ WorldServiceJoinWorldProcedure,
       world_streamWorld = baseURL @ WorldServiceStreamWorldProcedure,
       world_buildWorkplace = baseURL @ WorldServiceBuildWorkplaceProcedure,
       world_assignWork = baseURL @ WorldServiceAssignWorkProcedure,
       world_buy = baseURL @ WorldServiceBuyProcedure\<rparr>)"

fun world_client_call :: "worldServiceClient \<Rightarrow> world_rpc \<Rightarrow> connect_call" where
  "world_client_call c WorldJoinWorld = CallUnary (world_joinWorld c)"
| "world_client_call c WorldStreamWorld = CallServerStream (world_streamWorld c)"
| "world_client_call c WorldBuildWorkplace = CallUnary (world_buildWorkplace c)"
| "world_client_call c WorldAssignWork = CallUnary (world_assignWork c)"
| "world_client_call c WorldBuy = CallUnary (world_buy c)"

definition world_client_url :: "string \<Rightarrow> world_rpc \<Rightarrow> string" where
  "world_client_url baseURL m = posts_to (world_client_call (NewWorldServiceClient baseURL) m)"

lemma world_client_urls [simp]:
  "world_client_url baseURL WorldJoinWorld = TrimRight CHR ''/'' baseURL @ WorldServiceJoinWorldProcedure"
  "world_client_url baseURL WorldStreamWorld = TrimRight CHR ''/'' baseURL @ WorldServiceStreamWorldProcedure"
  "world_client_url baseURL WorldBuildWorkplace = TrimRight CHR ''/'' baseURL @ WorldServiceBuildWorkplaceProcedure"
  "world_client_url baseURL WorldAssignWork = TrimRight CHR ''/'' baseURL @ WorldServiceAssignWorkProcedure"
  "world_client_url baseURL WorldBuy = TrimRight CHR ''/'' baseURL @ WorldServiceBuyProcedure"
  by (simp_all add: world_client_url_def NewWorldServiceClient_def Let_def)

text \<open>The handler: where it is mounted, and its switch on the path; \<open>None\<close> is \<^verbatim>\<open>http.NotFound\<close>.\<close>

definition world_service_route :: "string \<Rightarrow> world_rpc option" where
  "world_service_route path =
     (if path = WorldServiceJoinWorldProcedure then Some WorldJoinWorld
      else if path = WorldServiceStreamWorldProcedure then Some WorldStreamWorld
      else if path = WorldServiceBuildWorkplaceProcedure then Some WorldBuildWorkplace
      else if path = WorldServiceAssignWorkProcedure then Some WorldAssignWork
      else if path = WorldServiceBuyProcedure then Some WorldBuy
      else None)"

definition NewWorldServiceHandler :: "string \<times> (string \<Rightarrow> world_rpc option)" where
  "NewWorldServiceHandler = (''/pips.world.v1.WorldService/'', world_service_route)"

fun world_handler_type :: "world_rpc \<Rightarrow> stream_type" where
  "world_handler_type WorldJoinWorld = Unary"
| "world_handler_type WorldStreamWorld = ServerStream"
| "world_handler_type WorldBuildWorkplace = Unary"
| "world_handler_type WorldAssignWork = Unary"
| "world_handler_type WorldBuy = Unary"

fun UnimplementedWorldServiceHandler :: "world_rpc \<Rightarrow> 'a response" where
  "UnimplementedWorldServiceHandler WorldJoinWorld = Inl (CodeUnimplemented, ''pips.world.v1.WorldService.JoinWorld is not implemented'')"
| "UnimplementedWorldServiceHandler WorldStreamWorld = Inl (CodeUnimplemented, ''pips.world.v1.WorldService.StreamWorld is not implemented'')"
| "UnimplementedWorldServiceHandler WorldBuildWorkplace = Inl (CodeUnimplemented, ''pips.world.v1.WorldService.BuildWorkplace is not implemented'')"
| "UnimplementedWorldServiceHandler WorldAssignWork = Inl (CodeUnimplemented, ''pips.world.v1.WorldService.AssignWork is not implemented'')"
| "UnimplementedWorldServiceHandler WorldBuy = Inl (CodeUnimplemented, ''pips.world.v1.WorldService.Buy is not implemented'')"

lemmas world_procedures = WorldServiceJoinWorldProcedure_def WorldServiceStreamWorldProcedure_def WorldServiceBuildWorkplaceProcedure_def WorldServiceAssignWorkProcedure_def WorldServiceBuyProcedure_def

section \<open>What the commands mount\<close>

datatype bank_endpoint = BankRpcs | BankHealthz
datatype farm_endpoint = WorkplaceRpcs | DaprEndpoints | ActorEndpoints | FarmHealthz
datatype gateway_endpoint = WorldRpcs | GatewayHealthz

definition bank_mux :: "(string \<times> bank_endpoint) list" where
  "bank_mux = [(fst NewBankServiceHandler, BankRpcs), (''/healthz'', BankHealthz)]"

definition farm_mux :: "(string \<times> farm_endpoint) list" where
  "farm_mux = [(fst NewWorkplaceServiceHandler, WorkplaceRpcs), (''/dapr/'', DaprEndpoints),
     (''/actors/'', ActorEndpoints), (''/healthz'', FarmHealthz)]"

definition gateway_mux :: "(string \<times> gateway_endpoint) list" where
  "gateway_mux = [(fst NewWorldServiceHandler, WorldRpcs), (''/healthz'', GatewayHealthz)]"

text \<open>
  \<^verbatim>\<open>Host.Handler\<close>: the document the sidecar reads at start-up, and the actor calls. The farm mounts it under
  both prefixes; \<open>encode\<close> is the JSON of the document.
\<close>

record dapr_config =
  dc_entities :: "string list"
  dc_actorIdleTimeout :: string
  dc_actorScanInterval :: string
  dc_drainOngoingCallTimeout :: string
  dc_drainRebalancedActors :: bool

definition dapr_config_document :: dapr_config where
  "dapr_config_document =
     \<lparr>dc_entities = [ActorType], dc_actorIdleTimeout = ''1h'', dc_actorScanInterval = ''30s'',
      dc_drainOngoingCallTimeout = ''30s'', dc_drainRebalancedActors = True\<rparr>"

datatype host_endpoint = DaprConfig | ServeActor

definition host_mux :: "(string \<times> host_endpoint) list" where
  "host_mux = [(''/dapr/config'', DaprConfig), (''/actors/'', ServeActor)]"

definition Host_Handler ::
  "(dapr_config \<Rightarrow> string) \<Rightarrow> codec \<Rightarrow> (u64 \<Rightarrow> ('e, 's) Store) \<Rightarrow> (u64 \<Rightarrow> 'e) \<Rightarrow> 's Host \<Rightarrow> string \<Rightarrow> string \<Rightarrow> string \<Rightarrow> reply \<times> 's Host"
where
  "Host_Handler encode c S e h verb path body =
     (case ServeMux host_mux path of
        Some (_, DaprConfig) \<Rightarrow> ((200, encode dapr_config_document), h)
      | Some (_, ServeActor) \<Rightarrow> serveActor c S e h verb path body
      | None \<Rightarrow> ((404, ''404 page not found''), h))"

text \<open>The method a request reaches through a mux that mounts the handler.\<close>

definition bank_serves :: "string \<Rightarrow> bank_rpc option" where
  "bank_serves path = (case ServeMux bank_mux path of Some (_, BankRpcs) \<Rightarrow> snd NewBankServiceHandler path | _ \<Rightarrow> None)"

definition farm_serves :: "string \<Rightarrow> workplace_rpc option" where
  "farm_serves path = (case ServeMux farm_mux path of Some (_, WorkplaceRpcs) \<Rightarrow> snd NewWorkplaceServiceHandler path | _ \<Rightarrow> None)"

definition gateway_serves :: "string \<Rightarrow> world_rpc option" where
  "gateway_serves path = (case ServeMux gateway_mux path of Some (_, WorldRpcs) \<Rightarrow> snd NewWorldServiceHandler path | _ \<Rightarrow> None)"

section \<open>Calls reach their methods\<close>

lemma TrimRight_base: "r \<noteq> [] \<Longrightarrow> last r \<noteq> c \<Longrightarrow> TrimRight c (r @ replicate n c) = r"
  by (cases r rule: rev_cases) (simp_all add: TrimRight_def rev_replicate dropWhile_append)

lemma url_path_of: "CHR ''/'' \<notin> set host \<Longrightarrow> url_path (''http://'' @ host @ CHR ''/'' # p) = CHR ''/'' # p"
proof -
  assume "CHR ''/'' \<notin> set host"
  then have "dropWhile (\<lambda>c. c \<noteq> CHR ''/'') (host @ CHR ''/'' # p) = CHR ''/'' # p"
    by (subst dropWhile_append2) auto
  then show ?thesis by (simp add: url_path_def)
qed

lemma posted_path:
  assumes "host \<noteq> []" "CHR ''/'' \<notin> set host" "proc = CHR ''/'' # p"
  shows "url_path (TrimRight CHR ''/'' (''http://'' @ host @ replicate n CHR ''/'') @ proc) = proc"
proof -
  have "last host \<noteq> CHR ''/''" using assms(2) last_in_set [OF assms(1)] by metis
  then have "last (''http://'' @ host) \<noteq> CHR ''/''" using assms(1) by simp
  from TrimRight_base [OF _ this, of n] have "TrimRight CHR ''/'' (''http://'' @ host @ replicate n CHR ''/'') = ''http://'' @ host" by simp
  then show ?thesis using url_path_of [OF assms(2), of p] by (simp add: assms(3))
qed

lemmas all_procedures = bank_procedures sim_procedures workplace_procedures world_procedures
lemmas mounted = NewBankServiceHandler_def NewWorkplaceServiceHandler_def NewWorldServiceHandler_def
  bank_mux_def farm_mux_def gateway_mux_def pattern_matches_def

text \<open>The procedure of a method, read off its client at an empty base.\<close>

lemma bank_route_exact: "bank_service_route path = Some b \<longleftrightarrow> path = bank_client_url [] b"
  by (cases b) (auto simp: bank_service_route_def TrimRight_def all_procedures)

lemma workplace_route_exact: "workplace_service_route path = Some w \<longleftrightarrow> path = workplace_client_url [] w"
  by (cases w) (auto simp: workplace_service_route_def TrimRight_def all_procedures)

lemma world_route_exact: "world_service_route path = Some g \<longleftrightarrow> path = world_client_url [] g"
  by (cases g) (auto simp: world_service_route_def TrimRight_def all_procedures)

lemma bank_mux_reaches: "bank_serves (bank_client_url [] b) = Some b"
  by (cases b) (simp_all add: bank_serves_def mounted TrimRight_def all_procedures bank_service_route_def)

lemma farm_mux_reaches: "farm_serves (workplace_client_url [] w) = Some w"
  by (cases w) (simp_all add: farm_serves_def mounted TrimRight_def all_procedures workplace_service_route_def)

lemma gateway_mux_reaches: "gateway_serves (world_client_url [] g) = Some g"
  by (cases g) (simp_all add: gateway_serves_def mounted TrimRight_def all_procedures world_service_route_def)

lemma posted:
  assumes "host \<noteq> []" "CHR ''/'' \<notin> set host" "base = ''http://'' @ host @ replicate n CHR ''/''"
  shows "url_path (bank_client_url base b) = bank_client_url [] b"
    "url_path (workplace_client_url base w) = workplace_client_url [] w"
    "url_path (world_client_url base g) = world_client_url [] g"
proof -
  note p = posted_path [OF assms(1,2), where n = n, folded assms(3)]
  show "url_path (bank_client_url base b) = bank_client_url [] b"
    by (cases b) (simp_all add: p all_procedures TrimRight_def [of _ "[]"])
  show "url_path (workplace_client_url base w) = workplace_client_url [] w"
    by (cases w) (simp_all add: p all_procedures TrimRight_def [of _ "[]"])
  show "url_path (world_client_url base g) = world_client_url [] g"
    by (cases g) (simp_all add: p all_procedures TrimRight_def [of _ "[]"])
qed

lemma handler_types:
  "call_type (bank_client_call c b) = bank_handler_type b"
  "call_type (workplace_client_call cw w) = workplace_handler_type w"
  "call_type (world_client_call cg g) = world_handler_type g"
  "call_type (sim_client_call cv v) = sim_handler_type v"
  by (cases b; cases w; cases g; cases v; simp add: bank_handler_type_def workplace_handler_type_def)+

lemma serves_only_routed:
  "bank_serves path = Some b \<Longrightarrow> bank_service_route path = Some b"
  "farm_serves path = Some w \<Longrightarrow> workplace_service_route path = Some w"
  "gateway_serves path = Some g \<Longrightarrow> world_service_route path = Some g"
  by (auto simp: bank_serves_def farm_serves_def gateway_serves_def NewBankServiceHandler_def NewWorkplaceServiceHandler_def
      NewWorldServiceHandler_def split: option.splits prod.splits bank_endpoint.splits farm_endpoint.splits gateway_endpoint.splits)

text \<open>
  C39: A call reaches the method it names. For a base URL of any host, with any number of slashes after it, the
  path a client posts to makes the command that mounts the handler run this very method, for each
  method of the bank, the workplaces and the gateway; no other path runs it; client and handler agree on
  which methods stream (those of sim-core included); and what the sidecar posts
  for any actor and method reaches the actor endpoint of the farm, never a method of its contract.
\<close>

theorem calls_reach_their_methods:
  assumes "host \<noteq> []" "CHR ''/'' \<notin> set host" "base = ''http://'' @ host @ replicate n CHR ''/''"
  shows "(bank_serves path = Some b \<longleftrightarrow> path = url_path (bank_client_url base b))
    \<and> (farm_serves path = Some w \<longleftrightarrow> path = url_path (workplace_client_url base w))
    \<and> (gateway_serves path = Some g \<longleftrightarrow> path = url_path (world_client_url base g))
    \<and> call_type (bank_client_call (NewBankServiceClient base) b) = bank_handler_type b
    \<and> call_type (workplace_client_call (NewWorkplaceServiceClient base) w) = workplace_handler_type w
    \<and> call_type (world_client_call (NewWorldServiceClient base) g) = world_handler_type g
    \<and> call_type (sim_client_call (NewSimServiceClient base) v) = sim_handler_type v
    \<and> ServeMux farm_mux (drop (length ''/v1.0'') (actor_url i m)) = Some (''/actors/'', ActorEndpoints)"
  unfolding posted [OF assms] handler_types
proof (intro conjI)
  show "bank_serves path = Some b \<longleftrightarrow> path = bank_client_url [] b"
    using serves_only_routed(1) bank_route_exact bank_mux_reaches by metis
  show "farm_serves path = Some w \<longleftrightarrow> path = workplace_client_url [] w"
    using serves_only_routed(2) workplace_route_exact farm_mux_reaches by metis
  show "gateway_serves path = Some g \<longleftrightarrow> path = world_client_url [] g"
    using serves_only_routed(3) world_route_exact gateway_mux_reaches by metis
  show "ServeMux farm_mux (drop (length ''/v1.0'') (actor_url i m)) = Some (''/actors/'', ActorEndpoints)"
    by (simp add: actor_url_def mounted)
qed (rule refl)+

theorem calls_reach_their_methods_witness:
  "farm_serves (url_path (workplace_client_url ''http://farm:8090/'' WorkplaceBuy)) = Some WorkplaceBuy"
  using calls_reach_their_methods [where host = "''farm:8090''" and n = 1 and base = "''http://farm:8090/''"] by simp

text \<open>What the actor host posts to its sidecar comes back to the same building's actor endpoint.\<close>

lemma TrimSuffix_none: "suffix \<noteq> [] \<Longrightarrow> s \<noteq> [] \<Longrightarrow> last s \<noteq> last suffix \<Longrightarrow> TrimSuffix suffix s = s"
  by (auto simp: TrimSuffix_def Let_def) (metis last_drop diff_less length_greater_0_conv)

lemma actor_call_comes_back:
  assumes "CHR ''/'' \<notin> set host" "host \<noteq> []"
  shows "url_path (ah_base (NewActorHost h (''http://'' @ host)) @ actor_url i m) = actor_url i m"
    and "Host_Handler encode c S e h verb (drop (length ''/v1.0'') (actor_url i m)) body =
      serveActor c S e h verb (drop (length ''/v1.0'') (actor_url i m)) body"
proof -
  have "last host \<noteq> CHR ''/''" using assms(1) last_in_set [OF assms(2)] by metis
  then have "last (''http://'' @ host) \<noteq> CHR ''/''" using assms(2) by simp
  then have base: "ah_base (NewActorHost h (''http://'' @ host)) = ''http://'' @ host"
    using TrimSuffix_none [of "''/''" "''http://'' @ host"] by (simp add: NewActorHost_def)
  obtain p where "actor_url i m = CHR ''/'' # p" by (simp add: actor_url_def)
  with url_path_of [OF assms(1), of p] base
  show "url_path (ah_base (NewActorHost h (''http://'' @ host)) @ actor_url i m) = actor_url i m" by simp
  show "Host_Handler encode c S e h verb (drop (length ''/v1.0'') (actor_url i m)) body =
      serveActor c S e h verb (drop (length ''/v1.0'') (actor_url i m)) body"
    by (simp add: Host_Handler_def host_mux_def pattern_matches_def actor_url_def)
qed

text \<open>
  A workplace that embeds \<open>UnimplementedWorkplaceServiceHandler\<close> and has no \<^verbatim>\<open>List\<close> of its own is
  discovered as one building, which introduces itself later.
\<close>

lemma older_service_discovered:
  "wp_List P (l @ [CallList addr]) = UnimplementedWorkplaceServiceHandler WorkplaceList \<Longrightarrow>
    fst (Discover P addr positions l) = Inr [NewDriver addr positions]"
  by (simp add: Discover_def ask_def)

end
