(* ===== verification/CycleProgress.thy ===== *)
theory CycleProgress
  imports FleetProps
begin

text \<open>
  How much a cycle does: the calls each step makes, counted by the length of the log, and what the offer
  round does for a pip without work.
\<close>

section \<open>Calls of a step\<close>

lemma order_length: "walks_maps P \<Longrightarrow> length (map_order P l ks) = fcard ks"
  unfolding walks_maps_def by (metis distinct_card fcard.rep_eq)

lemma grace_loop_calls: "length (snd (snd (grace_loop P ps hired employed l))) \<le> length l + length ps"
proof (induction ps arbitrary: hired employed l)
  case (Cons p ps)
  have "length (snd (snd (grace_loop P ps h e (l @ [ReadClock])))) \<le> Suc (length l + length ps)" for h e
    using Cons [of h e "l @ [ReadClock]"] by simp
  moreover have "length (snd (snd (grace_loop P ps h e l))) \<le> Suc (length l + length ps)" for h e
    using Cons [of h e l] by simp
  ultimately show ?case by (simp add: ask_def split: option.split)
qed simp

lemma sync_calls:
  assumes "syncEmployment P d employed l = (gone, d', l')" "walks_maps P"
  shows "length l' \<le> length l + fcard (fmdom (d_hiredAt d))" "length gone \<le> fcard (d_employed d)"
proof -
  obtain hired e1 l1 where g: "grace_loop P (map_order P l (fmdom (d_hiredAt d))) (d_hiredAt d) employed l = (hired, e1, l1)"
    by (metis prod_cases3)
  have l': "l' = l1" and gone: "gone = filter (\<lambda>p. p |\<notin>| e1) (map_order P l1 (d_employed d))"
    using assms(1) g by (auto simp: syncEmployment_def)
  show "length l' \<le> length l + fcard (fmdom (d_hiredAt d))"
    using grace_loop_calls [of P "map_order P l (fmdom (d_hiredAt d))" "d_hiredAt d" employed l] g order_length [OF assms(2)]
    by (simp add: l')
  show "length gone \<le> fcard (d_employed d)"
    using order_length [OF assms(2), of l1 "d_employed d"] length_filter_le unfolding gone by metis
qed

lemma end_shifts_calls:
  "end_shifts P k tick ps (g, l) = (g', l') \<Longrightarrow>
    length l' = length l + 2 * length ps \<and> (\<forall>j. j \<noteq> k \<longrightarrow> f_drivers g' ! j = f_drivers g ! j)"
proof (induction ps arbitrary: g l)
  case (Cons p ps)
  obtain d l1 where e: "Driver_endShift P (f_drivers g ! k) p tick ''no longer employed here'' l = (d, l1)" by fastforce
  have "length l1 = length l + 2" using endShift_says [OF e] by simp
  moreover have "end_shifts P k tick ps (set_driver k d g, l1) = (g', l')" using Cons.prems e by simp
  ultimately show ?case using Cons.IH by (fastforce simp: set_driver_def)
qed simp

definition upkeep :: "Driver \<Rightarrow> nat" where
  "upkeep d = fcard (fmdom (d_hiredAt d)) + 2 * fcard (d_employed d)"

lemma sync_all_calls:
  assumes "walks_maps P"
  shows "sync_all P pips tick ks (g, l) = (g', l') \<Longrightarrow> distinct ks \<Longrightarrow>
    length l' \<le> length l + (\<Sum>k \<leftarrow> ks. upkeep (f_drivers g ! k))"
proof (induction ks arbitrary: g l)
  case (Cons k ks)
  let ?d = "f_drivers g ! k"
  obtain gone d l1 where s: "syncEmployment P ?d (employed_by pips (d_id ?d)) l = (gone, d, l1)" by (metis prod_cases3)
  obtain g2 l2 where e: "end_shifts P k tick gone (set_driver k d g, l1) = (g2, l2)" by fastforce
  note calls = sync_calls [OF s assms] end_shifts_calls [OF e]
  have same: "f_drivers g2 ! j = f_drivers g ! j" if "j \<in> set ks" for j
    using calls(3) that Cons.prems(2) by (auto simp: set_driver_def)
  have "sync_all P pips tick ks (g2, l2) = (g', l')" using Cons.prems(1) s e by simp
  from Cons.IH [OF this] Cons.prems(2) have "length l' \<le> length l2 + (\<Sum>j \<leftarrow> ks. upkeep (f_drivers g2 ! j))" by simp
  also have "(\<Sum>j \<leftarrow> ks. upkeep (f_drivers g2 ! j)) = (\<Sum>j \<leftarrow> ks. upkeep (f_drivers g ! j))"
    by (intro arg_cong [of _ _ sum_list] map_cong) (simp_all add: same)
  finally show ?case using calls by (simp add: upkeep_def)
qed simp

lemma offer_calls: "length (snd (snd (Driver_offer P d pip tick l))) \<le> length l + 3"
  by (auto simp: Driver_offer_def Publisher_Offer_def ask_def Let_def split: option.splits sum.splits)

lemma offer_pip_calls:
  "length (r_log (offer_pip P pip tick ks r)) \<le> length (r_log r) + 3 * length ks \<and> r_credits (offer_pip P pip tick ks r) = r_credits r"
proof (induction ks arbitrary: r)
  case (Cons k ks)
  let ?d = "f_drivers (r_fleet r) ! k"
  obtain sent d1 l1 where o: "Driver_offer P ?d pip tick (r_log r) = (sent, d1, l1)" by (metis prod_cases3)
  have l1: "length l1 \<le> length (r_log r) + 3" using offer_calls [of P ?d pip tick "r_log r"] o by simp
  let ?r1 = "r\<lparr>r_fleet := set_driver k d1 (r_fleet r), r_log := l1\<rparr>"
  show ?case using Cons [of r] Cons [of ?r1] o l1 by (auto simp: Let_def)
qed simp

lemma work_calls: "length (snd (snd (Driver_work P d pip tick inside l))) \<le> length l + 3"
  by (auto simp: Driver_work_def Driver_endShift_def ask_def Let_def split: sum.splits)

text \<open>The calls made and the two calls each payroll will cost.\<close>

definition spent :: "round_state \<Rightarrow> nat" where
  "spent r = length (r_log r) + 2 * fcard (fmdom (r_credits r))"

lemma work_pip_spent: "spent (work_pip P tick p k r) \<le> spent r + 5"
proof -
  let ?d = "f_drivers (r_fleet r) ! k"
  obtain ok wage d1 l1 where w: "Driver_work P ?d (pip_id p) tick (GetInsideWorkplaceId p = d_id ?d) (r_log r) = ((ok, wage), d1, l1)"
    by (metis surj_pair)
  have "length l1 \<le> length (r_log r) + 3" using work_calls [of P ?d "pip_id p" tick "GetInsideWorkplaceId p = d_id ?d" "r_log r"] w by simp
  moreover have "fcard (finsert (d_id ?d) (fmdom (r_credits r))) \<le> fcard (fmdom (r_credits r)) + 1" by (simp add: fcard_finsert_if)
  ultimately show ?thesis using w by (auto simp: spent_def work_pip_def Let_def split: option.split)
qed

lemma cycle_pips_spent: "spent (cycle_pips P tick byID ring ps r) \<le> spent r + length ps * max 5 (3 * length ring)"
proof (induction ps arbitrary: r)
  case (Cons p ps)
  let ?r = "case fmlookup byID (GetEmployerWorkplaceId p) of Some k \<Rightarrow> work_pip P tick p k r
      | None \<Rightarrow> offer_pip P (pip_id p) tick ring r"
  have "spent ?r \<le> spent r + max 5 (3 * length ring)"
  proof (cases "fmlookup byID (GetEmployerWorkplaceId p)")
    case None
    then show ?thesis using offer_pip_calls [of P "pip_id p" tick ring r] by (simp add: spent_def max_def)
  next
    case (Some k)
    then show ?thesis using work_pip_spent [of P tick p k r] by simp
  qed
  with Cons [of ?r] show ?case by simp
qed simp

lemma pay_all_calls: "length (pay_all P g ws tick cs l) \<le> length l + 2 * length ws"
proof (induction ws arbitrary: l)
  case (Cons w ws)
  let ?l = "Fleet_payWages P g w tick (case fmlookup cs w of None \<Rightarrow> fmempty | Some c \<Rightarrow> c) l"
  have "length (Fleet_payWages P g w tick c l) \<le> length l + 2" for c
    by (auto simp: Fleet_payWages_def ask_def Let_def split: sum.split)
  from this [of "case fmlookup cs w of None \<Rightarrow> fmempty | Some c \<Rightarrow> c"] Cons [of ?l] show ?case by simp
qed simp

section \<open>A cycle ends\<close>

text \<open>
  C26: A cycle ends. Whatever the peers answer, one cycle makes one snapshot, at most one reading of the clock
  for each pip a building remembers hiring and two calls for each pip it lets go of, and per pip of
  the snapshot either an offer round of three calls a building or three calls for its shift and two for
  the payroll it opens. So no answer keeps a cycle going.
\<close>

theorem cycle_ends_within:
  assumes walks: "walks_maps P" and run: "Fleet_cycle P f l = (res, f', l')"
    and snap: "sim_Snapshot P (l @ [Snapshot]) = Inr snap"
  shows "length l' \<le> length l + 1 + (\<Sum>k \<leftarrow> live_drivers f. upkeep (f_drivers f ! k))
    + length (snap_pips snap) * max 5 (3 * length (live_drivers f))"
proof (cases "live_drivers f = []")
  case True
  then have "l' = l @ [Snapshot]" using Fleet_cycle_idle run by (metis snd_conv)
  then show ?thesis by simp
next
  case False
  from run snap False show ?thesis
  proof (cases rule: Fleet_cycle_runs)
    case (1 f2 l2 r)
    let ?ws = "map_order P (r_log r) (fmdom (r_credits r))"
    have "length l' \<le> length (r_log r) + 2 * length ?ws" unfolding 1(4) by (rule pay_all_calls)
    also have "\<dots> = spent r" by (simp add: spent_def order_length [OF walks])
    also have "\<dots> \<le> length l2 + length (snap_pips snap) * max 5 (3 * length (live_drivers f))"
      unfolding 1(2) by (rule order_trans [OF cycle_pips_spent]) (simp add: spent_def rotation_def)
    finally show ?thesis using sync_all_calls [OF walks 1(1)] by (simp add: live_drivers_def)
  qed
qed

theorem cycle_ends_within_witness:
  "length (snd (snd (Fleet_cycle (calm [pip_at_work 7, pip_idle 8]) one_farm_fleet []))) \<le> 11"
proof -
  let ?P = "calm [pip_at_work 7, pip_idle 8]"
  obtain r f' l' where run: "Fleet_cycle ?P one_farm_fleet [] = (r, f', l')" by (metis prod_cases3)
  have snap: "sim_Snapshot ?P ([] @ [Snapshot]) =
      Inr \<lparr>snap_tick = 5, snap_pips = [pip_at_work 7, pip_idle 8], snap_workplaces = [], snap_structures = []\<rparr>"
    by (simp add: calm_def)
  have "upkeep (f_drivers one_farm_fleet ! 0) = 0"
    by (simp add: upkeep_def one_farm_fleet_def NewFleet_def NewDriverFor_def NewDriver_def fcard_fempty)
  with cycle_ends_within [OF calm_walks run snap] show ?thesis by (simp add: one_farm_live run)
qed

section \<open>An offer round gets somewhere\<close>

text \<open>\<open>waits now d pip\<close>: the building's offer to the pip is younger than the patience.\<close>

definition waits :: "int \<Rightarrow> Driver \<Rightarrow> u64 \<Rightarrow> bool" where
  "waits now d pip \<longleftrightarrow> (\<exists>since. fmlookup (d_pending d) pip = Some since \<and> time_sub now since < offerPatience)"

lemma offer_sent_or_waits:
  assumes clock: "\<And>l. clock_reads P l = now" and broker: "\<And>l. amqp_Publish P l = None"
    and coded: "offer_of P tick pip = Inr body" and kind: "d_kind d \<noteq> []"
    and o: "Driver_offer P d pip tick l = (sent, d', l')"
  shows "if waits now d pip then \<not> sent \<and> d' = d \<and> l' = l @ [ReadClock]
    else sent \<and> published P (with_body body) l' = published P (with_body body) l + 1"
proof -
  let ?c = "Publish gw_exchange (offerPrefix @ d_kind d) body ''10000''"
  have one: "published P (with_body body) (m @ [?c]) = published P (with_body body) m + 1" for m
    by (simp add: published_snoc broker with_body_def)
  have quiet: "published P Q (m @ [ReadClock]) = published P Q m" for Q m by (simp add: published_snoc)
  have "published P (with_body body) (l @ [ReadClock, ?c]) = published P (with_body body) l + 1"
    "published P (with_body body) (l @ [ReadClock, ReadClock, ?c]) = published P (with_body body) l + 1"
    using one [of "l @ [ReadClock]"] one [of "l @ [ReadClock, ReadClock]"] quiet [of _ "l @ [ReadClock]"] quiet by simp_all
  then show ?thesis
    using o kind coded
    by (auto simp: Driver_offer_def Publisher_Offer_def offer_of_def ask_def waits_def clock broker Let_def
        split: option.splits if_splits)
qed

lemma offer_pip_gets_somewhere:
  assumes clock: "\<And>l. clock_reads P l = now" and broker: "\<And>l. amqp_Publish P l = None"
    and coded: "offer_of P tick pip = Inr body"
  shows "published P (with_body body) (r_log r) < published P (with_body body) (r_log (offer_pip P pip tick ks r))
    \<or> (\<forall>k \<in> set ks. let d = f_drivers (r_fleet r) ! k in getz (r_left r) (d_id d) \<le> 0 \<or> d_kind d = [] \<or> waits now d pip)"
proof (induction ks arbitrary: r)
  case (Cons k ks)
  let ?d = "f_drivers (r_fleet r) ! k"
  obtain sent d1 l1 where o: "Driver_offer P ?d pip tick (r_log r) = (sent, d1, l1)" by (metis prod_cases3)
  let ?r1 = "r\<lparr>r_fleet := set_driver k d1 (r_fleet r), r_log := l1\<rparr>"
  show ?case
  proof (cases "0 < getz (r_left r) (d_id ?d) \<and> d_kind ?d \<noteq> [] \<and> \<not> waits now ?d pip")
    case True
    with offer_sent_or_waits [OF clock broker coded _ o] have "sent" "published P (with_body body) l1 = published P (with_body body) (r_log r) + 1"
      by auto
    with o True show ?thesis by (simp add: Let_def)
  next
    case False
    show ?thesis
    proof (cases "getz (r_left r) (d_id ?d) \<le> 0")
      case True
      with Cons [of r] show ?thesis by (simp add: Let_def)
    next
      case left: False
      have still: "\<not> sent" "d1 = ?d" "published P (with_body body) l1 = published P (with_body body) (r_log r)"
      proof -
        have "\<not> sent \<and> d1 = ?d \<and> (l1 = r_log r \<or> l1 = r_log r @ [ReadClock])"
        proof (cases "d_kind ?d = []")
          case True
          with o show ?thesis by (simp add: Driver_offer_def)
        next
          case kind: False
          with offer_sent_or_waits [OF clock broker coded kind o] False left show ?thesis by simp
        qed
        then show "\<not> sent" "d1 = ?d" "published P (with_body body) l1 = published P (with_body body) (r_log r)"
          by (auto simp: published_snoc)
      qed
      have "f_drivers (r_fleet ?r1) = f_drivers (r_fleet r)" by (simp add: set_driver_def still(2))
      with Cons [of ?r1] still o left False show ?thesis by (simp add: Let_def)
    qed
  qed
qed simp

text \<open>Nothing else in a cycle makes a building wait for a pip: offers to others, shifts and ends do not.\<close>

definition waits_less :: "u64 \<Rightarrow> Driver \<Rightarrow> Driver \<Rightarrow> bool" where
  "waits_less p d e \<longleftrightarrow> (\<forall>s. fmlookup (d_pending e) p = Some s \<longrightarrow> fmlookup (d_pending d) p = Some s)"

definition none_waits_more :: "u64 \<Rightarrow> Fleet \<Rightarrow> Fleet \<Rightarrow> bool" where
  "none_waits_more p f g \<longleftrightarrow> length (f_drivers g) = length (f_drivers f)
     \<and> (\<forall>k < length (f_drivers f). waits_less p (f_drivers f ! k) (f_drivers g ! k))"

lemma waits_less_refl [simp]: "waits_less p d d"
  by (simp add: waits_less_def)

lemma none_waits_more_refl [simp]: "none_waits_more p f f"
  by (simp add: none_waits_more_def)

lemma none_waits_more_next [simp]: "none_waits_more p f (g\<lparr>f_next := n\<rparr>) = none_waits_more p f g"
  by (simp add: none_waits_more_def)

lemma none_waits_more_set:
  "none_waits_more p f g \<Longrightarrow> waits_less p (f_drivers g ! k) d \<Longrightarrow> none_waits_more p f (set_driver k d g)"
  by (auto simp: none_waits_more_def set_driver_def waits_less_def) (metis nth_list_update_eq nth_list_update_neq)

lemma endShift_waits_less: "Driver_endShift P d q tick why l = (d', l') \<Longrightarrow> waits_less p d d'"
  by (auto simp: Driver_endShift_def ask_def waits_less_def split: if_splits)

lemma work_waits_less: "Driver_work P d q tick inside l = (x, d', l') \<Longrightarrow> waits_less p d d'"
  by (auto simp: Driver_work_def ask_def split: sum.splits if_splits prod.splits dest: endShift_waits_less [where p = p])

lemma offer_waits_less: "Driver_offer P d q tick l = (sent, d', l') \<Longrightarrow> p \<noteq> q \<Longrightarrow> waits_less p d d'"
  by (auto simp: Driver_offer_def Publisher_Offer_def ask_def waits_less_def Let_def split: option.splits sum.splits if_splits)

lemma sync_waits_less: "syncEmployment P d employed l = (gone, d', l') \<Longrightarrow> waits_less p d d'"
  by (auto simp: syncEmployment_def waits_less_def split: prod.splits)

lemma end_shifts_waits:
  "end_shifts P k tick ps (g, l) = (g', l') \<Longrightarrow> none_waits_more p f g \<Longrightarrow> none_waits_more p f g'"
proof (induction ps arbitrary: g l)
  case (Cons q ps)
  obtain d l1 where e: "Driver_endShift P (f_drivers g ! k) q tick ''no longer employed here'' l = (d, l1)" by fastforce
  with Cons.prems none_waits_more_set [OF Cons.prems(2) endShift_waits_less [OF e]] Cons.IH show ?case by simp
qed simp

lemma sync_all_waits:
  "sync_all P pips tick ks (g, l) = (g', l') \<Longrightarrow> none_waits_more p f g \<Longrightarrow> none_waits_more p f g'"
proof (induction ks arbitrary: g l)
  case (Cons k ks)
  let ?d = "f_drivers g ! k"
  obtain gone d l1 where s: "syncEmployment P ?d (employed_by pips (d_id ?d)) l = (gone, d, l1)" by (metis prod_cases3)
  obtain g2 l2 where e: "end_shifts P k tick gone (set_driver k d g, l1) = (g2, l2)" by fastforce
  from end_shifts_waits [OF e none_waits_more_set [OF Cons.prems(2) sync_waits_less [OF s]]] Cons s e show ?case by simp
qed simp

lemma offer_pip_waits:
  assumes "p \<noteq> q"
  shows "none_waits_more p f (r_fleet r) \<Longrightarrow> none_waits_more p f (r_fleet (offer_pip P q tick ks r))"
proof (induction ks arbitrary: r)
  case (Cons k ks)
  let ?d = "f_drivers (r_fleet r) ! k"
  obtain sent d1 l1 where o: "Driver_offer P ?d q tick (r_log r) = (sent, d1, l1)" by (metis prod_cases3)
  from none_waits_more_set [OF Cons.prems offer_waits_less [OF o assms]] Cons.IH Cons.prems o show ?case
    by (simp add: Let_def)
qed simp

lemma work_pip_waits:
  assumes "none_waits_more p f (r_fleet r)"
  shows "none_waits_more p f (r_fleet (work_pip P tick q k r))"
proof -
  let ?d = "f_drivers (r_fleet r) ! k"
  obtain ok wage d1 l1 where w: "Driver_work P ?d (pip_id q) tick (GetInsideWorkplaceId q = d_id ?d) (r_log r) = ((ok, wage), d1, l1)"
    by (metis surj_pair)
  from none_waits_more_set [OF assms work_waits_less [OF w]] w show ?thesis by (simp add: work_pip_def Let_def)
qed

lemma cycle_pips_waits:
  "pip \<notin> pip_id ` set ps \<Longrightarrow> none_waits_more pip f (r_fleet r) \<Longrightarrow> none_waits_more pip f (r_fleet (cycle_pips P tick byID ring ps r))"
proof (induction ps arbitrary: r)
  case (Cons q ps)
  then have "pip \<noteq> pip_id q" by auto
  with Cons offer_pip_waits work_pip_waits show ?case by (auto split: option.splits)
qed simp

text \<open>What a building has left only shrinks, what was published stays published.\<close>

lemma offer_pip_left: "getz (r_left (offer_pip P pip tick ks r)) x \<le> getz (r_left r) x"
proof (induction ks arbitrary: r)
  case (Cons k ks)
  let ?d = "f_drivers (r_fleet r) ! k"
  obtain sent d1 l1 where o: "Driver_offer P ?d pip tick (r_log r) = (sent, d1, l1)" by (metis prod_cases3)
  let ?r1 = "r\<lparr>r_fleet := set_driver k d1 (r_fleet r), r_log := l1\<rparr>"
  from Cons [of r] Cons [of ?r1] o show ?case by (auto simp: Let_def getz_subz)
qed simp

lemma cycle_pips_left: "getz (r_left (cycle_pips P tick byID ring ps r)) x \<le> getz (r_left r) x"
proof (induction ps arbitrary: r)
  case (Cons q ps)
  let ?r = "case fmlookup byID (GetEmployerWorkplaceId q) of Some k \<Rightarrow> work_pip P tick q k r
      | None \<Rightarrow> offer_pip P (pip_id q) tick ring r"
  have "getz (r_left ?r) x \<le> getz (r_left r) x"
    by (simp add: offer_pip_left work_pip_def Let_def split: option.split prod.split)
  with Cons [of ?r] show ?case by simp
qed simp

lemma published_mono: "adds Q l l' \<Longrightarrow> published P R l \<le> published P R l'"
proof -
  have "published P R l \<le> published P R (l @ ext)" for ext
    by (induction ext rule: rev_induct) (simp_all add: published_snoc append_assoc [symmetric] del: append_assoc)
  then show "adds Q l l' \<Longrightarrow> ?thesis" by (auto simp: adds_def)
qed

lemma cycle_pips_grows: "adds (\<lambda>_. True) (r_log r) (r_log (cycle_pips P tick byID ring ps r))"
  by (rule cycle_pips_adds) (simp add: loop_vocabulary_def)

lemma rotation_all: "set (rotation n live) = set live"
proof -
  have "rotation n live = rotate n live" by (rule nth_equalityI) (simp_all add: rotation_def nth_rotate)
  then show ?thesis by simp
qed

text \<open>When one building of a kind is out of offers, eight of them are gone.\<close>

lemma sum_list_short:
  "(\<And>x. x \<in> set xs \<Longrightarrow> g x \<le> (c :: int)) \<Longrightarrow> y \<in> set xs \<Longrightarrow> g y \<le> 0 \<Longrightarrow> 0 \<le> c \<Longrightarrow>
    (\<Sum>x \<leftarrow> xs. g x) + c \<le> c * int (length xs)"
proof (induction xs)
  case (Cons x xs)
  have all: "(\<Sum>x \<leftarrow> xs. g x) \<le> c * int (length xs)"
    using sum_list_mono [of xs g "\<lambda>_. c"] Cons.prems(1) by (simp add: sum_list_triv mult.commute)
  show ?case
  proof (cases "y = x")
    case True
    with all Cons.prems show ?thesis by (simp add: algebra_simps)
  next
    case False
    with Cons have "(\<Sum>x \<leftarrow> xs. g x) + c \<le> c * int (length xs)" by simp
    with Cons.prems(1) [of x] show ?thesis by (simp add: algebra_simps)
  qed
qed simp

lemma room_short:
  assumes "k \<in> set (live_drivers f)" "getz left (d_id (f_drivers f ! k)) \<le> 0"
    and "\<And>x. getz left x \<le> getz (offers_left f) x"
  shows "room f (d_kind (f_drivers f ! k)) left + 8 \<le> room f (d_kind (f_drivers f ! k)) (offers_left f)"
proof -
  let ?L = "filter (\<lambda>j. d_kind (f_drivers f ! j) = d_kind (f_drivers f ! k)) (live_drivers f)"
  have full: "getz (offers_left f) (d_id (f_drivers f ! j)) = 8" if "j \<in> set ?L" for j
    using offers_left_getz [of j f] that by (simp add: maxOffersPerRound_def)
  have "room f (d_kind (f_drivers f ! k)) left + 8 \<le> 8 * int (length ?L)"
    unfolding room_def
    by (rule sum_list_short [where y = k]) (use assms full order_trans [OF assms(3)] in \<open>auto simp: eq_refl\<close>)
  also have "\<dots> = room f (d_kind (f_drivers f ! k)) (offers_left f)"
  proof -
    have "(\<Sum>j \<leftarrow> ?L. getz (offers_left f) (d_id (f_drivers f ! j))) = (\<Sum>j \<leftarrow> ?L. 8)"
      by (intro arg_cong [of _ _ sum_list] map_cong) (auto simp: full)
    then show ?thesis by (simp add: room_def sum_list_triv)
  qed
  finally show ?thesis .
qed

lemma cycle_pips_append:
  "cycle_pips P tick byID ring (ps @ qs) r = cycle_pips P tick byID ring qs (cycle_pips P tick byID ring ps r)"
  by (induction ps arbitrary: r) simp_all

lemma same_fleet_room: "same_fleet f g \<Longrightarrow> room g kind left = room f kind left"
proof -
  assume sf: "same_fleet f g"
  have same: "d_id (f_drivers g ! k) = d_id (f_drivers f ! k)" "d_kind (f_drivers g ! k) = d_kind (f_drivers f ! k)"
    if "k \<in> set (live_drivers f)" for k
    using same_fleet_nth [OF sf] live_drivers_lt [OF that] by (simp_all add: same_building_def)
  have "filter (\<lambda>k. d_kind (f_drivers g ! k) = kind) (live_drivers f) = filter (\<lambda>k. d_kind (f_drivers f ! k) = kind) (live_drivers f)"
    by (rule filter_cong) (simp_all add: same)
  then show ?thesis
    unfolding room_def same_fleet_live [OF sf]
    by (intro arg_cong [of _ _ sum_list] map_cong) (simp_all add: same)
qed

text \<open>The part of a round before a pip's turn, seen from a building that could take it.\<close>

lemma before_turn:
  assumes sync: "sync_all P pips tick (live_drivers f) (f, l @ [Snapshot]) = (f2, l2)"
    and r1: "r1 = cycle_pips P tick (by_id f) (rotation n (live_drivers f)) ps
      \<lparr>r_fleet = f2\<lparr>f_next := n'\<rparr>, r_left = offers_left (f2\<lparr>f_next := n'\<rparr>), r_credits = fmempty, r_log = l2\<rparr>"
    and ids: "distinct (map (\<lambda>k. d_id (f_drivers f ! k)) (live_drivers f))"
    and k: "k \<in> set (live_drivers f)" and new: "pip \<notin> pip_id ` set ps"
  shows "same_fleet f (r_fleet r1)" "published P Q l \<le> published P Q (r_log r1)"
    and "waits_less pip (f_drivers f ! k) (f_drivers (r_fleet r1) ! k)"
    and "getz (r_left r1) (d_id (f_drivers f ! k)) \<le> 0 \<Longrightarrow>
      published P (under_key (d_kind (f_drivers f ! k))) l + 8 \<le> published P (under_key (d_kind (f_drivers f ! k))) (r_log r1)"
proof -
  let ?r0 = "\<lparr>r_fleet = f2\<lparr>f_next := n'\<rparr>, r_left = offers_left (f2\<lparr>f_next := n'\<rparr>), r_credits = fmempty, r_log = l2\<rparr>"
  note s = sync_all_says [OF sync same_fleet_refl]
  have sf: "same_fleet f (r_fleet ?r0)" using s by simp
  have left0: "offers_left (f2\<lparr>f_next := n'\<rparr>) = offers_left f" using same_fleet_offers_left [of f "f2\<lparr>f_next := n'\<rparr>"] s by simp
  have start: "published P Q l2 = published P Q l" for Q
    using published_adds [OF adds_conj1 [OF conjunct2 [OF conjunct2 [OF s]]]] by (simp add: published_snoc)
  from cycle_pips_law [where n = 0 and P = P and tick = tick and ring = "rotation n (live_drivers f)" and ps = ps and pips = ps,
      OF rotation_set sf _ order_refl]
  have law: "same_fleet f (r_fleet r1)" "adds (\<lambda>c. \<not> money_call c) l2 (r_log r1)" by (simp_all add: r1 owed_ok_def)
  show "same_fleet f (r_fleet r1)" by (rule law(1))
  show "published P Q l \<le> published P Q (r_log r1)" using published_mono [OF law(2), of P Q] start by simp
  have "none_waits_more pip f (r_fleet r1)"
    unfolding r1 by (rule cycle_pips_waits [OF new]) (simp add: sync_all_waits [OF sync])
  then show "waits_less pip (f_drivers f ! k) (f_drivers (r_fleet r1) ! k)"
    using live_drivers_lt [OF k] by (simp add: none_waits_more_def)
  assume out: "getz (r_left r1) (d_id (f_drivers f ! k)) \<le> 0"
  let ?kind = "d_kind (f_drivers f ! k)"
  have less: "getz (r_left r1) x \<le> getz (offers_left f) x" for x
    using cycle_pips_left [of P tick "by_id f" "rotation n (live_drivers f)" ps ?r0 x] by (simp add: r1 left0)
  have "int (published P (under_key ?kind) (r_log r1)) + room f ?kind (r_left r1)
      = int (published P (under_key ?kind) l2) + room f ?kind (offers_left f)"
    using cycle_offers_law [where P = P and tick = tick and ps = ps and kind = ?kind and r = ?r0, OF rotation_set ids sf]
      offers_left_nonneg by (simp add: r1 left0)
  with room_short [OF k out less]
  show "published P (under_key ?kind) l + 8 \<le> published P (under_key ?kind) (r_log r1)" by (simp add: start)
qed

text \<open>
  C12: No pip without work is passed over. When the broker takes what it is given, then in every cycle each pip
  that no building of this gateway employs is offered, or else every building of a kind that could have taken it
  has a reason: at least eight offers of its kind went out in this cycle, or an offer of this pip that
  it made within the last fifteen seconds was still unanswered when the cycle began.
\<close>

theorem idle_pip_is_offered:
  assumes run: "Fleet_cycle P f l = (res, f', l')" and snap: "sim_Snapshot P (l @ [Snapshot]) = Inr snap"
    and ids: "distinct (map (\<lambda>k. d_id (f_drivers f ! k)) (live_drivers f))"
    and pips: "distinct (map pip_id (snap_pips snap))" "p \<in> set (snap_pips snap)"
    and idle: "\<And>j. j \<in> set (live_drivers f) \<Longrightarrow> d_id (f_drivers f ! j) \<noteq> GetEmployerWorkplaceId p"
    and clock: "\<And>l. clock_reads P l = now" and broker: "\<And>l. amqp_Publish P l = None"
    and coded: "offer_of P (snap_tick snap) (pip_id p) = Inr body"
    and k: "k \<in> set (live_drivers f)" "d_kind (f_drivers f ! k) \<noteq> []"
  shows "published P (with_body body) l < published P (with_body body) l'
    \<or> published P (under_key (d_kind (f_drivers f ! k))) l + 8 \<le> published P (under_key (d_kind (f_drivers f ! k))) l'
    \<or> waits now (f_drivers f ! k) (pip_id p)"
proof -
  have "live_drivers f \<noteq> []" using k by auto
  from run snap this show ?thesis
  proof (cases rule: Fleet_cycle_runs)
    case (1 f2 l2 r)
    let ?ring = "rotation (f_next f2) (live_drivers f)" and ?tick = "snap_tick snap"
    obtain ps qs where ps: "snap_pips snap = ps @ p # qs" using pips(2) by (meson split_list)
    then have new: "pip_id p \<notin> pip_id ` set ps" using pips(1) by auto
    let ?go = "cycle_pips P ?tick (by_id f) ?ring"
    define r1 where "r1 = ?go ps \<lparr>r_fleet = f2\<lparr>f_next := Suc (f_next f2)\<rparr>, r_left = offers_left (f2\<lparr>f_next := Suc (f_next f2)\<rparr>),
       r_credits = fmempty, r_log = l2\<rparr>"
    define r2 where "r2 = offer_pip P (pip_id p) ?tick ?ring r1"
    note before = before_turn [OF 1(1) r1_def ids k(1) new]
    have "fmlookup (by_id f) (GetEmployerWorkplaceId p) = None" using by_id_none idle by blast
    then have r: "r = ?go qs r2" unfolding 1(2) ps by (simp add: cycle_pips_append r1_def r2_def)
    have ks: "\<forall>j \<in> set ?ring. j < length (f_drivers f)" using rotation_set live_drivers_lt by blast
    note turn = offer_pip_law [OF before(1) ks, of P "pip_id p" ?tick, folded r2_def]
    have later: "published P Q (r_log r2) \<le> published P Q l'" for Q
    proof -
      from published_mono [OF cycle_pips_grows, of P Q r2] published_mono [OF pay_all_quiet, of P Q]
      show ?thesis unfolding 1(4) r using order_trans by blast
    qed
    show ?thesis
    proof (cases "published P (with_body body) (r_log r1) < published P (with_body body) (r_log r2)")
      case True
      with before(2) [of "with_body body"] later [of "with_body body"] show ?thesis by linarith
    next
      case False
      let ?d = "f_drivers (r_fleet r1) ! k"
      have d: "d_id ?d = d_id (f_drivers f ! k)" "d_kind ?d = d_kind (f_drivers f ! k)"
        using same_fleet_nth [OF before(1)] live_drivers_lt [OF k(1)] by (simp_all add: same_building_def)
      from False offer_pip_gets_somewhere [OF clock broker coded, of r1 ?ring] k(1)
      have "getz (r_left r1) (d_id ?d) \<le> 0 \<or> d_kind ?d = [] \<or> waits now ?d (pip_id p)"
        by (auto simp: r2_def rotation_all Let_def)
      then show ?thesis
      proof (elim disjE)
        assume "getz (r_left r1) (d_id ?d) \<le> 0"
        with before(4) d have "published P (under_key (d_kind (f_drivers f ! k))) l + 8 \<le> published P (under_key (d_kind (f_drivers f ! k))) (r_log r1)"
          by simp
        moreover have "published P Q (r_log r1) \<le> published P Q (r_log r2)" for Q
          by (rule published_mono) (use turn in blast)
        ultimately show ?thesis
          using order_trans [OF _ later, of _ "under_key (d_kind (f_drivers f ! k))"] order_trans by (meson disjI1 disjI2)
      qed (use before(3) d k(2) in \<open>auto simp: waits_less_def waits_def\<close>)
    qed
  qed
qed

theorem idle_pip_is_offered_witness:
  "0 < published (calm [pip_at_work 7, pip_idle 8]) (with_body (FormatUint 8))
     (snd (snd (Fleet_cycle (calm [pip_at_work 7, pip_idle 8]) one_farm_fleet [])))"
proof -
  let ?P = "calm [pip_at_work 7, pip_idle 8]"
    and ?s = "\<lparr>snap_tick = 5, snap_pips = [pip_at_work 7, pip_idle 8], snap_workplaces = [], snap_structures = []\<rparr>"
  obtain r f' l' where run: "Fleet_cycle ?P one_farm_fleet [] = (r, f', l')" by (metis prod_cases3)
  have snap: "sim_Snapshot ?P ([] @ [Snapshot]) = Inr ?s" by (simp add: calm_def)
  have pips: "distinct (map pip_id (snap_pips ?s))" "pip_idle 8 \<in> set (snap_pips ?s)"
    by (simp_all add: pip_at_work_def pip_idle_def)
  have d: "f_drivers one_farm_fleet ! 0 = NewDriverFor ''farm:8090'' fmempty 1 ''farm''"
    by (simp add: one_farm_fleet_def NewFleet_def)
  have "published ?P (with_body (FormatUint 8)) [] < published ?P (with_body (FormatUint 8)) l'
    \<or> published ?P (under_key (d_kind (f_drivers one_farm_fleet ! 0))) [] + 8 \<le> published ?P (under_key (d_kind (f_drivers one_farm_fleet ! 0))) l'
    \<or> waits 0 (f_drivers one_farm_fleet ! 0) (pip_id (pip_idle 8))"
    by (rule idle_pip_is_offered [OF run snap _ pips])
       (simp_all add: one_farm_live d pip_idle_def get_optional_def NewDriverFor_def NewDriver_def)
  moreover have "\<not> waits 0 (f_drivers one_farm_fleet ! 0) (pip_id (pip_idle 8))"
    by (simp add: waits_def d NewDriverFor_def NewDriver_def)
  moreover have "\<not> published ?P Q [] + 8 \<le> published ?P Q l'" for Q
  proof -
    have "length l' = 6" using calm_cycle run by simp
    then have "published ?P Q l' \<le> 6" unfolding published_def by (intro order_trans [OF length_filter_le]) simp
    then show ?thesis by simp
  qed
  ultimately show ?thesis by (simp add: run published_def)
qed

end
