(* ===== verification/WagesOverTime.thy ===== *)
theory WagesOverTime
  imports CycleProgress FarmProps
begin

text \<open>
  The gateway with a farm behind it, over any stretch of time: what sim-core is told a building paid a
  pip, against the simulation time that passed. The farm's side is proved for any store that remembers
  the last tick it paid for (\<open>timed_store\<close>), the gateway's for any peers, and the two meet in a history
  of the building that follows the gateway's log.
\<close>

section \<open>What sim-core is told\<close>

text \<open>The wages of building \<open>w\<close> for pip \<open>q\<close> that a call tells sim-core of, and those of a log.\<close>

fun credit_told :: "u64 \<Rightarrow> u64 \<Rightarrow> call \<Rightarrow> int" where
  "credit_told w q (SubmitIntent (CreditBalances acc pays t)) =
     (if acc = workplaceAccount w then (\<Sum>(pip, a) \<leftarrow> pays. if pip = q then sint a else 0) else 0)"
| "credit_told w q _ = 0"

definition wages_told :: "u64 \<Rightarrow> u64 \<Rightarrow> call_log \<Rightarrow> int" where
  "wages_told w q l = (\<Sum>c \<leftarrow> l. credit_told w q c)"

text \<open>What the building answered to the last call of a log, and to all of them.\<close>

definition answer_pays :: "peers \<Rightarrow> u64 \<Rightarrow> u64 \<Rightarrow> call_log \<Rightarrow> call \<Rightarrow> int" where
  "answer_pays P w q l c =
     (case c of
        CallWork addr v pip t \<Rightarrow>
          (if v = w \<and> pip = q then (case wp_Work P (l @ [c]) of Inl _ \<Rightarrow> 0 | Inr r \<Rightarrow> max 0 (sint (wr_Wage r))) else 0)
      | _ \<Rightarrow> 0)"

definition answered :: "peers \<Rightarrow> u64 \<Rightarrow> u64 \<Rightarrow> call_log \<Rightarrow> int" where
  "answered P w q l = (\<Sum>j \<leftarrow> [0..<length l]. answer_pays P w q (take j l) (l ! j))"

lemma told_grows: "wages_told w q (l @ [c]) = wages_told w q l + credit_told w q c"
  by (simp add: wages_told_def)

lemma answered_snoc: "answered P w q (l @ [c]) = answered P w q l + answer_pays P w q l c"
proof -
  have "(\<Sum>j \<leftarrow> [0..<length l]. answer_pays P w q (take j (l @ [c])) ((l @ [c]) ! j))
      = (\<Sum>j \<leftarrow> [0..<length l]. answer_pays P w q (take j l) (l ! j))"
    by (intro arg_cong [of _ _ sum_list] map_cong) (auto simp: nth_append)
  then show ?thesis by (simp add: answered_def)
qed

lemma answer_pays_nonneg: "0 \<le> answer_pays P w q l c"
  by (simp add: answer_pays_def split: call.split sum.split)

lemma answered_mono: "answered P w q l \<le> answered P w q (l @ ext)"
proof (induction ext rule: rev_induct)
  case (snoc c ext)
  have "answered P w q (l @ ext @ [c]) = answered P w q (l @ ext) + answer_pays P w q (l @ ext) c"
    using answered_snoc [of P w q "l @ ext" c] by simp
  with snoc answer_pays_nonneg [of P w q "l @ ext" c] show ?case by linarith
qed simp

lemma told_quiet: "adds (\<lambda>c. \<not> money_call c) l l' \<Longrightarrow> wages_told w q l' = wages_told w q l"
proof -
  have "credit_told w q c = 0" if "\<not> money_call c" for c using that by (cases "(w, q, c)" rule: credit_told.cases) auto
  then have "list_all (\<lambda>c. \<not> money_call c) ext \<Longrightarrow> wages_told w q (l @ ext) = wages_told w q l" for ext
    by (induction ext) (auto simp: wages_told_def)
  then show "adds (\<lambda>c. \<not> money_call c) l l' \<Longrightarrow> ?thesis" by (auto simp: adds_def)
qed

lemma earned_answered:
  assumes "earned P pips tick n l w q a" "n \<le> length l"
  shows "answered P w q (take n l) + sint a \<le> answered P w q l"
proof -
  obtain pre post res addr where l: "l = pre @ CallWork addr w q tick # post" "n \<le> length pre"
    "wp_Work P (pre @ [CallWork addr w q tick]) = Inr res" "wr_Wage res = a" and a: "0 <s a"
    using assms(1) by (auto simp: earned_def)
  let ?c = "CallWork addr w q tick"
  have "answer_pays P w q pre ?c = sint a" using l a by (simp add: answer_pays_def word_sless_alt)
  then have "answered P w q pre + sint a = answered P w q (pre @ [?c])" by (simp add: answered_snoc)
  also have "\<dots> \<le> answered P w q l" using answered_mono [of P w q "pre @ [?c]" post] l(1) by simp
  finally have "answered P w q pre + sint a \<le> answered P w q l" .
  moreover have "take n l = take n pre" using l(1,2) by simp
  moreover have "answered P w q (take n pre) \<le> answered P w q pre"
    using answered_mono [of P w q "take n pre" "drop n pre"] by simp
  ultimately show ?thesis by simp
qed

text \<open>A payroll tells of a pip at most what is owed to it.\<close>

lemma pay_list_told:
  "distinct order \<Longrightarrow> (\<Sum>(pip, a) \<leftarrow> pay_list order c. if pip = q then sint a else 0)
    \<le> (if q \<in> set order then max 0 (sint (getz c q)) else 0)"
proof (induction order)
  case (Cons p order)
  then show ?case by (auto simp: pay_list_def word_sless_alt)
qed (simp add: pay_list_def)

lemma payWages_told:
  assumes "walks_maps P"
  shows "wages_told w q (Fleet_payWages P f v tick c l) \<le> wages_told w q l + (if v = w then max 0 (sint (getz c q)) else 0)"
proof -
  let ?pays = "pay_list (map_order P l (fmdom c)) c"
  have "distinct (map_order P l (fmdom c))" using assms by (simp add: walks_maps_def)
  from pay_list_told [OF this, where c = c and q = q]
  have pays: "(\<Sum>(pip, a) \<leftarrow> ?pays. if pip = q then sint a else 0) \<le> max 0 (sint (getz c q))" by (auto split: if_splits)
  have inj: "workplaceAccount v = workplaceAccount w \<longleftrightarrow> v = w" by (simp add: workplaceAccount_def)
  have "wages_told w q (l @ [CallBatchTransfer b]) = wages_told w q l" for b by (simp add: told_grows)
  moreover have "wages_told w q (l @ [CallBatchTransfer b, SubmitIntent (CreditBalances (workplaceAccount v) ?pays tick)])
      = wages_told w q l + (if v = w then \<Sum>(pip, a) \<leftarrow> ?pays. if pip = q then sint a else 0 else 0)" for b
    by (simp add: wages_told_def inj)
  ultimately show ?thesis using pays by (auto simp: Fleet_payWages_def ask_def Let_def split: sum.split)
qed

lemma pay_all_told:
  assumes "walks_maps P"
  shows "distinct ws \<Longrightarrow> wages_told w q (pay_all P f ws tick cs l) \<le> wages_told w q l
    + (if w \<in> set ws then max 0 (sint (getz (case fmlookup cs w of None \<Rightarrow> fmempty | Some c \<Rightarrow> c) q)) else 0)"
proof (induction ws arbitrary: l)
  case (Cons v ws)
  let ?c = "case fmlookup cs v of None \<Rightarrow> fmempty | Some c \<Rightarrow> c"
  have "wages_told w q (Fleet_payWages P f v tick ?c l) \<le> wages_told w q l + (if v = w then max 0 (sint (getz ?c q)) else 0)"
    by (rule payWages_told [OF assms])
  moreover have "wages_told w q (pay_all P f ws tick cs (Fleet_payWages P f v tick ?c l)) \<le> wages_told w q (Fleet_payWages P f v tick ?c l)
    + (if w \<in> set ws then max 0 (sint (getz (case fmlookup cs w of None \<Rightarrow> fmempty | Some c \<Rightarrow> c) q)) else 0)"
    using Cons by simp
  moreover have "v = w \<Longrightarrow> w \<notin> set ws" using Cons.prems by auto
  ultimately show ?case by (cases "v = w") auto
qed simp

text \<open>In one cycle sim-core is told no more than the building answered in this very cycle.\<close>

lemma cycle_told:
  assumes walks: "walks_maps P" and run: "Fleet_cycle P f l = (res, f', l')"
  shows "wages_told w q l' + answered P w q l \<le> wages_told w q l + answered P w q l'"
proof (cases "\<exists>snap. sim_Snapshot P (l @ [Snapshot]) = Inr snap \<and> live_drivers f \<noteq> []")
  case False
  then have "l' = l @ [Snapshot]" using Fleet_cycle_idle run by (metis snd_conv)
  then show ?thesis by (simp add: told_grows answered_snoc answer_pays_nonneg)
next
  case True
  then obtain snap where snap: "sim_Snapshot P (l @ [Snapshot]) = Inr snap" "live_drivers f \<noteq> []" by blast
  from run snap show ?thesis
  proof (cases rule: Fleet_cycle_runs)
    case (1 f2 l2 r)
    note quiet = cycle_before_pay [OF 1(1,2)]
    let ?ws = "map_order P (r_log r) (fmdom (r_credits r))"
    let ?owed = "max 0 (sint (getz (case fmlookup (r_credits r) w of None \<Rightarrow> fmempty | Some c \<Rightarrow> c) q))"
    have len: "length l \<le> length (r_log r)" "take (length l) (r_log r) = l" using quiet(3) by (auto simp: adds_def)
    have "distinct ?ws" using walks by (simp add: walks_maps_def)
    from pay_all_told [OF walks this, of w q "r_fleet r" "snap_tick snap" "r_credits r" "r_log r"]
    have "wages_told w q l' \<le> wages_told w q (r_log r) + ?owed" unfolding 1(4) by (simp split: if_splits)
    also have "wages_told w q (r_log r) = wages_told w q l" by (rule told_quiet [OF quiet(3)])
    finally have paid: "wages_told w q l' \<le> wages_told w q l + ?owed" .
    have "answered P w q l + ?owed \<le> answered P w q (r_log r)"
    proof (cases "\<exists>c a. fmlookup (r_credits r) w = Some c \<and> fmlookup c q = Some a")
      case True
      then obtain c a where ca: "fmlookup (r_credits r) w = Some c" "fmlookup c q = Some a" by blast
      then have e: "earned P (snap_pips snap) (snap_tick snap) (length l) (r_log r) w q a"
        using quiet(2) by (simp add: owed_ok_def)
      have "0 < sint a" using e by (simp add: earned_def word_sless_alt)
      with earned_answered [OF e len(1)] ca show ?thesis by (simp add: len(2) getz_def)
    next
      case False
      then have "?owed = 0" by (auto simp: getz_def split: option.split)
      with answered_mono [of P w q l "drop (length l) (r_log r)"] len show ?thesis
        by (metis add.right_neutral append_take_drop_id)
    qed
    moreover have "answered P w q (r_log r) \<le> answered P w q l'"
    proof -
      obtain ext where "l' = r_log r @ ext"
        using pay_all_quiet [of "r_log r"] unfolding 1(4) adds_def by blast
      then show ?thesis using answered_mono by simp
    qed
    ultimately show ?thesis using paid by linarith
  qed
qed

section \<open>The ticks a building is asked to work at\<close>

definition works_at :: "u64 \<Rightarrow> call \<Rightarrow> bool" where
  "works_at tick c \<longleftrightarrow> (\<forall>a v p t. c = CallWork a v p t \<longrightarrow> t = tick)"

definition work_ticks :: "u64 \<Rightarrow> u64 \<Rightarrow> call_log \<Rightarrow> u64 list" where
  "work_ticks w q l = concat (map (\<lambda>c. case c of CallWork a v p t \<Rightarrow> if v = w \<and> p = q then [t] else [] | _ \<Rightarrow> []) l)"

lemma work_ticks_simps [simp]:
  "work_ticks w q [] = []" "work_ticks w q (l @ l') = work_ticks w q l @ work_ticks w q l'"
  by (simp_all add: work_ticks_def)

lemma work_ticks_one:
  "(\<forall>a t. c \<noteq> CallWork a w q t) \<Longrightarrow> work_ticks w q [c] = []" "work_ticks w q [CallWork a w q t] = [t]"
  by (auto simp: work_ticks_def split: call.split)

lemma works_at_ticks: "list_all (works_at tick) ext \<Longrightarrow> set (work_ticks w q ext) \<subseteq> {tick}"
  by (induction ext) (auto simp: work_ticks_def works_at_def split: call.splits)

lemma sync_all_works_at: "sync_all P pips tick ks (g, l) = (g', l') \<Longrightarrow> adds (works_at t) l l'"
proof (induction ks arbitrary: g l)
  case (Cons k ks)
  have ends: "end_shifts P k tick ps (g, l) = (g', l') \<Longrightarrow> adds (works_at t) l l'" for ps g l g' l'
  proof (induction ps arbitrary: g l)
    case (Cons p ps)
    obtain d l1 where e: "Driver_endShift P (f_drivers g ! k) p tick ''no longer employed here'' l = (d, l1)" by fastforce
    have "adds (works_at t) l l1" using endShift_says [OF e] by (simp add: adds_def works_at_def)
    with Cons e show ?case by (auto intro: adds_trans)
  qed simp
  let ?d = "f_drivers g ! k"
  obtain gone d l1 where s: "syncEmployment P ?d (employed_by pips (d_id ?d)) l = (gone, d, l1)" by (metis prod_cases3)
  obtain g2 l2 where e: "end_shifts P k tick gone (set_driver k d g, l1) = (g2, l2)" by fastforce
  have "adds (works_at t) l l1"
    using syncEmployment_says(1) [OF s] by (rule adds_mono) (simp add: clock_call_def works_at_def)
  from adds_trans [OF this ends [OF e]] Cons s e show ?case by (auto intro: adds_trans)
qed simp

lemma cycle_pips_works_at: "adds (works_at tick) (r_log r) (r_log (cycle_pips P tick byID ring ps r))"
  by (rule cycle_pips_adds) (simp add: loop_vocabulary_def works_at_def)

lemma pay_all_works_at: "adds (works_at t) l (pay_all P g ws tick cs l)"
proof (induction ws arbitrary: l)
  case (Cons w ws)
  let ?l = "Fleet_payWages P g w tick (case fmlookup cs w of None \<Rightarrow> fmempty | Some c \<Rightarrow> c) l"
  have "adds (works_at t) l (Fleet_payWages P g w tick c l)" for c
    by (auto simp: Fleet_payWages_def ask_def adds_def works_at_def Let_def split: sum.splits)
  from adds_trans [OF this Cons [of ?l]] show ?case by simp
qed simp

lemma cycle_works_at:
  assumes run: "Fleet_cycle P f l = (res, f', l')"
  obtains (unanswered) err where "sim_Snapshot P (l @ [Snapshot]) = Inl err" "l' = l @ [Snapshot]"
  | (answered) snap where "sim_Snapshot P (l @ [Snapshot]) = Inr snap" "adds (works_at (snap_tick snap)) l l'"
proof (cases "sim_Snapshot P (l @ [Snapshot])")
  case (Inl err)
  then show ?thesis using Fleet_cycle_idle [of P l f] run by (intro unanswered) auto
next
  case (Inr snap)
  have start: "adds (works_at (snap_tick snap)) l (l @ [Snapshot])" by (rule adds_one) (simp add: works_at_def)
  show ?thesis
  proof (cases "live_drivers f = []")
    case True
    then show ?thesis using Fleet_cycle_idle [of P l f] run start by (intro answered [OF Inr]) auto
  next
    case False
    from run Inr False show ?thesis
    proof (cases rule: Fleet_cycle_runs)
      case (1 f2 l2 r)
      have "adds (works_at (snap_tick snap)) l2 (r_log r)"
        unfolding 1(2) using cycle_pips_works_at [of "snap_tick snap" "\<lparr>r_fleet = f2\<lparr>f_next := Suc (f_next f2)\<rparr>,
          r_left = offers_left (f2\<lparr>f_next := Suc (f_next f2)\<rparr>), r_credits = fmempty, r_log = l2\<rparr>"] by simp
      note before = adds_trans [OF adds_trans [OF start sync_all_works_at [OF 1(1)]] this]
      have "adds (works_at (snap_tick snap)) l l'" unfolding 1(4) by (rule adds_trans [OF before pay_all_works_at])
      then show ?thesis by (rule answered [OF Inr])
    qed
  qed
qed

section \<open>A history of the gateway\<close>

text \<open>
  Everything the gateway does, in any order, and the tick of the last snapshot a cycle saw; the world's
  ticks do not go back.
\<close>

inductive gateway_history :: "peers \<Rightarrow> Fleet \<Rightarrow> Fleet \<Rightarrow> call_log \<Rightarrow> u64 \<Rightarrow> bool" for P f0 where
  gh_start: "gateway_history P f0 f0 [] 0"
| gh_cycle: "gateway_history P f0 f l T \<Longrightarrow> Fleet_cycle P f l = (res, f', l') \<Longrightarrow>
    sim_Snapshot P (l @ [Snapshot]) = Inr snap \<Longrightarrow> T \<le> snap_tick snap \<Longrightarrow> gateway_history P f0 f' l' (snap_tick snap)"
| gh_blind: "gateway_history P f0 f l T \<Longrightarrow> Fleet_cycle P f l = (res, f', l') \<Longrightarrow>
    sim_Snapshot P (l @ [Snapshot]) = Inl err \<Longrightarrow> gateway_history P f0 f' l' T"
| gh_endow: "gateway_history P f0 f l T \<Longrightarrow> gateway_history P f0 f (Fleet_Endow P f capital l) T"
| gh_buy: "gateway_history P f0 f l T \<Longrightarrow> Fleet_Buy P f pip v kind t l = (rb, l') \<Longrightarrow> gateway_history P f0 f l' T"
| gh_hired: "gateway_history P f0 f l T \<Longrightarrow> Fleet_OnHired P pip v (f, l) = (f', l') \<Longrightarrow> gateway_history P f0 f' l' T"
| gh_register: "gateway_history P f0 f l T \<Longrightarrow> Driver_Register P (f_drivers f ! k) l = (rr, d, l') \<Longrightarrow>
    gateway_history P f0 (set_driver k d f) l' T"
| gh_describe: "gateway_history P f0 f l T \<Longrightarrow> Fleet_Describe P f l = (rd, l') \<Longrightarrow> gateway_history P f0 f l' T"

text \<open>Outside the cycle nobody is worked and nobody is credited.\<close>

fun wage_call :: "call \<Rightarrow> bool" where
  "wage_call (CallWork a v p t) = True"
| "wage_call (SubmitIntent (CreditBalances acc pays t)) = True"
| "wage_call _ = False"

lemma wage_free:
  assumes "adds (\<lambda>c. \<not> wage_call c) l l'"
  shows "wages_told w q l' = wages_told w q l" "answered P w q l' = answered P w q l" "work_ticks w q l' = work_ticks w q l"
proof -
  have none: "credit_told w q c = 0" "answer_pays P w q m c = 0" "work_ticks w q [c] = []" if "\<not> wage_call c" for m c
    using that by (cases c rule: wage_call.cases; simp add: answer_pays_def work_ticks_def)+
  have "list_all (\<lambda>c. \<not> wage_call c) ext \<Longrightarrow> wages_told w q (l @ ext) = wages_told w q l \<and> answered P w q (l @ ext) = answered P w q l
      \<and> work_ticks w q (l @ ext) = work_ticks w q l" for ext
  proof (induction ext rule: rev_induct)
    case (snoc c ext)
    then show ?case using told_grows [of w q "l @ ext" c] answered_snoc [of P w q "l @ ext" c] none by simp
  qed simp
  with assms show "wages_told w q l' = wages_told w q l" "answered P w q l' = answered P w q l" "work_ticks w q l' = work_ticks w q l"
    by (auto simp: adds_def)
qed

lemma endow_wage_free: "adds (\<lambda>c. \<not> wage_call c) l (Fleet_Endow P f capital l)"
proof -
  have one: "adds (\<lambda>c. \<not> wage_call c) l (endow_one P capital t d l)" for t d l
    by (auto simp: endow_one_def ask_def adds_def Let_def split: sum.splits)
  have "adds (\<lambda>c. \<not> wage_call c) l (fold (endow_one P capital t) ds l)" for t ds l
    by (induction ds arbitrary: l) (auto intro: adds_trans [OF one])
  moreover have first: "adds (\<lambda>c. \<not> wage_call c) l (l @ [Snapshot])" by (rule adds_one) simp
  ultimately show ?thesis by (auto simp: Fleet_Endow_def ask_def split: sum.split intro: adds_trans [OF first])
qed

lemma others_wage_free:
  "Fleet_Buy P f pip v kind t l = (rb, l') \<Longrightarrow> adds (\<lambda>c. \<not> wage_call c) l l'"
  "Fleet_OnHired P pip v (f, l) = (f', l') \<Longrightarrow> adds (\<lambda>c. \<not> wage_call c) l l'"
  "Driver_Register P dr l = (rr, d, l') \<Longrightarrow> adds (\<lambda>c. \<not> wage_call c) l l'"
  "Fleet_Describe P f l = (rd, l') \<Longrightarrow> adds (\<lambda>c. \<not> wage_call c) l l'"
proof -
  show "Fleet_Buy P f pip v kind t l = (rb, l') \<Longrightarrow> adds (\<lambda>c. \<not> wage_call c) l l'"
    by (auto simp: Fleet_Buy_def ask_def adds_def split: option.splits sum.splits if_splits)
  show "Fleet_OnHired P pip v (f, l) = (f', l') \<Longrightarrow> adds (\<lambda>c. \<not> wage_call c) l l'"
    by (auto simp: Fleet_OnHired_def Driver_OnHired_def ask_def adds_def split: option.splits sum.splits)
  show "Driver_Register P dr l = (rr, d, l') \<Longrightarrow> adds (\<lambda>c. \<not> wage_call c) l l'"
    by (auto simp: Driver_Register_def Driver_Describe_def ask_def adds_def split: option.splits sum.splits)
  have "describe_drivers P ds l = (rd, l') \<Longrightarrow> adds (\<lambda>c. \<not> wage_call c) l l'" for ds rd l l'
  proof (induction ds arbitrary: l rd l')
    case (Cons d ds)
    obtain out l2 where rest: "describe_drivers P ds (l @ [CallDescribe (d_addr d) (d_id d)]) = (out, l2)" by fastforce
    have "adds (\<lambda>c. \<not> wage_call c) l (l @ [CallDescribe (d_addr d) (d_id d)])" by (rule adds_one) simp
    from adds_trans [OF this Cons.IH [OF rest]] Cons.prems rest show ?case
      by (simp add: Driver_Describe_def ask_def)
  qed simp
  then show "Fleet_Describe P f l = (rd, l') \<Longrightarrow> adds (\<lambda>c. \<not> wage_call c) l l'" by (simp add: Fleet_Describe_def)
qed

lemma history_told:
  assumes "walks_maps P" and "gateway_history P f0 f l T"
  shows "wages_told w q l \<le> answered P w q l"
  using assms(2)
proof induction
  case gh_start
  then show ?case by (simp add: wages_told_def answered_def)
next
  case (gh_cycle f l T res f' l' snap)
  then show ?case using cycle_told [OF assms(1) gh_cycle.hyps(2), of w q] by linarith
next
  case (gh_blind f l T res f' l' err)
  then show ?case using cycle_told [OF assms(1) gh_blind.hyps(2), of w q] by linarith
qed (simp_all add: wage_free [OF endow_wage_free] wage_free [OF others_wage_free(1)] wage_free [OF others_wage_free(2)]
      wage_free [OF others_wage_free(3)] wage_free [OF others_wage_free(4)])

lemma sorted_then_one: "sorted xs \<Longrightarrow> \<forall>x \<in> set xs. x \<le> (t :: int) \<Longrightarrow> set ys \<subseteq> {t} \<Longrightarrow> sorted (xs @ ys)"
proof -
  assume a: "sorted xs" "\<forall>x \<in> set xs. x \<le> t" "set ys \<subseteq> {t}"
  have "sorted ys" using a(3) by (induction ys) auto
  with a show ?thesis by (auto simp: sorted_append)
qed

lemma history_ticks:
  assumes "gateway_history P f0 f l T"
  shows "sorted (map uint (work_ticks w q l)) \<and> (\<forall>t \<in> set (work_ticks w q l). t \<le> T)"
  using assms
proof induction
  case (gh_cycle f l T res f' l' snap)
  from gh_cycle.hyps(2) gh_cycle.hyps(3) have "adds (works_at (snap_tick snap)) l l'"
    by (cases rule: cycle_works_at) auto
  then obtain ext where ext: "l' = l @ ext" "set (work_ticks w q ext) \<subseteq> {snap_tick snap}"
    using works_at_ticks by (auto simp: adds_def)
  have le: "t \<le> snap_tick snap" if "t \<in> set (work_ticks w q l)" for t
    using gh_cycle.IH gh_cycle.hyps(4) that order_trans by blast
  have "sorted (map uint (work_ticks w q l) @ map uint (work_ticks w q ext))"
    by (rule sorted_then_one [where t = "uint (snap_tick snap)"])
       (use gh_cycle.IH le ext(2) in \<open>auto simp: word_le_def\<close>)
  with le ext show ?case by auto
next
  case (gh_blind f l T res f' l' err)
  from gh_blind.hyps(2,3) have "l' = l @ [Snapshot]" by (cases rule: cycle_works_at) auto
  then show ?case using gh_blind.IH by (simp add: work_ticks_one)
qed (simp_all add: wage_free [OF endow_wage_free] wage_free [OF others_wage_free(1)] wage_free [OF others_wage_free(2)]
      wage_free [OF others_wage_free(3)] wage_free [OF others_wage_free(4)])

section \<open>A building behind the gateway\<close>

text \<open>A store that remembers, for each pip on shift, the last tick it paid for.\<close>

locale timed_store = shift_store S held cap gap keep legal
  for S :: "('e, 's) Store" and held cap gap keep legal +
  fixes last_tick :: "'s \<Rightarrow> u64 \<Rightarrow> u64 option"
  assumes claim_time: "keep s \<Longrightarrow> legal e \<Longrightarrow> Claim S e s pip tick = (rc, s') \<Longrightarrow> q \<noteq> pip \<Longrightarrow>
      last_tick s' q = last_tick s q \<or> last_tick s' q = None"
    and touch_time: "keep s \<Longrightarrow> legal e \<Longrightarrow> Touch S e s pip tick = (rt, s') \<Longrightarrow>
      (q \<noteq> pip \<longrightarrow> last_tick s' q = last_tick s q)
      \<and> (last_tick s' pip = last_tick s pip \<or> last_tick s pip \<noteq> None \<and> last_tick s' pip = Some tick)
      \<and> (\<forall>n. rt = Inr (n, True) \<longrightarrow> (\<exists>L. last_tick s pip = Some L \<and> last_tick s' pip = Some tick
           \<and> sint n \<le> max 0 (uint tick - uint L)))"
    and release_time: "keep s \<Longrightarrow> legal e \<Longrightarrow> Release S e s pip tick = (rr, s') \<Longrightarrow>
      last_tick s' q = last_tick s q \<or> last_tick s' q = None"

text \<open>Whatever else happens to the building: hires and ends of anybody, and work of others than \<open>q\<close>.\<close>

inductive building_step :: "('e, 's) Store \<Rightarrow> ('e \<Rightarrow> bool) \<Rightarrow> u64 \<Rightarrow> 's \<Rightarrow> 's \<Rightarrow> bool" for S legal q where
  bs_start: "legal e \<Longrightarrow> Service_StartShift S e s pip t = (r, s') \<Longrightarrow> building_step S legal q s s'"
| bs_offer: "legal e \<Longrightarrow> Service_ConsiderOffer S e s pip t = (ro, s') \<Longrightarrow> building_step S legal q s s'"
| bs_end: "legal e \<Longrightarrow> Service_EndShift S e s pip t = (re, s') \<Longrightarrow> building_step S legal q s s'"
| bs_work: "legal e \<Longrightarrow> pip \<noteq> q \<Longrightarrow> Service_Work S e s pip t = (rw, s') \<Longrightarrow> building_step S legal q s s'"

definition hired_anew :: "u64 option \<Rightarrow> u64 option \<Rightarrow> nat" where
  "hired_anew before after = (if after = before \<or> after = None then 0 else 1)"

text \<open>
  \<open>building_history\<close>: the gateway's log so far is answered by this building, which has taken \<open>q\<close> on \<open>n\<close>
  times and is now in state \<open>s\<close>. Between the calls anything else may happen; a call for \<open>q\<close> is answered, or
  its answer is lost, or it never arrives.
\<close>

inductive building_history ::
  "peers \<Rightarrow> ('e, 's) Store \<Rightarrow> ('e \<Rightarrow> bool) \<Rightarrow> ('s \<Rightarrow> u64 \<Rightarrow> u64 option) \<Rightarrow> u64 \<Rightarrow> u64 \<Rightarrow> 's \<Rightarrow> call_log \<Rightarrow> nat \<Rightarrow> 's \<Rightarrow> bool"
  for P S legal last_tick w q s0 where
  bh_opens: "building_history P S legal last_tick w q s0 [] 0 s0"
| bh_traffic: "building_history P S legal last_tick w q s0 l n s \<Longrightarrow> building_step S legal q s s' \<Longrightarrow>
    building_history P S legal last_tick w q s0 l (n + hired_anew (last_tick s q) (last_tick s' q)) s'"
| bh_elsewhere: "building_history P S legal last_tick w q s0 l n s \<Longrightarrow> \<forall>a t. c \<noteq> CallWork a w q t \<Longrightarrow>
    building_history P S legal last_tick w q s0 (l @ [c]) n s"
| bh_worked: "building_history P S legal last_tick w q s0 l n s \<Longrightarrow> legal e \<Longrightarrow> Service_Work S e s q t = (r, s') \<Longrightarrow>
    wp_Work P (l @ [CallWork a w q t]) = r \<or> (\<exists>err. wp_Work P (l @ [CallWork a w q t]) = Inl err) \<Longrightarrow>
    building_history P S legal last_tick w q s0 (l @ [CallWork a w q t]) n s'"
| bh_undelivered: "building_history P S legal last_tick w q s0 l n s \<Longrightarrow> wp_Work P (l @ [CallWork a w q t]) = Inl err \<Longrightarrow>
    building_history P S legal last_tick w q s0 (l @ [CallWork a w q t]) n s"

text \<open>What a building may still owe for the ticks up to \<open>T\<close>: never more than the longest gap.\<close>

definition slack :: "u64 option \<Rightarrow> int \<Rightarrow> int" where
  "slack before T = (case before of None \<Rightarrow> 0 | Some L \<Rightarrow> min 40 (max 0 (T - uint L)))"

definition pay_bound :: "u64 list \<Rightarrow> int \<Rightarrow> nat \<Rightarrow> u64 option \<Rightarrow> bool" where
  "pay_bound ts paid n mark \<longleftrightarrow>
     (if ts = [] then paid = 0 \<and> (mark \<noteq> None \<longrightarrow> 0 < n)
      else paid + 6 * slack mark (uint (last ts)) \<le> 6 * (uint (last ts) - uint (hd ts) + 40 * int n))"

lemma slack_bounds: "0 \<le> slack L T" "slack L T \<le> 40" "T \<le> T' \<Longrightarrow> slack L T' \<le> slack L T + (T' - T)" "slack None T = 0"
  by (auto simp: slack_def split: option.split)

lemma pay_bound_traffic:
  assumes "pay_bound ts paid n before"
  shows "pay_bound ts paid (n + hired_anew before after) after"
proof (cases "after = before \<or> after = None")
  case True
  then show ?thesis using assms slack_bounds(1) [of before "uint (last ts)"]
    by (auto simp: pay_bound_def hired_anew_def slack_bounds(4))
next
  case False
  then show ?thesis using assms slack_bounds(2) [of after "uint (last ts)"] slack_bounds(1) [of before "uint (last ts)"]
    by (auto simp: pay_bound_def hired_anew_def algebra_simps)
qed

text \<open>A call at a later tick that pays at most what is owed, and nothing when it leaves the last tick alone.\<close>

lemma pay_bound_call:
  assumes "pay_bound ts paid n before" "sorted (map uint (ts @ [t]))"
    and "pay = 0 \<and> (after = before \<or> before \<noteq> None \<and> after = Some t)
      \<or> (\<exists>L. before = Some L \<and> after = Some t \<and> pay \<le> 6 * min 40 (max 0 (uint t - uint L)))"
  shows "pay_bound (ts @ [t]) (paid + pay) n after"
proof -
  have now: "slack (Some t) (uint t) = 0" by (simp add: slack_def)
  have owed: "pay + 6 * slack after (uint t) \<le> 6 * slack before (uint t)"
    using assms(3) now slack_bounds(1) [of before "uint t"] by (auto simp: slack_def)
  show ?thesis
  proof (cases "ts = []")
    case True
    then have n: "paid = 0" "before \<noteq> None \<longrightarrow> 0 < n" using assms(1) by (auto simp: pay_bound_def)
    have "slack before (uint t) \<le> 40 * int n"
      using n(2) slack_bounds(2) [of before "uint t"] by (cases before) (auto simp: slack_bounds(4) intro: order_trans)
    with True n(1) owed show ?thesis by (simp add: pay_bound_def)
  next
    case False
    then have "uint (last ts) \<le> uint t" using assms(2) by (auto simp: sorted_append)
    from slack_bounds(3) [OF this, of before] owed assms(1) False show ?thesis by (simp add: pay_bound_def)
  qed
qed

context timed_store begin

lemma step_time:
  assumes "keep s" and "gap \<le> 40" "0 \<le> gap" and "building_step S legal q s s'"
  shows "keep s'"
  using assms(4)
proof cases
  case (bs_start e pip t r)
  then show ?thesis using start_law assms(1) by blast
next
  case (bs_offer e pip t ro)
  then show ?thesis using offer_law assms(1) by (metis prod.collapse)
next
  case (bs_end e pip t re)
  then show ?thesis using end_law assms(1) by blast
next
  case (bs_work e pip t rw)
  then show ?thesis using work_law assms(1-3) by blast
qed

text \<open>What \<^verbatim>\<open>Work\<close> pays, by the last tick before and after.\<close>

lemma work_time:
  assumes "keep s" "legal e" "gap \<le> 40" "0 \<le> gap" and run: "Service_Work S e s q t = (r, s')"
  shows "(\<forall>x. r = Inr x \<longrightarrow> wr_Wage x = 0 \<or>
      (\<exists>L. last_tick s q = Some L \<and> last_tick s' q = Some t \<and> sint (wr_Wage x) \<le> 6 * min 40 (max 0 (uint t - uint L))))
    \<and> (last_tick s' q = last_tick s q \<or> last_tick s q \<noteq> None \<and> last_tick s' q = Some t)"
proof -
  obtain rt s1 where t: "Touch S e s q t = (rt, s1)" by fastforce
  have s1: "s' = s1" using run t by (auto simp: Service_Work_def split: sum.splits prod.splits if_splits)
  note law = touch_law [OF assms(1,2) t] and time = touch_time [OF assms(1,2) t, of q]
  show ?thesis
  proof (cases "\<exists>n. rt = Inr (n, True) \<and> n \<noteq> 0")
    case True
    then obtain n where n: "rt = Inr (n, True)" "n \<noteq> 0" by blast
    obtain L where L: "last_tick s q = Some L" "last_tick s1 q = Some t" "sint n \<le> max 0 (uint t - uint L)"
      using time n(1) by blast
    have pos: "0 \<le> sint n" "sint n \<le> 40" using law n(1) assms(3) by auto
    have "r = Inr (no_work\<lparr>wr_Produced := [(RESOURCE_KIND_GRAIN, grainPerTick * n)], wr_Wage := scast (wagePerTick * n)\<rparr>)"
      using run t n by (simp add: Service_Work_def)
    with pay_exact(1) [OF pos] pos L s1 show ?thesis by auto
  next
    case False
    have "\<forall>x. r = Inr x \<longrightarrow> wr_Wage x = 0"
      using run t False by (auto simp: Service_Work_def no_work_def split: sum.splits prod.splits if_splits)
    with time s1 show ?thesis by blast
  qed
qed

text \<open>Only taking \<open>q\<close> on counts as a hire.\<close>

lemma only_hires_count:
  assumes "keep s" and "building_step S legal q s s'" and "hired_anew (last_tick s q) (last_tick s' q) \<noteq> 0"
  shows "\<exists>e t. legal e \<and> ((\<exists>r. Service_StartShift S e s q t = (r, s')) \<or> (\<exists>r. Service_ConsiderOffer S e s q t = (r, s')))"
  using assms(2)
proof cases
  case (bs_start e pip t r)
  obtain rc s1 where c: "Claim S e s pip t = (rc, s1)" by fastforce
  with bs_start have "s' = s1" by (auto simp: Service_StartShift_def split: sum.splits prod.splits if_splits)
  with claim_time [OF assms(1) bs_start(1) c, of q] assms(3) have "pip = q" by (auto simp: hired_anew_def split: if_splits)
  with bs_start show ?thesis by blast
next
  case (bs_offer e pip t ro)
  obtain rc s1 where c: "Claim S e s pip t = (rc, s1)" by fastforce
  with bs_offer have "s' = s1" by (auto simp: Service_ConsiderOffer_def split: sum.splits prod.splits)
  with claim_time [OF assms(1) bs_offer(1) c, of q] assms(3) have "pip = q" by (auto simp: hired_anew_def split: if_splits)
  with bs_offer show ?thesis by blast
next
  case (bs_end e pip t re)
  obtain rr s1 where c: "Release S e s pip t = (rr, s1)" by fastforce
  with bs_end have "s' = s1" by (auto simp: Service_EndShift_def split: sum.splits prod.splits)
  with release_time [OF assms(1) bs_end(1) c, of q] assms(3) show ?thesis by (auto simp: hired_anew_def split: if_splits)
next
  case (bs_work e pip t rw)
  obtain rt s1 where c: "Touch S e s pip t = (rt, s1)" by fastforce
  with bs_work have "s' = s1" by (auto simp: Service_Work_def split: sum.splits prod.splits if_splits)
  with touch_time [OF assms(1) bs_work(1) c, of q] bs_work(2) assms(3) show ?thesis by (auto simp: hired_anew_def split: if_splits)
qed

lemma history_pay:
  assumes gap: "gap \<le> 40" "0 \<le> gap" and s0: "keep s0" "last_tick s0 q = None"
  shows "building_history P S legal last_tick w q s0 l n s \<Longrightarrow> sorted (map uint (work_ticks w q l)) \<Longrightarrow>
    keep s \<and> pay_bound (work_ticks w q l) (answered P w q l) n (last_tick s q)"
proof (induction rule: building_history.induct)
  case bh_opens
  show ?case by (simp add: pay_bound_def answered_def s0)
next
  case (bh_traffic l n s s')
  with step_time [OF _ gap, of s q s'] pay_bound_traffic show ?case by blast
next
  case (bh_elsewhere l n s c)
  have "answer_pays P w q l c = 0" using bh_elsewhere.hyps(2) by (auto simp: answer_pays_def split: call.split)
  then show ?case using bh_elsewhere by (simp add: work_ticks_one(1) answered_snoc)
next
  case (bh_worked l n s e t r s' a)
  let ?c = "CallWork a w q t"
  have srt: "sorted (map uint (work_ticks w q l @ [t]))" using bh_worked.prems by (simp add: work_ticks_one(2))
  then have IH: "keep s" "pay_bound (work_ticks w q l) (answered P w q l) n (last_tick s q)"
    using bh_worked.IH by (simp_all add: sorted_append)
  note work = work_time [OF IH(1) bh_worked.hyps(2) gap bh_worked.hyps(3)]
  have pay: "answer_pays P w q l ?c = 0 \<and> (last_tick s' q = last_tick s q \<or> last_tick s q \<noteq> None \<and> last_tick s' q = Some t)
      \<or> (\<exists>L. last_tick s q = Some L \<and> last_tick s' q = Some t \<and> answer_pays P w q l ?c \<le> 6 * min 40 (max 0 (uint t - uint L)))"
  proof (cases "wp_Work P (l @ [?c])")
    case (Inl err)
    with work show ?thesis by (simp add: answer_pays_def)
  next
    case (Inr x)
    with bh_worked.hyps(4) have "r = Inr x" by auto
    with work Inr show ?thesis by (auto simp: answer_pays_def)
  qed
  from pay_bound_call [OF IH(2) srt pay] show ?case
    using work_law [OF IH(1) bh_worked.hyps(2) gap bh_worked.hyps(3)] by (simp add: answered_snoc work_ticks_one(2))
next
  case (bh_undelivered l n s a t err)
  let ?c = "CallWork a w q t"
  have srt: "sorted (map uint (work_ticks w q l @ [t]))" using bh_undelivered.prems by (simp add: work_ticks_one(2))
  then have IH: "keep s" "pay_bound (work_ticks w q l) (answered P w q l) n (last_tick s q)"
    using bh_undelivered.IH by (simp_all add: sorted_append)
  have "answer_pays P w q l ?c = 0" using bh_undelivered.hyps(2) by (simp add: answer_pays_def)
  with pay_bound_call [OF IH(2) srt, of 0 "last_tick s q"] IH(1) show ?case by (simp add: answered_snoc work_ticks_one(2))
qed

end

definition mem_mark :: "memStore \<Rightarrow> u64 \<Rightarrow> u64 option" where
  "mem_mark s pip = map_option lastWorkTick (fmlookup (shifts s) pip)"

definition dapr_mark :: "actor_state \<Rightarrow> u64 \<Rightarrow> u64 option" where
  "dapr_mark st pip = (case st of None \<Rightarrow> None | Some wire \<Rightarrow> map_option LastWorkTick (fmlookup wire pip))"

text \<open>What the rules do to the last ticks.\<close>

lemma claim_marks: "q \<noteq> pip \<Longrightarrow> mem_mark (snd (shiftSet_claim c pip tick s)) q \<in> {mem_mark s q, None}"
  by (auto simp: shiftSet_claim_def mem_mark_def reap_lookup Let_def split: option.splits)

lemma release_marks: "mem_mark (snd (shiftSet_release pip s)) q \<in> {mem_mark s q, None}"
  by (auto simp: shiftSet_release_def mem_mark_def split: option.splits)

lemma touch_marks:
  assumes "uint (s_maxGap s) < 2 ^ 31"
  shows "q \<noteq> pip \<Longrightarrow> mem_mark (snd (shiftSet_touch c pip tick s)) q = mem_mark s q"
    and "fst (shiftSet_touch c pip tick s) = (n, True) \<Longrightarrow> \<exists>L. mem_mark s pip = Some L
      \<and> mem_mark (snd (shiftSet_touch c pip tick s)) pip = Some tick \<and> sint n \<le> max 0 (uint tick - uint L)"
    and "fst (shiftSet_touch c pip tick s) = (n, False) \<Longrightarrow> snd (shiftSet_touch c pip tick s) = s"
  using elapsed_ticks_bounds(3) [OF assms]
  by (auto simp: shiftSet_touch_def mem_mark_def split: option.splits)

interpretation mem_timed: timed_store MemStore "\<lambda>s. fmdom (shifts s)" MaxWorkers 40
  "shiftSet_ok MaxWorkers MaxTicksPerWork" "\<lambda>_. True" mem_mark
proof (unfold_locales, goal_cases)
  case (1 s e pip tick rc s' q)
  then have "s' = snd (shiftSet_claim e pip tick s)"
    by (auto simp: MemStore_def memStore_Claim_def map_prod_def split: prod.splits)
  with claim_marks [of q pip e tick s] 1(4) show ?case by auto
next
  case (2 s e pip tick rt s' q)
  then have s': "s' = snd (shiftSet_touch e pip tick s)" "rt = Inr (fst (shiftSet_touch e pip tick s))"
    by (auto simp: MemStore_def memStore_Touch_def map_prod_def split: prod.splits)
  have gap: "uint (s_maxGap s) < 2 ^ 31" using 2(1) by (simp add: shiftSet_ok_def)
  obtain n ok where "fst (shiftSet_touch e pip tick s) = (n, ok)" by fastforce
  with touch_marks(1) [OF gap, where q = q and pip = pip and c = e and tick = tick]
    touch_marks(2) [OF gap, where pip = pip and c = e and tick = tick and n = n]
    touch_marks(3) [OF gap, where pip = pip and c = e and tick = tick and n = n] s' show ?case
    by (cases ok) auto
next
  case (3 s e pip tick rr s' q)
  then have "s' = snd (shiftSet_release pip s)"
    by (auto simp: MemStore_def memStore_Release_def map_prod_def split: prod.splits)
  with release_marks [of pip s q] show ?case by auto
qed

lemma load_marks: "daprStore_load d e st = Inr ss \<Longrightarrow> mem_mark ss = dapr_mark st"
  by (rule ext) (auto simp: daprStore_load_def mem_mark_def dapr_mark_def newShiftSet_def from_wire_def option.map_comp comp_def
      split: option.splits)

lemma save_marks:
  assumes "daprStore_save e ss st = (r, st')"
  obtains (kept) err where "r = Inl err" "st' = st" | (saved) "dapr_mark st' = mem_mark ss"
proof (cases "save_outcome e")
  case (NotRun err)
  with assms show ?thesis by (intro kept) (auto simp: daprStore_save_def)
next
  case Answered
  with assms have "st' = Some (fmmap to_wire (shifts ss))" by (simp add: daprStore_save_def)
  then have "dapr_mark st' = mem_mark ss"
    by (intro ext) (auto simp: dapr_mark_def mem_mark_def to_wire_def option.map_comp comp_def)
  then show ?thesis by (rule saved)
next
  case (AnswerLost err)
  with assms have "st' = Some (fmmap to_wire (shifts ss))" by (simp add: daprStore_save_def)
  then have "dapr_mark st' = mem_mark ss"
    by (intro ext) (auto simp: dapr_mark_def mem_mark_def to_wire_def option.map_comp comp_def)
  then show ?thesis by (rule saved)
qed

interpretation dapr_timed: timed_store "DaprStore (FarmDapr base wid)" dapr_held MaxWorkers 40
  "dapr_ok MaxWorkers" "\<lambda>_. True" dapr_mark for base wid
proof (unfold_locales, goal_cases)
  case (1 st e pip tick rc st' q)
  then have run: "daprStore_Claim (FarmDapr base wid) e st pip tick = (rc, st')" by (simp add: DaprStore_def)
  show ?case
  proof (cases "daprStore_load (FarmDapr base wid) e st")
    case (Inl err)
    with run show ?thesis by (simp add: daprStore_Claim_def)
  next
    case (Inr ss)
    obtain acc why ss' where cl: "shiftSet_claim (dapr_clock e) pip tick ss = ((acc, why), ss')" by (metis surj_pair)
    obtain r st1 where sv: "daprStore_save e ss' st = (r, st1)" by fastforce
    have "st' = st \<or> st' = st1" using run Inr cl sv by (auto simp: daprStore_Claim_def split: if_splits sum.splits)
    moreover have "dapr_mark st1 q \<in> {dapr_mark st q, None}"
      using sv
    proof (cases rule: save_marks)
      case saved
      with claim_marks [OF 1(4), of "dapr_clock e" tick ss] cl load_marks [OF Inr] show ?thesis by simp
    qed simp
    ultimately show ?thesis by auto
  qed
next
  case (2 st e pip tick rt st' q)
  then have run: "daprStore_Touch (FarmDapr base wid) e st pip tick = (rt, st')" by (simp add: DaprStore_def)
  show ?case
  proof (cases "daprStore_load (FarmDapr base wid) e st")
    case (Inl err)
    with run show ?thesis by (auto simp: daprStore_Touch_def)
  next
    case (Inr ss)
    have gap: "uint (s_maxGap ss) < 2 ^ 31" using daprStore_load_ok [OF 2(1) Inr] by (simp add: shiftSet_ok_def)
    obtain n ok ss' where t: "shiftSet_touch (dapr_clock e) pip tick ss = ((n, ok), ss')" by (metis surj_pair)
    obtain r st1 where sv: "daprStore_save e ss' st = (r, st1)" by fastforce
    note marks = touch_marks(1) [OF gap, where q = q and pip = pip and c = "dapr_clock e" and tick = tick]
      touch_marks(2) [OF gap, where pip = pip and c = "dapr_clock e" and tick = tick and n = n]
    show ?thesis
      using sv
    proof (cases rule: save_marks)
      case (kept err)
      with run Inr t sv have "st' = st" "\<forall>m. rt \<noteq> Inr (m, True)"
        by (auto simp: daprStore_Touch_def split: if_splits)
      then show ?thesis by simp
    next
      case saved
      then show ?thesis
        using run Inr t sv marks load_marks [OF Inr] by (cases ok) (auto simp: daprStore_Touch_def split: if_splits sum.splits)
    qed
  qed
next
  case (3 st e pip tick rr st' q)
  then have run: "daprStore_Release (FarmDapr base wid) e st pip tick = (rr, st')" by (simp add: DaprStore_def)
  show ?case
  proof (cases "daprStore_load (FarmDapr base wid) e st")
    case (Inl err)
    with run show ?thesis by (simp add: daprStore_Release_def)
  next
    case (Inr ss)
    obtain found ss' where t: "shiftSet_release pip ss = (found, ss')" by fastforce
    obtain r st1 where sv: "daprStore_save e ss' st = (r, st1)" by fastforce
    have "st' = st \<or> st' = st1" using run Inr t sv by (auto simp: daprStore_Release_def split: if_splits sum.splits prod.splits)
    moreover have "dapr_mark st1 q \<in> {dapr_mark st q, None}"
      using sv
    proof (cases rule: save_marks)
      case saved
      with release_marks [of pip ss q] t load_marks [OF Inr] show ?thesis by simp
    qed simp
    ultimately show ?thesis by auto
  qed
qed

section \<open>Wages follow time\<close>


definition first_wage :: WorkResponse where
  "first_wage = no_work\<lparr>wr_Produced := [(RESOURCE_KIND_GRAIN, 12)], wr_Wage := 24\<rparr>"

definition first_day :: peers where
  "first_day = (calm [pip_at_work 7])\<lparr>wp_Work := \<lambda>_. Inr first_wage\<rparr>"

lemma first_day_cycle:
  "snd (snd (Fleet_cycle first_day one_farm_fleet [])) =
    [Snapshot, CallWork ''farm:8090'' 1 7 5, CallBatchTransfer (payroll 1 5 [(7, 24)]),
     SubmitIntent (CreditBalances (workplaceAccount 1) [(7, 24)] 5)]"
  by (simp add: first_day_def first_wage_def run_defs calm_defs maxOffersPerRound_def getz_def word_sless_alt)


end
