(* ===== verification/Goroutines.thy ===== *)
theory Goroutines
  imports GoBase
begin

text \<open>
  Goroutines over shared state. A task is what a goroutine still has to do, cut at the points where
  another may run: each step is one locked section or one call. A task run alone is an ordinary function of
  the state; several tasks interleave step by step.
\<close>

section \<open>Tasks\<close>

datatype ('s, 'r) task = Returns 'r | Does "'s \<Rightarrow> ('s, 'r) task \<times> 's"

lemma task_induct [case_names Returns Does, induct type: task]:
  fixes t :: "('s, 'r) task"
  assumes "\<And>x. Q (Returns x)" and "\<And>g. (\<And>s t s'. g s = (t, s') \<Longrightarrow> Q t) \<Longrightarrow> Q (Does g)"
  shows "Q t"
proof (rule task.induct)
  fix g :: "'s \<Rightarrow> ('s, 'r) task \<times> 's"
  assume all: "\<And>p t. p \<in> range g \<Longrightarrow> t \<in> Basic_BNFs.fsts p \<Longrightarrow> Q t"
  have "Q t" if "g s = (t, s')" for s t s'
  proof (rule all)
    show "g s \<in> range g" by (rule rangeI)
    show "t \<in> Basic_BNFs.fsts (g s)" by (simp add: that prod_set_simps)
  qed
  then show "Q (Does g)" by (rule assms(2))
qed (rule assms(1))

primrec andthen :: "('s, 'a) task \<Rightarrow> ('a \<Rightarrow> ('s, 'b) task) \<Rightarrow> ('s, 'b) task" where
  "andthen (Returns x) k = k x"
| "andthen (Does g) k = Does (\<lambda>s. map_prod (\<lambda>t. andthen t k) id (g s))"

text \<open>One step that is a function of the state.\<close>

definition atomically :: "('s \<Rightarrow> 'r \<times> 's) \<Rightarrow> ('s, 'r) task" where
  "atomically g = Does (\<lambda>s. map_prod Returns id (g s))"

text \<open>A task with nobody else running.\<close>

primrec alone :: "('s, 'r) task \<Rightarrow> 's \<Rightarrow> 'r \<times> 's" where
  "alone (Returns x) s = (x, s)"
| "alone (Does g) s = (\<lambda>(run, s'). run s') (map_prod alone id (g s))"

lemma alone_does: "g s = (t, s') \<Longrightarrow> alone (Does g) s = alone t s'"
  by simp

lemma alone_atomically [simp]: "alone (atomically g) s = g s"
  by (simp add: atomically_def map_prod_def split: prod.split)

lemma alone_andthen [simp]: "alone (andthen t k) s = (\<lambda>(x, s'). alone (k x) s') (alone t s)"
proof (induction t arbitrary: s)
  case (Does g)
  obtain t' s' where g: "g s = (t', s')" by fastforce
  from Does [OF this, of s'] show ?case by (simp add: g)
qed simp

lemma andthen_assoc: "andthen (andthen t k) h = andthen t (\<lambda>x. andthen (k x) h)"
proof (induction t)
  case (Does g)
  have "map_prod (\<lambda>t. andthen (andthen t k) h) id (g s) = map_prod (\<lambda>t. andthen t (\<lambda>x. andthen (k x) h)) id (g s)" for s
    using Does [of s] by (cases "g s") simp
  then show ?case by (simp add: prod.map_comp comp_def fun_eq_iff id_def)
qed simp

text \<open>A loop over a list.\<close>

fun each :: "('a \<Rightarrow> ('s, unit) task) \<Rightarrow> 'a list \<Rightarrow> ('s, unit) task" where
  "each body [] = Returns ()"
| "each body (x # xs) = andthen (body x) (\<lambda>_. each body xs)"

section \<open>Interleavings\<close>

text \<open>Any goroutine may make the next step; the list is as long as the goroutines there ever are.\<close>

inductive goroutine_step :: "'s \<times> ('s, 'r) task list \<Rightarrow> 's \<times> ('s, 'r) task list \<Rightarrow> bool" where
  steps: "k < length ts \<Longrightarrow> ts ! k = Does g \<Longrightarrow> g s = (t, s') \<Longrightarrow> goroutine_step (s, ts) (s', ts[k := t])"

inductive_cases goroutine_stepE: "goroutine_step (s, ts) st"

abbreviation interleave :: "'s \<times> ('s, 'r) task list \<Rightarrow> 's \<times> ('s, 'r) task list \<Rightarrow> bool" where
  "interleave \<equiv> goroutine_step\<^sup>*\<^sup>*"

lemma interleave_trans [trans]: "interleave x y \<Longrightarrow> interleave y z \<Longrightarrow> interleave x z"
  by (rule rtranclp_trans)

text \<open>One goroutine may run on to its end while the others wait.\<close>

lemma alone_interleaves:
  "k < length ts \<Longrightarrow> ts ! k = t \<Longrightarrow> alone t s = (x, s') \<Longrightarrow> interleave (s, ts) (s', ts[k := Returns x])"
proof (induction t arbitrary: s ts)
  case (Returns y)
  then have "ts[k := Returns x] = ts" by (metis alone.simps(1) list_update_id prod.inject)
  with Returns show ?case by simp
next
  case (Does g)
  obtain t' s1 where g: "g s = (t', s1)" by fastforce
  have step: "goroutine_step (s, ts) (s1, ts[k := t'])" by (rule steps [OF Does.prems(1,2) g])
  have "alone t' s1 = (x, s')" using Does.prems(3) alone_does [of g s t' s1] g by simp
  from Does.IH [OF g _ _ this, of "ts[k := t']"] Does.prems(1)
  have "interleave (s1, ts[k := t']) (s', ts[k := Returns x])" by simp
  with step show ?case by (rule converse_rtranclp_into_rtranclp)
qed

text \<open>Or up to a point of it.\<close>

lemma alone_first:
  "k < length ts \<Longrightarrow> ts ! k = andthen t c \<Longrightarrow> alone t s = (x, s') \<Longrightarrow> interleave (s, ts) (s', ts[k := c x])"
proof (induction t arbitrary: s ts)
  case (Returns y)
  then have "ts[k := c x] = ts" by (metis alone.simps(1) andthen.simps(1) list_update_id prod.inject)
  with Returns show ?case by simp
next
  case (Does g)
  obtain t' s1 where g: "g s = (t', s1)" by fastforce
  have does: "ts ! k = Does (\<lambda>s. map_prod (\<lambda>t. andthen t c) id (g s))" using Does.prems(2) by simp
  have step: "goroutine_step (s, ts) (s1, ts[k := andthen t' c])" by (rule steps [OF Does.prems(1) does]) (simp add: g)
  have "alone t' s1 = (x, s')" using Does.prems(3) alone_does [of g s t' s1] g by simp
  from Does.IH [OF g _ _ this, of "ts[k := andthen t' c]"] Does.prems(1)
  have "interleave (s1, ts[k := andthen t' c]) (s', ts[k := c x])" by simp
  with step show ?case by (rule converse_rtranclp_into_rtranclp)
qed

text \<open>There is always an interleaving in which all come to their end.\<close>

lemma all_return: "\<exists>s' ts'. interleave (s, ts) (s', ts') \<and> (\<forall>t \<in> set ts'. \<exists>x. t = Returns x)"
proof -
  have "\<exists>s' ts'. interleave (s, ts) (s', ts') \<and> length ts' = length ts \<and> (\<forall>i < n. \<exists>x. ts' ! i = Returns x)"
    if "n \<le> length ts" for n
    using that
  proof (induction n)
    case (Suc n)
    then obtain s1 ts1 where one: "interleave (s, ts) (s1, ts1)" "length ts1 = length ts" "\<forall>i < n. \<exists>x. ts1 ! i = Returns x" by auto
    obtain x s2 where "alone (ts1 ! n) s1 = (x, s2)" by fastforce
    from alone_interleaves [OF _ refl this] one(2) Suc.prems
    have "interleave (s1, ts1) (s2, ts1[n := Returns x])" by simp
    with one(1) have "interleave (s, ts) (s2, ts1[n := Returns x])" by (rule interleave_trans)
    moreover have "\<forall>i < Suc n. \<exists>x'. ts1[n := Returns x] ! i = Returns x'"
      using one(2,3) Suc.prems by (auto simp: nth_list_update less_Suc_eq)
    ultimately show ?case using one(2) by (metis length_list_update)
  qed auto
  from this [of "length ts"] show ?thesis by (metis in_set_conv_nth order_refl)
qed

section \<open>Reasoning about interleavings\<close>

text \<open>
  A goroutine conforms to an account \<open>g\<close> of what it is entitled and bound to: whenever the state respects
  its account (\<open>rely\<close>), its next step can be entered in the account (\<open>guar\<close>) so that the rest conforms
  again; when it returns, its account meets \<open>Q\<close>.
\<close>

inductive conforms ::
  "('s \<Rightarrow> 'g \<Rightarrow> bool) \<Rightarrow> ('s \<Rightarrow> 'g \<Rightarrow> 's \<Rightarrow> 'g \<Rightarrow> bool) \<Rightarrow> ('r \<Rightarrow> 'g \<Rightarrow> bool) \<Rightarrow> 'g \<Rightarrow> ('s, 'r) task \<Rightarrow> bool"
for rely guar Q where
  returns: "Q x g \<Longrightarrow> conforms rely guar Q g (Returns x)"
| goes_on: "(\<And>s t s'. rely s g \<Longrightarrow> go s = (t, s') \<Longrightarrow> \<exists>h. conforms rely guar Q h t \<and> guar s g s' h) \<Longrightarrow>
    conforms rely guar Q g (Does go)"

inductive_simps conforms_simps [simp]:
  "conforms rely guar Q g (Returns x)"

inductive_cases conforms_DoesE: "conforms rely guar Q g (Does go)"

lemma conforms_andthen:
  assumes "conforms rely guar M g t" and "\<And>x h. M x h \<Longrightarrow> conforms rely guar Q h (k x)"
  shows "conforms rely guar Q g (andthen t k)"
  using assms(1)
proof induction
  case (returns x g)
  then show ?case using assms(2) by simp
next
  case (goes_on g go)
  show ?case
  proof (simp, rule conforms.goes_on)
    fix s t s'
    assume r: "rely s g" and n: "map_prod (\<lambda>t. andthen t k) id (go s) = (t, s')"
    then obtain t1 where t1: "go s = (t1, s')" "t = andthen t1 k" by (cases "go s") auto
    from goes_on [OF r t1(1)] t1(2)
    show "\<exists>h. conforms rely guar Q h t \<and> guar s g s' h" by blast
  qed
qed

lemma conforms_atomically:
  fixes f :: "'s \<Rightarrow> 'r \<times> 's"
  assumes "\<And>s x s'. rely s g \<Longrightarrow> f s = (x, s') \<Longrightarrow> \<exists>h. Q x h \<and> guar s g s' h"
  shows "conforms rely guar Q g (atomically f)"
  unfolding atomically_def
proof (rule goes_on)
  fix s s' and t :: "('s, 'r) task"
  assume r: "rely s g" and n: "map_prod Returns id (f s) = (t, s')"
  then obtain x where x: "f s = (x, s')" "t = Returns x" by (cases "f s") auto
  from assms [OF r x(1)] x(2) show "\<exists>h. conforms rely guar Q h t \<and> guar s g s' h" by auto
qed

lemma conforms_mono: "conforms rely guar M g t \<Longrightarrow> (\<And>x h. M x h \<Longrightarrow> Q x h) \<Longrightarrow> conforms rely guar Q g t"
proof (induction rule: conforms.induct)
  case (goes_on g go)
  then show ?case by (intro conforms.goes_on) blast
qed simp

lemma conforms_each:
  assumes "\<And>x xs g. I (x # xs) g \<Longrightarrow> conforms rely guar (\<lambda>_. I xs) g (body x)"
  shows "I xs g \<Longrightarrow> conforms rely guar (\<lambda>_. I []) g (each body xs)"
proof (induction xs arbitrary: g)
  case (Cons x xs)
  show ?case unfolding each.simps by (rule conforms_andthen [OF assms [OF Cons.prems] Cons.IH])
qed simp

text \<open>
  An audit: what holds of the state and of all the accounts. When every account can rely on it and it
  survives every entry, it holds in every interleaving.
\<close>

locale audit =
  fixes rely :: "'s \<Rightarrow> 'g \<Rightarrow> bool" and guar :: "'s \<Rightarrow> 'g \<Rightarrow> 's \<Rightarrow> 'g \<Rightarrow> bool"
    and whole :: "'s \<Rightarrow> 'g list \<Rightarrow> bool"
  assumes relies: "whole s gs \<Longrightarrow> k < length gs \<Longrightarrow> rely s (gs ! k)"
    and entered: "whole s gs \<Longrightarrow> k < length gs \<Longrightarrow> guar s (gs ! k) s' h \<Longrightarrow> whole s' (gs[k := h])"
begin

lemma interleaved_whole:
  assumes "interleave (s, ts) (s', ts')" and "whole s gs" and "list_all2 (conforms rely guar Q) gs ts"
  shows "\<exists>gs'. whole s' gs' \<and> list_all2 (conforms rely guar Q) gs' ts'"
  using assms
proof (induction arbitrary: gs rule: rtranclp_induct2)
  case refl
  then show ?case by blast
next
  case (step s1 ts1 s2 ts2)
  from step.IH [OF step.prems] obtain hs where hs: "whole s1 hs" "list_all2 (conforms rely guar Q) hs ts1" by blast
  from step.hyps(2) obtain k g t where k: "k < length ts1" "ts1 ! k = Does g" "g s1 = (t, s2)" "ts2 = ts1[k := t]"
    by (auto elim: goroutine_stepE)
  have kl: "k < length hs" "conforms rely guar Q (hs ! k) (Does g)"
    using hs(2) k(1,2) by (auto dest: list_all2_lengthD list_all2_nthD2)
  from kl(2) relies [OF hs(1) kl(1)] k(3) obtain h where "conforms rely guar Q h t" "guar s1 (hs ! k) s2 h"
    by (metis conforms_DoesE)
  with entered [OF hs(1) kl(1)] hs(2) k(4) show ?case by (blast intro: list_all2_update_cong)
qed

end

end
