(* ===== verification/GatewayThreads.thy ===== *)
theory GatewayThreads
  imports Goroutines EconomyProps
begin

text \<open>
  The gateway's goroutines over the shared fleet: the methods of \<^verbatim>\<open>driver.go\<close>, \<^verbatim>\<open>economy.go\<close> and
  \<^verbatim>\<open>payroll.go\<close> again, cut where \<^verbatim>\<open>mu\<close> is unlocked or a call is out. The local variables of a goroutine are the
  arguments of its task. A goroutine that runs alone does what the functions of \<open>Driver\<close> and
  \<open>Fleet\<close> say.
\<close>

section \<open>Steps\<close>

type_synonym gateway = "Fleet \<times> call_log"
type_synonym 'r gateway_task = "(gateway, 'r) task"

definition reads :: "(Fleet \<Rightarrow> 'r) \<Rightarrow> 'r gateway_task" where
  "reads g = atomically (\<lambda>(f, l). (g f, (f, l)))"

definition calls :: "(call_log \<Rightarrow> 'r) \<Rightarrow> call \<Rightarrow> 'r gateway_task" where
  "calls answer c = atomically (\<lambda>(f, l). (answer (l @ [c]), (f, l @ [c])))"

text \<open>A section under the lock of the driver \<open>k\<close>.\<close>

definition locked :: "nat \<Rightarrow> (Driver \<Rightarrow> call_log \<Rightarrow> 'r \<times> Driver \<times> call_log) \<Rightarrow> 'r gateway_task" where
  "locked k section = atomically (\<lambda>(f, l). let (x, d, l') = section (f_drivers f ! k) l in (x, (set_driver k d f, l')))"

text \<open>\<^verbatim>\<open>d.ID()\<close>; the address of a driver never changes.\<close>

definition Driver_ID :: "nat \<Rightarrow> u64 gateway_task" where
  "Driver_ID k = reads (\<lambda>f. d_id (f_drivers f ! k))"

definition Driver_addr :: "nat \<Rightarrow> string gateway_task" where
  "Driver_addr k = reads (\<lambda>f. d_addr (f_drivers f ! k))"

definition Driver_Kind :: "nat \<Rightarrow> string gateway_task" where
  "Driver_Kind k = reads (\<lambda>f. d_kind (f_drivers f ! k))"

lemma alone_steps [simp]:
  "alone (reads g) (f, l) = (g f, (f, l))"
  "alone (calls answer c) (f, l) = (answer (l @ [c]), (f, l @ [c]))"
  "alone (locked k sec) (f, l) = (let (x, d, l') = sec (f_drivers f ! k) l in (x, (set_driver k d f, l')))"
  "alone (Driver_ID k) (f, l) = (d_id (f_drivers f ! k), (f, l))"
  "alone (Driver_addr k) (f, l) = (d_addr (f_drivers f ! k), (f, l))"
  "alone (Driver_Kind k) (f, l) = (d_kind (f_drivers f ! k), (f, l))"
  by (simp_all add: reads_def calls_def locked_def Driver_ID_def Driver_addr_def Driver_Kind_def)

section \<open>The methods of a driver\<close>

definition hired_section :: "peers \<Rightarrow> u64 \<Rightarrow> Driver \<Rightarrow> call_log \<Rightarrow> unit \<times> Driver \<times> call_log" where
  "hired_section P pip d l =
     (let (now, l1) = ask (clock_reads P) ReadClock l in
      ((), d\<lparr>d_employed := finsert pip (d_employed d), d_hiredAt := fmupd pip now (d_hiredAt d),
             d_pending := fmdrop pip (d_pending d)\<rparr>, l1))"

definition OnHired_task :: "peers \<Rightarrow> nat \<Rightarrow> u64 \<Rightarrow> unit gateway_task" where
  "OnHired_task P k pip =
     andthen (Driver_ID k) (\<lambda>w.
     andthen (calls (sim_SubmitIntent P) (SubmitIntent (Hire pip w))) (\<lambda>answer.
       case answer of Inl err \<Rightarrow> Returns () | Inr _ \<Rightarrow> locked k (hired_section P pip)))"

text \<open>\<^verbatim>\<open>offer\<close>: look at the mark and set it; publish; take the mark away when that failed.\<close>

definition mark_section :: "peers \<Rightarrow> u64 \<Rightarrow> Driver \<Rightarrow> call_log \<Rightarrow> bool \<times> Driver \<times> call_log" where
  "mark_section P pip d l =
     (let (waiting, l1) =
            (case fmlookup (d_pending d) pip of
               None \<Rightarrow> (False, l)
             | Some at \<Rightarrow> (let (now, l') = ask (clock_reads P) ReadClock l in (time_sub now at < offerPatience, l')))
      in if waiting then (False, d, l1)
         else (let (now, l2) = ask (clock_reads P) ReadClock l1 in (True, d\<lparr>d_pending := fmupd pip now (d_pending d)\<rparr>, l2)))"

definition unmark_section :: "u64 \<Rightarrow> Driver \<Rightarrow> call_log \<Rightarrow> unit \<times> Driver \<times> call_log" where
  "unmark_section pip d l = ((), d\<lparr>d_pending := fmdrop pip (d_pending d)\<rparr>, l)"

definition Offer_task :: "peers \<Rightarrow> string \<Rightarrow> u64 \<Rightarrow> u64 \<Rightarrow> go_error option gateway_task" where
  "Offer_task P kind pip tick =
     atomically (\<lambda>(f, l). let (err, l') = Publisher_Offer P kind pip tick [] l in (err, (f, l')))"

definition offer_task :: "peers \<Rightarrow> nat \<Rightarrow> u64 \<Rightarrow> u64 \<Rightarrow> bool gateway_task" where
  "offer_task P k pip tick =
     andthen (Driver_Kind k) (\<lambda>kind.
       if kind = [] then Returns False
       else andthen (locked k (mark_section P pip)) (\<lambda>marked.
         if \<not> marked then Returns False
         else andthen (Offer_task P kind pip tick) (\<lambda>err.
           case err of
             Some _ \<Rightarrow> andthen (locked k (unmark_section pip)) (\<lambda>_. Returns False)
           | None \<Rightarrow> Returns True)))"

definition forget_section :: "u64 \<Rightarrow> Driver \<Rightarrow> call_log \<Rightarrow> unit \<times> Driver \<times> call_log" where
  "forget_section pip d l = ((), d\<lparr>d_employed := d_employed d |-| {|pip|}, d_pending := fmdrop pip (d_pending d)\<rparr>, l)"

definition endShift_task :: "peers \<Rightarrow> nat \<Rightarrow> u64 \<Rightarrow> u64 \<Rightarrow> string \<Rightarrow> unit gateway_task" where
  "endShift_task P k pip tick reason =
     andthen (Driver_addr k) (\<lambda>addr. andthen (Driver_ID k) (\<lambda>w.
     andthen (calls (wp_EndShift P) (CallEndShift addr w pip tick reason)) (\<lambda>_.
     andthen (calls (sim_SubmitIntent P) (SubmitIntent (EndEmployment pip))) (\<lambda>_.
     locked k (forget_section pip)))))"

definition work_task :: "peers \<Rightarrow> nat \<Rightarrow> u64 \<Rightarrow> u64 \<Rightarrow> bool \<Rightarrow> (bool \<times> i64) gateway_task" where
  "work_task P k pip tick inside =
     andthen (Driver_addr k) (\<lambda>addr. andthen (Driver_ID k) (\<lambda>w.
     andthen (calls (wp_Work P) (CallWork addr w pip tick)) (\<lambda>answer.
       case answer of
         Inl err \<Rightarrow> Returns (False, 0)
       | Inr res \<Rightarrow>
         if wr_ShiftShouldEnd res then
           andthen (endShift_task P k pip tick ''workplace ended the shift'') (\<lambda>_. Returns (False, 0))
         else if \<not> inside then Returns (True, 0)
         else if wr_NeedDeltas res \<noteq> [] then
           andthen (calls (sim_SubmitIntent P) (SubmitIntent (ApplyNeeds pip (wr_NeedDeltas res)))) (\<lambda>told.
             case told of Inl err \<Rightarrow> Returns (False, 0) | Inr _ \<Rightarrow> Returns (True, wr_Wage res))
         else Returns (True, wr_Wage res))))"

text \<open>\<^verbatim>\<open>syncEmployment\<close> is one section.\<close>

definition sync_task :: "peers \<Rightarrow> nat \<Rightarrow> u64 fset \<Rightarrow> u64 list gateway_task" where
  "sync_task P k employed = locked k (\<lambda>d l. syncEmployment P d employed l)"

text \<open>Run alone, each is the method of \<open>Driver\<close> on the driver of its index.\<close>

definition on_driver :: "nat \<Rightarrow> (Driver \<Rightarrow> call_log \<Rightarrow> 'r \<times> Driver \<times> call_log) \<Rightarrow> gateway \<Rightarrow> 'r \<times> gateway" where
  "on_driver k m st = (let (f, l) = st; (x, d, l') = m (f_drivers f ! k) l in (x, (set_driver k d f, l')))"

lemma set_driver_simps [simp]:
  "set_driver k (f_drivers f ! k) f = f" "set_driver k e (set_driver k d f) = set_driver k e f"
  "k < length (f_drivers f) \<Longrightarrow> f_drivers (set_driver k d f) ! k = d"
  "length (f_drivers (set_driver k d f)) = length (f_drivers f)"
  by (simp_all add: set_driver_def)

lemma alone_OnHired:
  "k < length (f_drivers f) \<Longrightarrow>
    alone (OnHired_task P k pip) (f, l) = on_driver k (\<lambda>d l. let (d', l') = Driver_OnHired P d pip l in ((), d', l')) (f, l)"
  by (auto simp: OnHired_task_def on_driver_def Driver_OnHired_def hired_section_def ask_def split: sum.split)

lemma alone_offer:
  assumes "k < length (f_drivers f)"
  shows "alone (offer_task P k pip tick) (f, l) = on_driver k (\<lambda>d l. Driver_offer P d pip tick l) (f, l)"
proof (cases "d_kind (f_drivers f ! k) = []")
  case True
  then show ?thesis by (simp add: offer_task_def on_driver_def Driver_offer_def)
next
  case False
  obtain marked d l1 where m: "mark_section P pip (f_drivers f ! k) l = (marked, d, l1)" by (metis prod_cases3)
  show ?thesis
  proof (cases marked)
    case True
    have d: "d_pending d = fmupd pip (clock_reads P l1) (d_pending (f_drivers f ! k))"
      "d = (f_drivers f ! k)\<lparr>d_pending := fmupd pip (clock_reads P l1) (d_pending (f_drivers f ! k))\<rparr>"
      using m True by (auto simp: mark_section_def ask_def split: option.splits if_splits)
    obtain err l2 where pub: "Publisher_Offer P (d_kind (f_drivers f ! k)) pip tick [] l1 = (err, l2)" by fastforce
    have "Driver_offer P (f_drivers f ! k) pip tick l =
        (case err of Some _ \<Rightarrow> (False, d\<lparr>d_pending := fmdrop pip (d_pending d)\<rparr>, l2) | None \<Rightarrow> (True, d, l2))"
      using m True False pub by (auto simp: mark_section_def Driver_offer_def ask_def split: option.splits if_splits)
    then show ?thesis
      using False m True pub assms
      by (cases err) (simp_all add: offer_task_def on_driver_def Offer_task_def unmark_section_def)
  next
    case stays: False
    then have "Driver_offer P (f_drivers f ! k) pip tick l = (False, d, l1)"
      using m False by (auto simp: mark_section_def Driver_offer_def ask_def split: option.splits if_splits)
    then show ?thesis using False m stays by (simp add: offer_task_def on_driver_def)
  qed
qed

lemma alone_endShift:
  "alone (endShift_task P k pip tick reason) (f, l) =
    on_driver k (\<lambda>d l. let (d', l') = Driver_endShift P d pip tick reason l in ((), d', l')) (f, l)"
  by (simp add: endShift_task_def on_driver_def Driver_endShift_def forget_section_def ask_def)

lemma alone_work:
  "alone (work_task P k pip tick inside) (f, l) = on_driver k (\<lambda>d l. Driver_work P d pip tick inside l) (f, l)"
  by (simp add: work_task_def on_driver_def Driver_work_def alone_endShift ask_def Let_def split: sum.split prod.split)

lemma alone_sync: "alone (sync_task P k employed) (f, l) = on_driver k (\<lambda>d l. syncEmployment P d employed l) (f, l)"
  by (simp add: sync_task_def on_driver_def)

section \<open>The cycle\<close>

text \<open>The scan for the drivers that have introduced themselves: \<^verbatim>\<open>live\<close> with the id each had.\<close>

fun scan_task :: "nat list \<Rightarrow> (nat \<times> u64) list gateway_task" where
  "scan_task [] = Returns []"
| "scan_task (k # ks) =
     andthen (Driver_ID k) (\<lambda>w. andthen (scan_task ks) (\<lambda>seen. Returns (if w = 0 then seen else (k, w) # seen)))"

text \<open>\<^verbatim>\<open>employedBy[d.ID()]\<close>: of the ids in the scan; another id, should a building change it, has the nil map.\<close>

definition let_go_task :: "peers \<Rightarrow> Pip list \<Rightarrow> u64 \<Rightarrow> (nat \<times> u64) list \<Rightarrow> nat \<Rightarrow> unit gateway_task" where
  "let_go_task P pips tick seen k =
     andthen (Driver_ID k) (\<lambda>w.
     andthen (sync_task P k (if w \<in> snd ` set seen then employed_by pips w else {||})) (\<lambda>gone.
       each (\<lambda>pip. endShift_task P k pip tick ''no longer employed here'') gone))"

definition rotate_task :: "nat gateway_task" where
  "rotate_task = atomically (\<lambda>(f, l). (f_next f, (f\<lparr>f_next := Suc (f_next f)\<rparr>, l)))"

fun left_task :: "nat list \<Rightarrow> (u64, int) fmap \<Rightarrow> (u64, int) fmap gateway_task" where
  "left_task [] left = Returns left"
| "left_task (k # ks) left = andthen (Driver_ID k) (\<lambda>w. left_task ks (fmupd w maxOffersPerRound left))"

fun offer_pip_task :: "peers \<Rightarrow> u64 \<Rightarrow> u64 \<Rightarrow> nat list \<Rightarrow> (u64, int) fmap \<Rightarrow> (u64, int) fmap gateway_task" where
  "offer_pip_task P pip tick [] left = Returns left"
| "offer_pip_task P pip tick (k # ks) left =
     andthen (Driver_ID k) (\<lambda>w.
       if getz left w \<le> 0 then offer_pip_task P pip tick ks left
       else andthen (offer_task P k pip tick) (\<lambda>sent.
         if sent then andthen (Driver_ID k) (\<lambda>w'. Returns (subz left w' 1))
         else offer_pip_task P pip tick ks left))"

type_synonym wages = "(u64, (u64, i64) fmap) fmap"

definition work_pip_task :: "peers \<Rightarrow> u64 \<Rightarrow> Pip \<Rightarrow> nat \<Rightarrow> wages \<Rightarrow> wages gateway_task" where
  "work_pip_task P tick p k owed =
     andthen (Driver_ID k) (\<lambda>w.
       let inside = (GetInsideWorkplaceId p = w) in
       andthen (work_task P k (pip_id p) tick inside) (\<lambda>(ok, wage).
         if ok \<and> inside \<and> 0 <s wage then
           andthen (Driver_ID k) (\<lambda>w'. Returns (fmupd w'
             (fmupd (pip_id p) wage (case fmlookup owed w' of None \<Rightarrow> fmempty | Some c \<Rightarrow> c)) owed))
         else Returns owed))"

fun pips_task ::
  "peers \<Rightarrow> u64 \<Rightarrow> (u64, nat) fmap \<Rightarrow> nat list \<Rightarrow> Pip list \<Rightarrow> (u64, int) fmap \<Rightarrow> wages \<Rightarrow> wages gateway_task"
where
  "pips_task P tick byID ring [] left owed = Returns owed"
| "pips_task P tick byID ring (p # ps) left owed =
     (case fmlookup byID (GetEmployerWorkplaceId p) of
        Some k \<Rightarrow> andthen (work_pip_task P tick p k owed) (pips_task P tick byID ring ps left)
      | None \<Rightarrow> andthen (offer_pip_task P (pip_id p) tick ring left) (\<lambda>left'. pips_task P tick byID ring ps left' owed))"

text \<open>The order in which a map is walked, from here.\<close>

definition order_task :: "peers \<Rightarrow> u64 fset \<Rightarrow> u64 list gateway_task" where
  "order_task P ks = atomically (\<lambda>(f, l). (map_order P l ks, (f, l)))"

definition payWages_task :: "peers \<Rightarrow> u64 \<Rightarrow> u64 \<Rightarrow> (u64, i64) fmap \<Rightarrow> unit gateway_task" where
  "payWages_task P w tick credits =
     andthen (reads f_bank) (\<lambda>bank.
       if \<not> bank \<or> credits = fmempty then Returns ()
       else andthen (order_task P (fmdom credits)) (\<lambda>order.
         let pays = pay_list order credits in
         if pays = [] then Returns ()
         else andthen (calls (bank_BatchTransfer P) (CallBatchTransfer (payroll w tick pays))) (\<lambda>answer.
           case answer of
             Inl err \<Rightarrow> Returns ()
           | Inr r \<Rightarrow>
             if \<not> OK r then Returns ()
             else andthen (calls (sim_SubmitIntent P) (SubmitIntent (CreditBalances (workplaceAccount w) pays tick)))
               (\<lambda>_. Returns ()))))"

definition cycle_task :: "peers \<Rightarrow> unit response gateway_task" where
  "cycle_task P =
     andthen (calls (sim_Snapshot P) Snapshot) (\<lambda>answer.
       case answer of
         Inl err \<Rightarrow> Returns (Inl err)
       | Inr snap \<Rightarrow>
         let tick = snap_tick snap; pips = snap_pips snap in
         andthen (reads (\<lambda>f. length (f_drivers f))) (\<lambda>n.
         andthen (scan_task [0..<n]) (\<lambda>seen.
           if seen = [] then Returns (Inr ())
           else
             let live = map fst seen; byID = fold (\<lambda>(k, w) m. fmupd w k m) seen fmempty in
             andthen (each (let_go_task P pips tick seen) live) (\<lambda>_.
             andthen rotate_task (\<lambda>start.
             andthen (left_task live fmempty) (\<lambda>left.
             andthen (pips_task P tick byID (rotation start live) pips left fmempty) (\<lambda>owed.
             andthen (order_task P (fmdom owed)) (\<lambda>ws.
             andthen (each (\<lambda>w. payWages_task P w tick (case fmlookup owed w of None \<Rightarrow> fmempty | Some c \<Rightarrow> c)) ws) (\<lambda>_.
               Returns (Inr ())))))))))) "

text \<open>\<^verbatim>\<open>OnHired\<close> of the fleet: the drivers are asked for their id one after the other.\<close>

fun Fleet_OnHired_task :: "peers \<Rightarrow> u64 \<Rightarrow> u64 \<Rightarrow> nat list \<Rightarrow> unit gateway_task" where
  "Fleet_OnHired_task P pip w [] = Returns ()"
| "Fleet_OnHired_task P pip w (k # ks) =
     andthen (Driver_ID k) (\<lambda>w'. if w' = w then OnHired_task P k pip else Fleet_OnHired_task P pip w ks)"

section \<open>Endowment\<close>

definition endow_task :: "peers \<Rightarrow> i64 \<Rightarrow> u64 \<Rightarrow> nat \<Rightarrow> unit gateway_task" where
  "endow_task P capital tick k =
     andthen (Driver_ID k) (\<lambda>w.
       if w = 0 then Returns ()
       else andthen (calls (bank_GetBalance P) (CallGetBalance (workplaceAccount w))) (\<lambda>balance.
         case balance of
           Inl err \<Rightarrow> Returns ()
         | Inr held \<Rightarrow>
           let amount = endowmentFor held capital in
           if amount = 0 then Returns ()
           else andthen (calls (bank_Transfer P) (CallTransfer (issuance w tick amount))) (\<lambda>answer.
             case answer of
               Inl err \<Rightarrow> Returns ()
             | Inr res \<Rightarrow>
               if \<not> OK res then Returns ()
               else andthen (calls (sim_SubmitIntent P) (SubmitIntent
                   (TransferMoney ''treasury'' (workplaceAccount w) amount 0 TRANSFER_KIND_ISSUANCE tick)))
                 (\<lambda>_. Returns ()))))"

definition Endow_task :: "peers \<Rightarrow> i64 \<Rightarrow> unit gateway_task" where
  "Endow_task P capital =
     andthen (reads (\<lambda>f. (f_bank f, length (f_drivers f)))) (\<lambda>(bank, n).
       if \<not> bank \<or> capital \<le>s 0 then Returns ()
       else andthen (calls (sim_Snapshot P) Snapshot) (\<lambda>answer.
         case answer of
           Inl err \<Rightarrow> Returns ()
         | Inr snap \<Rightarrow> each (endow_task P capital (snap_tick snap)) [0..<n]))"

section \<open>The goroutines the gateway starts\<close>

fun Run_task :: "peers \<Rightarrow> nat \<Rightarrow> unit gateway_task" where
  "Run_task P 0 = Returns ()"
| "Run_task P (Suc beats) = andthen (cycle_task P) (\<lambda>_. Run_task P beats)"

fun KeepEndowed_task :: "peers \<Rightarrow> i64 \<Rightarrow> nat \<Rightarrow> unit gateway_task" where
  "KeepEndowed_task P capital 0 = Returns ()"
| "KeepEndowed_task P capital (Suc passes) = andthen (Endow_task P capital) (\<lambda>_. KeepEndowed_task P capital passes)"

definition introduce_section :: "DescribeResponse \<Rightarrow> Driver \<Rightarrow> call_log \<Rightarrow> unit \<times> Driver \<times> call_log" where
  "introduce_section desc d l = ((), d\<lparr>d_id := dr_WorkplaceId desc, d_kind := dr_Kind desc\<rparr>, l)"

definition Register_task :: "peers \<Rightarrow> nat \<Rightarrow> unit response gateway_task" where
  "Register_task P k =
     andthen (Driver_addr k) (\<lambda>addr. andthen (Driver_ID k) (\<lambda>w.
     andthen (calls (wp_Describe P) (CallDescribe addr w)) (\<lambda>answer.
       case answer of
         Inl err \<Rightarrow> Returns (Inl err)
       | Inr desc \<Rightarrow>
         andthen (reads (\<lambda>f. fmlookup (d_positions (f_drivers f ! k)) (dr_WorkplaceId desc))) (\<lambda>found.
           case found of
             None \<Rightarrow> Returns (Inl (CodeOther, ''no configured position for workplace '' @ FormatUint (dr_WorkplaceId desc)))
           | Some position \<Rightarrow>
             andthen (calls (sim_SubmitIntent P) (SubmitIntent (RegisterWorkplace (dr_WorkplaceId desc) (dr_Kind desc)
                 position (ucast (dr_MaxWorkers desc)) (offers (dr_Sells desc))))) (\<lambda>told.
               case told of
                 Inl err \<Rightarrow> Returns (Inl err)
               | Inr _ \<Rightarrow> andthen (locked k (introduce_section desc)) (\<lambda>_. Returns (Inr ())))))))"

text \<open>\<^verbatim>\<open>KeepRegistered\<close>; its count of failures only thins the log lines.\<close>

fun KeepRegistered_task :: "peers \<Rightarrow> nat \<Rightarrow> nat \<Rightarrow> unit gateway_task" where
  "KeepRegistered_task P k 0 = Returns ()"
| "KeepRegistered_task P k (Suc rounds) = andthen (Register_task P k) (\<lambda>_. KeepRegistered_task P k rounds)"

definition Fleet_KeepRegistered_tasks :: "peers \<Rightarrow> nat \<Rightarrow> nat \<Rightarrow> unit gateway_task list" where
  "Fleet_KeepRegistered_tasks P rounds n = map (\<lambda>k. KeepRegistered_task P k rounds) [0..<n]"

text \<open>The consumer of outcomes hands each hire to the fleet, one after the other.\<close>

definition hires_task :: "peers \<Rightarrow> nat \<Rightarrow> (u64 \<times> u64) list \<Rightarrow> unit gateway_task" where
  "hires_task P n hires = each (\<lambda>(pip, w). Fleet_OnHired_task P pip w [0..<n]) hires"

text \<open>What \<^verbatim>\<open>main\<close> starts over a fleet of \<open>n\<close> drivers.\<close>

definition gateway_goroutines :: "peers \<Rightarrow> i64 \<Rightarrow> nat \<Rightarrow> nat \<Rightarrow> nat \<Rightarrow> (u64 \<times> u64) list \<Rightarrow> nat \<Rightarrow> unit gateway_task list" where
  "gateway_goroutines P capital beats passes rounds hires n =
     Fleet_KeepRegistered_tasks P rounds n
     @ [KeepEndowed_task P capital passes, Run_task P beats, hires_task P n hires]"

section \<open>A goroutine alone\<close>

lemma alone_scan:
  "alone (scan_task ks) (f, l) = (map (\<lambda>k. (k, d_id (f_drivers f ! k))) (filter (\<lambda>k. d_id (f_drivers f ! k) \<noteq> 0) ks), (f, l))"
  by (induction ks) simp_all

lemma alone_left:
  "alone (left_task ks left) (f, l) = (fold (\<lambda>k m. fmupd (d_id (f_drivers f ! k)) maxOffersPerRound m) ks left, (f, l))"
  by (induction ks arbitrary: left) simp_all

lemma alone_end_shifts:
  "alone (each (\<lambda>pip. endShift_task P k pip tick ''no longer employed here'') ps) (f, l) = ((), end_shifts P k tick ps (f, l))"
  by (induction ps arbitrary: f l) (simp_all add: alone_endShift on_driver_def split: prod.split)

lemma alone_let_go:
  assumes "same_fleet f0 f" and "\<forall>k \<in> set ks. k < length (f_drivers f0) \<and> d_id (f_drivers f0 ! k) \<in> snd ` set seen"
  shows "alone (each (let_go_task P pips tick seen) ks) (f, l) = ((), sync_all P pips tick ks (f, l))"
  using assms
proof (induction ks arbitrary: f l)
  case (Cons k ks)
  have id: "d_id (f_drivers f ! k) = d_id (f_drivers f0 ! k)"
    using same_fleet_nth [OF Cons.prems(1)] Cons.prems(2) by (simp add: same_building_def)
  obtain gone d l1 where s: "syncEmployment P (f_drivers f ! k) (employed_by pips (d_id (f_drivers f ! k))) l = (gone, d, l1)"
    by (metis prod_cases3)
  obtain f2 l2 where e: "end_shifts P k tick gone (set_driver k d f, l1) = (f2, l2)" by fastforce
  have "same_fleet f0 (set_driver k d f)" by (rule same_fleet_set [OF Cons.prems(1) syncEmployment_says(2) [OF s]])
  from end_shifts_says [OF e this] have "same_fleet f0 f2" by simp
  from Cons.IH [OF this] Cons.prems(2)
  have "alone (each (let_go_task P pips tick seen) ks) (f2, l2) = ((), sync_all P pips tick ks (f2, l2))" by simp
  moreover have "alone (let_go_task P pips tick seen k) (f, l) = ((), (f2, l2))"
    using Cons.prems(2) by (simp add: let_go_task_def id alone_sync on_driver_def s [unfolded id] alone_end_shifts e)
  ultimately show ?case using s e by simp
qed simp

lemma alone_offer_pip:
  assumes "\<forall>k \<in> set ks. k < length (f_drivers (r_fleet r))"
  shows "alone (offer_pip_task P pip tick ks (r_left r)) (r_fleet r, r_log r) =
    (let r' = offer_pip P pip tick ks r in (r_left r', (r_fleet r', r_log r')))"
  using assms
proof (induction ks arbitrary: r)
  case (Cons k ks)
  obtain sent d l where o: "Driver_offer P (f_drivers (r_fleet r) ! k) pip tick (r_log r) = (sent, d, l)" by (metis prod_cases3)
  have id: "d_id d = d_id (f_drivers (r_fleet r) ! k)"
    using o by (cases rule: offer_says) (simp_all add: same_building_def)
  let ?r1 = "r\<lparr>r_fleet := set_driver k d (r_fleet r), r_log := l\<rparr>"
  from Cons.IH [of r] Cons.IH [of ?r1] Cons.prems
  show ?case by (cases sent) (simp_all add: alone_offer on_driver_def o id)
qed simp

lemma alone_work_pip:
  assumes "k < length (f_drivers (r_fleet r))"
  shows "alone (work_pip_task P tick p k (r_credits r)) (r_fleet r, r_log r) =
    (let r' = work_pip P tick p k r in (r_credits r', (r_fleet r', r_log r')))"
proof -
  let ?inside = "GetInsideWorkplaceId p = d_id (f_drivers (r_fleet r) ! k)"
  obtain ok wage d l where w: "Driver_work P (f_drivers (r_fleet r) ! k) (pip_id p) tick ?inside (r_log r) = ((ok, wage), d, l)"
    by (metis prod.exhaust)
  have "d_id d = d_id (f_drivers (r_fleet r) ! k)" using work_says(1) [OF w] by (simp add: same_building_def)
  then show ?thesis using assms by (simp add: work_pip_task_def work_pip_def alone_work on_driver_def w Let_def)
qed

lemma alone_pips:
  assumes "same_fleet f (r_fleet r)" and ring: "set ring \<subseteq> set (live_drivers f)"
  shows "alone (pips_task P tick (by_id f) ring ps (r_left r) (r_credits r)) (r_fleet r, r_log r) =
    (let r' = cycle_pips P tick (by_id f) ring ps r in (r_credits r', (r_fleet r', r_log r')))"
  using assms(1)
proof (induction ps arbitrary: r)
  case (Cons p ps)
  have ks: "\<forall>k \<in> set ring. k < length (f_drivers f)" using ring live_drivers_lt by blast
  note len = same_fleet_length [OF Cons.prems]
  show ?case
  proof (cases "fmlookup (by_id f) (GetEmployerWorkplaceId p)")
    case None
    note law = offer_pip_law [OF Cons.prems ks, of P "pip_id p" tick]
    from None Cons.IH [of "offer_pip P (pip_id p) tick ring r"] law
    show ?thesis using ks len by (simp add: alone_offer_pip Let_def)
  next
    case (Some k)
    then have k: "k < length (f_drivers f)" "d_id (f_drivers f ! k) \<noteq> 0" using by_id_lookup live_drivers_lt by blast+
    note law = work_pip_law(1,2) [OF Cons.prems k, of P tick p]
    from Some Cons.IH [of "work_pip P tick p k r"] law k(1) len show ?thesis by (simp add: alone_work_pip Let_def)
  qed
qed simp

lemma alone_payWages:
  "alone (payWages_task P w tick c) (f, l) = ((), (f, Fleet_payWages P f w tick c l))"
  by (simp add: payWages_task_def Fleet_payWages_def order_task_def payroll_def ask_def Let_def split: sum.split)

lemma alone_pay_all:
  "alone (each (\<lambda>w. payWages_task P w tick (case fmlookup owed w of None \<Rightarrow> fmempty | Some c \<Rightarrow> c)) ws) (f, l) =
    ((), (f, pay_all P f ws tick owed l))"
  by (induction ws arbitrary: l) (simp_all add: alone_payWages)

lemma alone_endow:
  "alone (endow_task P capital tick k) (f, l) = ((), (f, endow_one P capital tick (f_drivers f ! k) l))"
  by (simp add: endow_task_def endow_one_def issuance_def ask_def Let_def split: sum.split)

lemma alone_endow_all:
  "alone (each (endow_task P capital tick) ks) (f, l) = ((), (f, fold (\<lambda>k. endow_one P capital tick (f_drivers f ! k)) ks l))"
  by (induction ks arbitrary: l) (simp_all add: alone_endow)

lemma alone_find:
  "alone (Fleet_OnHired_task P pip w ks) (f, l) = (case List.find (\<lambda>k. d_id (f_drivers f ! k) = w) ks of
     None \<Rightarrow> ((), (f, l)) | Some k \<Rightarrow> alone (OnHired_task P k pip) (f, l))"
  by (induction ks) auto

lemma alone_cycle: "alone (cycle_task P) (f, l) = (let (r, f', l') = Fleet_cycle P f l in (r, (f', l')))"
proof (cases "sim_Snapshot P (l @ [Snapshot])")
  case (Inl err)
  then show ?thesis by (simp add: cycle_task_def Fleet_cycle_def ask_def)
next
  case (Inr snap)
  let ?seen = "map (\<lambda>k. (k, d_id (f_drivers f ! k))) (live_drivers f)"
  have scan: "alone (scan_task [0..<length (f_drivers f)]) st = (?seen, st)" if "st = (f, l @ [Snapshot])" for st
    unfolding that by (simp add: alone_scan live_drivers_def)
  have live: "map fst ?seen = live_drivers f" by (simp add: comp_def)
  have byID: "fold (\<lambda>(k, w) m. fmupd w k m) ?seen fmempty = by_id f" by (simp add: by_id_def fold_map comp_def)
  show ?thesis
  proof (cases "live_drivers f = []")
    case True
    with Inr scan show ?thesis by (simp add: cycle_task_def Fleet_cycle_def ask_def Let_def)
  next
    case False
    obtain f2 l2 where s: "sync_all P (snap_pips snap) (snap_tick snap) (live_drivers f) (f, l @ [Snapshot]) = (f2, l2)" by fastforce
    have sf: "same_fleet f f2" using sync_all_says [OF s same_fleet_refl] by simp
    have go: "alone (each (let_go_task P (snap_pips snap) (snap_tick snap) ?seen) (live_drivers f)) (f, l @ [Snapshot]) = ((), (f2, l2))"
    proof -
      have "\<forall>k \<in> set (live_drivers f). k < length (f_drivers f) \<and> d_id (f_drivers f ! k) \<in> snd ` set ?seen"
        using live_drivers_lt by (auto simp: image_image)
      from alone_let_go [OF same_fleet_refl this] s show ?thesis by simp
    qed
    let ?f3 = "f2\<lparr>f_next := Suc (f_next f2)\<rparr>"
    let ?r0 = "\<lparr>r_fleet = ?f3, r_left = offers_left ?f3, r_credits = fmempty, r_log = l2\<rparr>"
    have left: "alone (left_task (live_drivers f) fmempty) (?f3, l2) = (offers_left ?f3, (?f3, l2))"
      using same_fleet_live [of f ?f3] sf by (simp add: alone_left offers_left_def)
    have pips: "alone (pips_task P (snap_tick snap) (by_id f) (rotation (f_next f2) (live_drivers f)) (snap_pips snap) (offers_left ?f3) fmempty) (?f3, l2)
        = (let r' = cycle_pips P (snap_tick snap) (by_id f) (rotation (f_next f2) (live_drivers f)) (snap_pips snap) ?r0 in (r_credits r', (r_fleet r', r_log r')))"
      using alone_pips [of f ?r0, OF _ rotation_set] sf by simp
    show ?thesis
      using Inr False
      by (simp add: cycle_task_def Fleet_cycle_def ask_def Let_def scan live byID go s
          rotate_task_def left pips order_task_def alone_pay_all del: map_map)
  qed
qed

lemma alone_Register:
  "alone (Register_task P k) (f, l) = on_driver k (\<lambda>d l. Driver_Register P d l) (f, l)"
  by (simp add: Register_task_def on_driver_def Driver_Register_def Driver_Describe_def introduce_section_def ask_def
      split: sum.split option.split)

lemma alone_Run: "alone (Run_task P beats) (f, l) = ((), Fleet_Run P beats f l)"
  by (induction beats arbitrary: f l) (simp_all add: alone_cycle split: prod.split)


end
