(* ===== verification/GatewayRaces.thy ===== *)
theory GatewayRaces
  imports GatewayThreads WorldBooks
begin

text \<open>
  What holds however the gateway's goroutines interleave: the books of the bank and of sim-core, and what a
  hire can run into. A goroutine's account, in the sense of \<open>Goroutines\<close>, is what it owes sim-core, and
  the transfer keys only it may use.
\<close>

section \<open>Accounts\<close>

type_synonym account = "(string \<Rightarrow> i64) \<times> string set"

text \<open>The keys of the payrolls and endowments of the snapshot a log ends in.\<close>

definition dated :: "peers \<Rightarrow> call_log \<Rightarrow> string set" where
  "dated P l = (case sim_Snapshot P l of
     Inl _ \<Rightarrow> {} | Inr s \<Rightarrow> range (\<lambda>w. wage_key w (snap_tick s)) \<union> range (\<lambda>w. issue_key w (snap_tick s)))"

fun books_rely :: "bank_link \<Rightarrow> u64 list \<Rightarrow> gateway \<Rightarrow> account \<Rightarrow> bool" where
  "books_rely B ws (f, l) (owed, keys) \<longleftrightarrow> map d_id (f_drivers f) = ws \<and> (\<forall>key \<in> keys. \<not> recorded B l key)"

fun books_guar :: "bank_link \<Rightarrow> peers \<Rightarrow> u64 list \<Rightarrow> gateway \<Rightarrow> account \<Rightarrow> gateway \<Rightarrow> account \<Rightarrow> bool" where
  "books_guar B P ws (f, l) (owed, keys) (f', l') (owed', keys') \<longleftrightarrow>
     map d_id (f_drivers f') = ws \<and> length l \<le> length l'
     \<and> (\<forall>a. ahead B l' a = ahead B l a + owed' a - owed a)
     \<and> (\<forall>key. recorded B l' key \<longrightarrow> recorded B l key \<or> key \<in> keys)
     \<and> (keys' \<subseteq> keys \<and> (\<forall>key \<in> keys'. \<not> recorded B l' key) \<or> l' = l @ [Snapshot] \<and> keys' \<subseteq> dated P l')"

fun books_whole :: "bank_link \<Rightarrow> peers \<Rightarrow> u64 list \<Rightarrow> call_log \<Rightarrow> gateway \<Rightarrow> account list \<Rightarrow> bool" where
  "books_whole B P ws l0 (f, l) gs \<longleftrightarrow>
     world_moves_on B P l0 \<and> map d_id (f_drivers f) = ws \<and> length l0 \<le> length l
     \<and> (\<forall>a. ahead B l a = ahead B l0 a + (\<Sum>g \<leftarrow> gs. fst g a))
     \<and> (\<forall>i < length gs. \<forall>key \<in> snd (gs ! i). \<not> recorded B l key)
     \<and> (\<forall>i < length gs. \<forall>j < length gs. i \<noteq> j \<longrightarrow> snd (gs ! i) \<inter> snd (gs ! j) = {})
     \<and> (\<forall>key. recorded B l key \<or> (\<exists>i < length gs. key \<in> snd (gs ! i)) \<longrightarrow>
          recorded B l0 key \<or> (\<exists>l1. length l0 < length l1 \<and> length l1 \<le> length l \<and> key \<in> dated P l1))"

lemma sum_list_replace:
  fixes h :: "'a \<Rightarrow> 'b::ab_group_add"
  shows "k < length xs \<Longrightarrow> (\<Sum>x \<leftarrow> xs[k := y]. h x) = (\<Sum>x \<leftarrow> xs. h x) + h y - h (xs ! k)"
  by (induction xs arbitrary: k) (auto split: nat.split)

lemma dated_fresh:
  assumes m: "world_moves_on B P l0" and l: "length l0 \<le> length l" and key: "key \<in> dated P (l @ [Snapshot])"
  shows "\<not> recorded B l0 key" and "length l0 < length l1 \<Longrightarrow> length l1 \<le> length l \<Longrightarrow> key \<notin> dated P l1"
proof -
  obtain s w where s: "sim_Snapshot P (l @ [Snapshot]) = Inr s" "key = wage_key w (snap_tick s) \<or> key = issue_key w (snap_tick s)"
    using key by (auto simp: dated_def split: sum.splits)
  have longer: "length l0 < length (l @ [Snapshot])" using l by simp
  show "\<not> recorded B l0 key" using m longer s unfolding world_moves_on_def by blast
  assume l1: "length l0 < length l1" "length l1 \<le> length l"
  show "key \<notin> dated P l1"
  proof (cases "sim_Snapshot P l1")
    case (Inr s1)
    have "length l1 < length (l @ [Snapshot])" using l1(2) by simp
    then have "snap_tick s1 \<noteq> snap_tick s" using m l1(1) Inr s(1) unfolding world_moves_on_def by blast
    then show ?thesis using s(2) Inr by (auto simp: dated_def)
  qed (simp add: dated_def)
qed

interpretation books: audit "books_rely B ws" "books_guar B P ws" "books_whole B P ws l0" for B ws P l0
proof (unfold_locales, goal_cases)
  case (1 s gs k)
  then show ?case by (cases s; cases "gs ! k") force
next
  case (2 s gs k s' h)
  obtain f l f' l' where s: "s = (f, l)" "s' = (f', l')" by (metis surj_pair)
  obtain owed keys where g: "gs ! k = (owed, keys)" by fastforce
  obtain owed' keys' where h: "h = (owed', keys')" by fastforce
  note w = 2(1) [unfolded s books_whole.simps]
  note e = 2(3) [unfolded s g h books_guar.simps]
  let ?gs = "gs[k := h]"
  note k = 2(2)
  have at: "?gs ! i = (if i = k then h else gs ! i)" if "i < length gs" for i using that by simp
  have old: "recorded B l0 key \<or> (\<exists>l1. length l0 < length l1 \<and> length l1 \<le> length l \<and> key \<in> dated P l1)"
    if "recorded B l key \<or> (\<exists>i < length gs. key \<in> snd (gs ! i))" for key using w that by blast
  have new: "\<not> recorded B l key \<and> (\<forall>i < length gs. key \<notin> snd (gs ! i))" if "key \<in> dated P (l @ [Snapshot])" for key
    using old [of key] dated_fresh [OF _ _ that, of B l0] w by blast
  have rec: "recorded B l' key \<Longrightarrow> recorded B l key \<or> key \<in> keys" for key using e by blast
  have snap: "recorded B (l @ [Snapshot]) = recorded B l" by (rule quiet_ahead(3), rule adds_one, simp)
  have mine: "\<not> recorded B l' key" if "key \<in> keys'" for key
    using e that new snap by (metis subsetD)
  have whose: "key \<in> keys \<or> key \<in> dated P (l @ [Snapshot]) \<and> l' = l @ [Snapshot]" if "key \<in> keys'" for key
    using e that by blast
  have sum: "(\<Sum>g \<leftarrow> ?gs. fst g a) = (\<Sum>g \<leftarrow> gs. fst g a) + owed' a - owed a" for a
    using sum_list_replace [OF k, of "\<lambda>g. fst g a" h] by (simp add: g h)
  have fresh: "\<not> recorded B l' key" if "i < length gs" "key \<in> snd (?gs ! i)" for i key
  proof (cases "i = k")
    case True
    then show ?thesis using that mine h k by simp
  next
    case False
    then have "key \<in> snd (gs ! i)" using that by simp
    moreover have "key \<notin> keys" using w that(1) k False g calculation by (metis Int_iff empty_iff snd_conv)
    ultimately show ?thesis using rec [of key] w that(1) by blast
  qed
  have apart: "snd (gs ! i) \<inter> keys' = {}" if "i < length gs" "i \<noteq> k" for i
  proof -
    have "snd (gs ! i) \<inter> keys = {}" using w that k g by (metis snd_conv)
    then show ?thesis using whose new that(1) by blast
  qed
  have split: "snd (?gs ! i) \<inter> snd (?gs ! j) = {}" if "i < length gs" "j < length gs" "i \<noteq> j" for i j
    using that apart [of i] apart [of j] w k h by (simp add: nth_list_update Int_commute)
  have age: "recorded B l0 key \<or> (\<exists>l1. length l0 < length l1 \<and> length l1 \<le> length l' \<and> key \<in> dated P l1)"
    if "recorded B l' key \<or> (\<exists>i < length gs. key \<in> snd (?gs ! i))" for key
  proof -
    have "recorded B l key \<or> (\<exists>i < length gs. key \<in> snd (gs ! i)) \<or> key \<in> dated P (l @ [Snapshot]) \<and> l' = l @ [Snapshot]"
      using that rec [of key] whose [of key] g h k by (metis at snd_conv)
    moreover have "length l \<le> length l'" using e by blast
    ultimately show ?thesis
      using old [of key] w by (metis le_trans length_append_singleton less_Suc_eq_le order_refl)
  qed
  have "map d_id (f_drivers f') = ws" "length l0 \<le> length l'" using e w by (auto intro: le_trans)
  moreover have "ahead B l' a = ahead B l0 a + (\<Sum>g \<leftarrow> ?gs. fst g a)" for a using e w by (simp add: sum)
  ultimately show ?case unfolding s books_whole.simps using w fresh split age by auto
qed

section \<open>Goroutines that leave the books alone\<close>

abbreviation abides ::
  "bank_link \<Rightarrow> peers \<Rightarrow> u64 list \<Rightarrow> ('r \<Rightarrow> account \<Rightarrow> bool) \<Rightarrow> account \<Rightarrow> 'r gateway_task \<Rightarrow> bool"
where
  "abides B P ws \<equiv> conforms (books_rely B ws) (books_guar B P ws)"

text \<open>A task that keeps its account as it is, and what it returns.\<close>

definition quietly :: "bank_link \<Rightarrow> peers \<Rightarrow> u64 list \<Rightarrow> ('r \<Rightarrow> bool) \<Rightarrow> 'r gateway_task \<Rightarrow> bool" where
  "quietly B P ws R t \<longleftrightarrow> (\<forall>g. abides B P ws (\<lambda>x h. h = g \<and> R x) g t)"

lemma quiet_entry:
  assumes "books_rely B ws (f, l) g" "map d_id (f_drivers f') = ws" "adds (\<lambda>c. \<not> money_call c) l l'"
  shows "books_guar B P ws (f, l) g (f', l') g"
proof -
  have "length l \<le> length l'" using assms(3) by (auto simp: adds_def)
  with assms quiet_ahead(2,3) [OF assms(3), of B] show ?thesis by (cases g) auto
qed

lemma quietly_atomically:
  assumes "\<And>f l x f' l'. map d_id (f_drivers f) = ws \<Longrightarrow> step (f, l) = (x, (f', l')) \<Longrightarrow>
    map d_id (f_drivers f') = ws \<and> adds (\<lambda>c. \<not> money_call c) l l' \<and> R x"
  shows "quietly B P ws R (atomically step)"
  unfolding quietly_def
proof (intro allI conforms_atomically)
  fix g :: account and s x s'
  assume "books_rely B ws s g" "step s = (x, s')"
  moreover obtain f l f' l' where "s = (f, l)" "s' = (f', l')" by (metis surj_pair)
  moreover obtain owed keys where "g = (owed, keys)" by fastforce
  ultimately show "\<exists>h. (h = g \<and> R x) \<and> books_guar B P ws s g s' h"
    using assms [of f l x f' l'] quiet_entry [of B ws f l g f' l' P] by auto
qed

lemma quietly_returns: "R x \<Longrightarrow> quietly B P ws R (Returns x)"
  by (simp add: quietly_def)

lemma quietly_andthen:
  assumes "quietly B P ws R t" and "\<And>x. R x \<Longrightarrow> quietly B P ws S (k x)"
  shows "quietly B P ws S (andthen t k)"
  unfolding quietly_def
proof
  fix g
  show "abides B P ws (\<lambda>x h. h = g \<and> S x) g (andthen t k)"
    by (rule conforms_andthen [OF assms(1) [unfolded quietly_def, rule_format]])
       (use assms(2) [unfolded quietly_def] in blast)
qed

lemma quietly_then:
  "quietly B P ws (\<lambda>_. True) t \<Longrightarrow> (\<And>x. quietly B P ws S (k x)) \<Longrightarrow> quietly B P ws S (andthen t k)"
  by (rule quietly_andthen)

lemma quietly_mono: "quietly B P ws R t \<Longrightarrow> (\<And>x. R x \<Longrightarrow> S x) \<Longrightarrow> quietly B P ws S t"
  unfolding quietly_def by (blast intro: conforms_mono)

lemma quietly_each:
  "(\<And>x. x \<in> set xs \<Longrightarrow> quietly B P ws (\<lambda>_. True) (body x)) \<Longrightarrow> quietly B P ws (\<lambda>_. True) (each body xs)"
  by (induction xs) (auto intro!: quietly_returns quietly_then)

lemma quiet_read: "(\<And>f. map d_id (f_drivers f) = ws \<Longrightarrow> R (h f)) \<Longrightarrow> quietly B P ws R (reads h)"
  unfolding reads_def by (rule quietly_atomically) auto

lemma quiet_ID: "k < length ws \<Longrightarrow> quietly B P ws (\<lambda>w. w = ws ! k) (Driver_ID k)"
  unfolding Driver_ID_def by (rule quiet_read) auto

lemma quiet_any: "quietly B P ws (\<lambda>_. True) (Driver_ID k)" "quietly B P ws (\<lambda>_. True) (Driver_addr k)"
  "quietly B P ws (\<lambda>_. True) (Driver_Kind k)" "quietly B P ws (\<lambda>_. True) (reads h)"
  by (simp_all add: Driver_ID_def Driver_addr_def Driver_Kind_def quiet_read)

lemma quiet_calls: "\<not> money_call c \<Longrightarrow> quietly B P ws (\<lambda>_. True) (calls answer c)"
  unfolding calls_def by (rule quietly_atomically) (auto simp: adds_def)

lemma quiet_locked:
  assumes "\<And>d l x d' l'. sec d l = (x, d', l') \<Longrightarrow> d_id d' = d_id d \<and> adds clock_call l l'"
  shows "quietly B P ws (\<lambda>_. True) (locked k sec)"
  unfolding locked_def
proof (rule quietly_atomically, goal_cases)
  case (1 f l x f' l')
  then obtain d where d: "sec (f_drivers f ! k) l = (x, d, l')" "f' = set_driver k d f"
    by (auto split: prod.splits)
  from assms [OF d(1)] have "d_id d = d_id (f_drivers f ! k)" "adds clock_call l l'" by simp_all
  then have "map d_id (f_drivers f') = map d_id (f_drivers f)"
    unfolding d(2) set_driver_def by (simp add: map_update) (metis list_update_beyond list_update_id linorder_not_less nth_map length_map)
  with 1(1) \<open>adds clock_call l l'\<close> show ?case by (auto elim!: adds_mono simp: clock_call_def)
qed

lemmas quiet_steps = quietly_returns quietly_then quietly_each quiet_any quiet_calls

lemma section_calls:
  "hired_section P pip d l = (x, d', l') \<Longrightarrow> d_id d' = d_id d \<and> adds clock_call l l'"
  "mark_section P pip d l = (m, d', l') \<Longrightarrow> d_id d' = d_id d \<and> adds clock_call l l'"
  "unmark_section pip d l = (x, d', l') \<Longrightarrow> d_id d' = d_id d \<and> adds clock_call l l'"
  "forget_section pip d l = (x, d', l') \<Longrightarrow> d_id d' = d_id d \<and> adds clock_call l l'"
  by (auto simp: hired_section_def mark_section_def unmark_section_def forget_section_def ask_def adds_def clock_call_def
      split: option.splits if_splits)

lemma quiet_sections:
  "quietly B P ws (\<lambda>_. True) (locked k (hired_section P pip))" "quietly B P ws (\<lambda>_. True) (locked k (mark_section P pip))"
  "quietly B P ws (\<lambda>_. True) (locked k (unmark_section pip))" "quietly B P ws (\<lambda>_. True) (locked k (forget_section pip))"
  "quietly B P ws (\<lambda>_. True) (sync_task P k employed)"
  unfolding sync_task_def
  by (rule quiet_locked, erule section_calls)+
     (rule quiet_locked, use syncEmployment_says(1,2) in \<open>fastforce simp: same_building_def\<close>)

lemma quiet_OnHired: "quietly B P ws (\<lambda>_. True) (OnHired_task P k pip)"
  unfolding OnHired_task_def by (auto intro!: quiet_steps quiet_sections split: sum.split)

lemma quiet_endShift: "quietly B P ws (\<lambda>_. True) (endShift_task P k pip tick why)"
  unfolding endShift_task_def by (auto intro!: quiet_steps quiet_sections)

lemma quiet_work: "quietly B P ws (\<lambda>_. True) (work_task P k pip tick inside)"
  unfolding work_task_def by (auto intro!: quiet_steps quiet_endShift split: sum.split)

lemma quiet_Offer: "quietly B P ws (\<lambda>_. True) (Offer_task P kind pip tick)"
  unfolding Offer_task_def
proof (rule quietly_atomically, goal_cases)
  case (1 f l x f' l')
  then have "Publisher_Offer P kind pip tick [] l = (x, l')" "f' = f" by (auto split: prod.splits)
  with 1(1) Publisher_Offer_says [of P kind pip tick "[]" l x l'] show ?case by (auto simp: adds_def)
qed

lemma quiet_offer: "quietly B P ws (\<lambda>_. True) (offer_task P k pip tick)"
  unfolding offer_task_def by (auto intro!: quiet_steps quiet_sections quiet_Offer split: option.split)

lemma quiet_cycle_parts:
  "quietly B P ws (\<lambda>_. True) (scan_task ks)" "quietly B P ws (\<lambda>_. True) (let_go_task P pips tick seen k)"
  "quietly B P ws (\<lambda>_. True) rotate_task" "quietly B P ws (\<lambda>_. True) (left_task ks left)"
  "quietly B P ws (\<lambda>_. True) (offer_pip_task P pip tick ks left)" "quietly B P ws (\<lambda>_. True) (work_pip_task P tick p k owed)"
proof -
  show "quietly B P ws (\<lambda>_. True) (scan_task ks)" by (induction ks) (auto intro!: quiet_steps)
  show "quietly B P ws (\<lambda>_. True) (let_go_task P pips tick seen k)"
    unfolding let_go_task_def by (auto intro!: quiet_steps quiet_sections quiet_endShift)
  show "quietly B P ws (\<lambda>_. True) rotate_task" unfolding rotate_task_def by (rule quietly_atomically) auto
  show "quietly B P ws (\<lambda>_. True) (left_task ks left)" by (induction ks arbitrary: left) (auto intro!: quiet_steps)
  show "quietly B P ws (\<lambda>_. True) (offer_pip_task P pip tick ks left)"
    by (induction ks) (auto intro!: quiet_steps quiet_offer)
  show "quietly B P ws (\<lambda>_. True) (work_pip_task P tick p k owed)"
    unfolding work_pip_task_def by (auto intro!: quiet_steps quiet_work simp: Let_def)
qed

lemma quiet_pips: "quietly B P ws (\<lambda>_. True) (pips_task P tick byID ring ps left owed)"
  by (induction ps arbitrary: left owed) (auto intro!: quiet_steps quiet_cycle_parts split: option.split)

lemma quiet_order: "walks_maps P \<Longrightarrow> quietly B P ws (\<lambda>ks. distinct ks \<and> set ks = fset m) (order_task P m)"
  unfolding order_task_def by (rule quietly_atomically) (auto simp: walks_maps_def)

lemma quiet_Fleet_OnHired: "quietly B P ws (\<lambda>_. True) (Fleet_OnHired_task P pip w ks)"
  by (induction ks) (auto intro!: quiet_steps quiet_OnHired)

section \<open>Goroutines that move money\<close>

text \<open>What is told settles what is owed.\<close>

lemma abides_tell:
  "abides B P ws (\<lambda>_ h. h = (\<lambda>_. 0, keys)) (journal_balance (told_rows (SubmitIntent i)), keys) (calls answer (SubmitIntent i))"
  unfolding calls_def
proof (rule conforms_atomically, goal_cases)
  case (1 s x s')
  obtain f l where s: "s = (f, l)" "s' = (f, l @ [SubmitIntent i])" using 1(2) by (cases s) auto
  have "bank_after B (l @ [SubmitIntent i]) = bank_after B l" by (simp add: bank_after_snoc ledger_step_def)
  with 1(1) show ?case by (auto simp: s ahead_def recorded_def told_snoc)
qed

text \<open>A call to the bank under a key of one's own: booked and owed, or neither; the key is used up.\<close>

lemma bank_entry:
  assumes rely: "books_rely B ws (f, l) (\<lambda>_. 0, keys)" and quiet: "told_rows c = []"
    and booked: "\<And>a. getz (balances (bank_after B (l @ [c]))) a = getz (balances (bank_after B l)) a + owed a"
    and keyed: "\<And>k. recorded B (l @ [c]) k \<Longrightarrow> recorded B l k \<or> k = key" and mine: "key \<in> keys"
  shows "books_guar B P ws (f, l) (\<lambda>_. 0, keys) (f, l @ [c]) (owed, keys - {key})"
proof -
  have "ahead B (l @ [c]) a = ahead B l a + owed a" for a by (simp add: ahead_def told_snoc quiet booked)
  with rely keyed mine show ?thesis by auto
qed

lemma abides_payroll_call:
  assumes B: "served B P" and key: "wage_key w t \<in> keys"
  shows "abides B P ws (\<lambda>x h. h = (if \<exists>r. x = Inr r \<and> OK r
        then journal_balance (told_rows (SubmitIntent (CreditBalances (workplaceAccount w) pays t))) else (\<lambda>_. 0),
      keys - {wage_key w t})) (\<lambda>_. 0, keys) (calls (bank_BatchTransfer P) (CallBatchTransfer (payroll w t pays)))"
  unfolding calls_def
proof (rule conforms_atomically, goal_cases)
  case (1 s x s')
  let ?c = "CallBatchTransfer (payroll w t pays)"
  obtain f l where s: "s = (f, l)" "s' = (f, l @ [?c])" "x = bank_BatchTransfer P (l @ [?c])" using 1(2) by (cases s) auto
  have fresh: "fmlookup (idempotent (bank_after B l)) (wage_key w t) = None" using 1(1) key by (auto simp: s recorded_def)
  have after: "bank_after B (l @ [?c]) = (if up B (l @ [?c]) then fst (snd (Handler_BatchTransfer MemoryLedger noopPublisher
      (ids B (length l)) (bank_after B l, ()) (payroll w t pays))) else bank_after B l)"
    by (simp only: bank_after_snoc ledger_step_def call.case)
  have answer: "x = (if up B (l @ [?c]) then fst (Handler_BatchTransfer MemoryLedger noopPublisher
      (ids B (length l)) (bank_after B l, ()) (payroll w t pays)) else Inl (CodeUnavailable, ''no connection''))"
    using B by (simp add: s served_def)
  note entry = bank_entry [OF 1(1) [unfolded s], where c = ?c and key = "wage_key w t"]
  show ?case
  proof (cases "up B (l @ [?c])")
    case False
    then have same: "bank_after B (l @ [?c]) = bank_after B l" and x: "x = Inl (CodeUnavailable, ''no connection'')" using after answer by simp_all
    show ?thesis unfolding s(1,2) by (intro exI conjI, rule refl, rule entry) (simp_all add: same x recorded_def key)
  next
    case up: True
    from fresh show ?thesis
    proof (cases rule: handled_payroll [where tid = "ids B (length l)" and pays = pays])
      case (refused r)
      then have same: "bank_after B (l @ [?c]) = bank_after B l" and x: "x = Inr r" using after answer up by simp_all
      show ?thesis unfolding s(1,2) by (intro exI conjI, rule refl, rule entry) (simp_all add: same x recorded_def key refused(1))
    next
      case (booked r m')
      then have m': "bank_after B (l @ [?c]) = m'" and x: "x = Inr r" using after answer up by simp_all
      have "recorded B (l @ [?c]) k \<Longrightarrow> recorded B l k \<or> k = wage_key w t" for k
        using booked(4) [of k] by (auto simp: m' recorded_def)
      note k = this
      show ?thesis unfolding s(1,2)
        by (intro exI conjI, rule refl, rule entry) (simp_all add: m' x key booked(1,3) k del: told_rows.simps(1))
    qed
  qed
qed

lemma abides_issue_call:
  assumes B: "served B P" and key: "issue_key w t \<in> keys"
  shows "abides B P ws (\<lambda>x h. h = (if \<exists>r. x = Inr r \<and> OK r
        then journal_balance (told_rows (SubmitIntent (TransferMoney ''treasury'' (workplaceAccount w) n 0 TRANSFER_KIND_ISSUANCE t)))
        else (\<lambda>_. 0), keys - {issue_key w t})) (\<lambda>_. 0, keys) (calls (bank_Transfer P) (CallTransfer (issuance w t n)))"
  unfolding calls_def
proof (rule conforms_atomically, goal_cases)
  case (1 s x s')
  let ?c = "CallTransfer (issuance w t n)"
  obtain f l where s: "s = (f, l)" "s' = (f, l @ [?c])" "x = bank_Transfer P (l @ [?c])" using 1(2) by (cases s) auto
  have fresh: "fmlookup (idempotent (bank_after B l)) (issue_key w t) = None" using 1(1) key by (auto simp: s recorded_def)
  have after: "bank_after B (l @ [?c]) = (if up B (l @ [?c]) then fst (snd (Handler_Transfer MemoryLedger noopPublisher
      (ids B (length l)) (bank_after B l, ()) (issuance w t n))) else bank_after B l)"
    by (simp only: bank_after_snoc ledger_step_def call.case)
  have answer: "x = (if up B (l @ [?c]) then fst (Handler_Transfer MemoryLedger noopPublisher
      (ids B (length l)) (bank_after B l, ()) (issuance w t n)) else Inl (CodeUnavailable, ''no connection''))"
    using B by (simp add: s served_def)
  note entry = bank_entry [OF 1(1) [unfolded s], where c = ?c and key = "issue_key w t"]
  show ?case
  proof (cases "up B (l @ [?c])")
    case False
    then have same: "bank_after B (l @ [?c]) = bank_after B l" and x: "x = Inl (CodeUnavailable, ''no connection'')" using after answer by simp_all
    show ?thesis unfolding s(1,2) by (intro exI conjI, rule refl, rule entry) (simp_all add: same x recorded_def key)
  next
    case up: True
    obtain r m' where booked: "OK r" "Handler_Transfer MemoryLedger noopPublisher (ids B (length l)) (bank_after B l, ())
          (issuance w t n) = (Inr r, m', ())"
        "\<forall>a. getz (balances m') a = getz (balances (bank_after B l)) a + journal_balance (told_rows
           (SubmitIntent (TransferMoney ''treasury'' (workplaceAccount w) n 0 TRANSFER_KIND_ISSUANCE t))) a"
        "\<forall>key. fmlookup (idempotent m') key \<noteq> None \<longleftrightarrow> key = issue_key w t \<or> fmlookup (idempotent (bank_after B l)) key \<noteq> None"
      by (rule handled_issuance [where tid = "ids B (length l)" and n = n, OF fresh])
    then have m': "bank_after B (l @ [?c]) = m'" and x: "x = Inr r" using after answer up by simp_all
    have "recorded B (l @ [?c]) k \<Longrightarrow> recorded B l k \<or> k = issue_key w t" for k
      using booked(4) by (auto simp: m' recorded_def)
    note k = this
    show ?thesis unfolding s(1,2)
      by (intro exI conjI, rule refl, rule entry) (use booked(1,3) in \<open>simp_all add: m' x key k del: told_rows.simps(2)\<close>)
  qed
qed

text \<open>Tasks one after the other.\<close>

lemma quietly_first:
  assumes "quietly B P ws R t" and "\<And>x. R x \<Longrightarrow> abides B P ws Q g (k x)"
  shows "abides B P ws Q g (andthen t k)"
  by (rule conforms_andthen [OF assms(1) [unfolded quietly_def, rule_format]]) (use assms(2) in blast)

text \<open>An account that owes nothing.\<close>

abbreviation square :: "'r \<Rightarrow> account \<Rightarrow> bool" where
  "square _ h \<equiv> fst h = (\<lambda>_. 0)"

lemma abides_payWages:
  assumes B: "served B P" and w: "walks_maps P" and key: "wage_key v t \<in> keys"
  shows "abides B P ws (\<lambda>_ h. square () h \<and> keys - {wage_key v t} \<subseteq> snd h) (\<lambda>_. 0, keys) (payWages_task P v t credits)"
  unfolding payWages_task_def
proof (rule quietly_first [OF quiet_any(4)], goal_cases)
  case (1 bank)
  have "abides B P ws (\<lambda>_ h. square () h \<and> keys - {wage_key v t} \<subseteq> snd h) (\<lambda>_. 0, keys)
      (andthen (calls (bank_BatchTransfer P) (CallBatchTransfer (payroll v t pays))) (\<lambda>answer.
         case answer of Inl err \<Rightarrow> Returns ()
         | Inr r \<Rightarrow> if \<not> OK r then Returns ()
             else andthen (calls (sim_SubmitIntent P) (SubmitIntent (CreditBalances (workplaceAccount v) pays t))) (\<lambda>_. Returns ())))" for pays
    by (rule conforms_andthen [OF abides_payroll_call [OF B key]])
       (auto split: sum.split intro!: conforms_andthen [OF abides_tell] simp del: told_rows.simps)
  then show ?case by (auto simp: Let_def intro!: quietly_first [OF quiet_order [OF w]])
qed

lemma abides_endow:
  assumes B: "served B P" and k: "k < length ws" and key: "ws ! k \<noteq> 0 \<Longrightarrow> issue_key (ws ! k) t \<in> keys"
  shows "abides B P ws (\<lambda>_ h. square () h \<and> keys - {issue_key (ws ! k) t} \<subseteq> snd h) (\<lambda>_. 0, keys) (endow_task P capital t k)"
  unfolding endow_task_def
proof (rule quietly_first [OF quiet_ID [OF k]], goal_cases)
  case (1 w)
  have "abides B P ws (\<lambda>_ h. square () h \<and> keys - {issue_key w t} \<subseteq> snd h) (\<lambda>_. 0, keys)
      (andthen (calls (bank_Transfer P) (CallTransfer (issuance w t amount))) (\<lambda>answer.
         case answer of Inl err \<Rightarrow> Returns ()
         | Inr res \<Rightarrow> if \<not> OK res then Returns ()
             else andthen (calls (sim_SubmitIntent P) (SubmitIntent
               (TransferMoney ''treasury'' (workplaceAccount w) amount 0 TRANSFER_KIND_ISSUANCE t))) (\<lambda>_. Returns ())))"
    if "w \<noteq> 0" for amount
    by (rule conforms_andthen [OF abides_issue_call [OF B]])
       (use key 1 that in \<open>auto split: sum.split intro!: conforms_andthen [OF abides_tell] simp del: told_rows.simps\<close>)
  then show ?case using 1
    by (auto simp: Let_def split: sum.split intro!: quietly_first [OF quiet_calls])
qed

text \<open>A snapshot gives its keys to the goroutine that took it.\<close>

lemma abides_snapshot:
  assumes "\<And>s. D s \<subseteq> range (\<lambda>w. wage_key w (snap_tick s)) \<union> range (\<lambda>w. issue_key w (snap_tick s))"
  shows "abides B P ws (\<lambda>x h. h = (\<lambda>_. 0, case x of Inl _ \<Rightarrow> {} | Inr s \<Rightarrow> D s)) (\<lambda>_. 0, keys) (calls (sim_Snapshot P) Snapshot)"
  unfolding calls_def
proof (rule conforms_atomically, goal_cases)
  case (1 s x s')
  obtain f l where s: "s = (f, l)" "s' = (f, l @ [Snapshot])" "x = sim_Snapshot P (l @ [Snapshot])" using 1(2) by (cases s) auto
  have "ahead B (l @ [Snapshot]) = ahead B l" "recorded B (l @ [Snapshot]) = recorded B l"
    by (rule quiet_ahead, rule adds_one, simp)+
  moreover have "(case x of Inl _ \<Rightarrow> {} | Inr s \<Rightarrow> D s) \<subseteq> dated P (l @ [Snapshot])"
    using assms by (auto simp: dated_def s(3) split: sum.split)
  ultimately show ?case using 1(1) by (simp add: s(1,2))
qed

lemma abides_cycle:
  assumes B: "served B P" and w: "walks_maps P"
  shows "abides B P ws square (\<lambda>_. 0, keys) (cycle_task P)"
  unfolding cycle_task_def
proof (rule conforms_andthen [OF abides_snapshot [where D = "\<lambda>s. range (\<lambda>w. wage_key w (snap_tick s))"]], goal_cases)
  case 1
  show ?case by simp
next
  case (2 x h)
  show ?case
  proof (cases x)
    case (Inr snap)
    let ?t = "snap_tick snap" and ?K = "range (\<lambda>w. wage_key w (snap_tick snap))"
    have pay: "abides B P ws square (\<lambda>_. 0, ?K) (andthen (each (\<lambda>v. payWages_task P v ?t (c v)) vs) (\<lambda>_. Returns (Inr ())))"
      if vs: "distinct vs" for c vs
    proof (rule conforms_andthen)
      let ?I = "\<lambda>vs h. square () h \<and> distinct vs \<and> (\<forall>v \<in> set vs. wage_key v ?t \<in> snd h)"
      show "abides B P ws (\<lambda>_. ?I []) (\<lambda>_. 0, ?K) (each (\<lambda>v. payWages_task P v ?t (c v)) vs)"
      proof (rule conforms_each [where I = ?I])
        fix v vs and g :: account
        assume I: "?I (v # vs) g"
        then have g: "g = (\<lambda>_. 0, snd g)" by (cases g) simp
        have "abides B P ws (\<lambda>_ h. square () h \<and> snd g - {wage_key v ?t} \<subseteq> snd h) (\<lambda>_. 0, snd g) (payWages_task P v ?t (c v))"
          by (rule abides_payWages [OF B w]) (use I in simp)
        with g have "abides B P ws (\<lambda>_ h. square () h \<and> snd g - {wage_key v ?t} \<subseteq> snd h) g (payWages_task P v ?t (c v))" by metis
        then show "abides B P ws (\<lambda>_. ?I vs) g (payWages_task P v ?t (c v))"
          by (rule conforms_mono) (use I in auto)
      qed (use vs in simp)
    qed auto
    have h: "h = (\<lambda>_. 0, ?K)" using 2 Inr by simp
    show ?thesis
      unfolding Inr h sum.case Let_def
    proof (rule quietly_first [OF quiet_any(4)], rule quietly_first [OF quiet_cycle_parts(1)], goal_cases)
      case (1 n seen)
      show ?case
      proof (cases "seen = []")
        case False
        show ?thesis
          unfolding if_not_P [OF False]
          by (rule quietly_first [OF quietly_each [OF quiet_cycle_parts(2)]], rule quietly_first [OF quiet_cycle_parts(3)],
              rule quietly_first [OF quiet_cycle_parts(4)], rule quietly_first [OF quiet_pips],
              rule quietly_first [OF quiet_order [OF w]], rule pay, blast)
      qed simp
    qed
  qed (use 2 in simp)
qed

lemma abides_Endow:
  assumes B: "served B P" and ids: "distinct ws"
  shows "abides B P ws square (\<lambda>_. 0, keys) (Endow_task P capital)"
  unfolding Endow_task_def
proof (rule quietly_first [OF quiet_read [where R = "\<lambda>(bank, n). n = length ws"]], goal_cases)
  case (1 f)
  then show ?case by auto
next
  case (2 x)
  then obtain bank where x: "x = (bank, length ws)" by (cases x) simp
  show ?case
  proof (cases "\<not> bank \<or> capital \<le>s 0")
    case False
    show ?thesis
      unfolding x prod.case if_not_P [OF False]
    proof (rule conforms_andthen [OF abides_snapshot [where D = "\<lambda>s. range (\<lambda>w. issue_key w (snap_tick s))"]], goal_cases)
      case (2 y h)
      show ?case
      proof (cases y)
        case (Inr snap)
        let ?t = "snap_tick snap"
        let ?I = "\<lambda>ks h. square () h \<and> distinct ks \<and> (\<forall>k \<in> set ks. k < length ws \<and> issue_key (ws ! k) ?t \<in> snd h)"
        have "abides B P ws (\<lambda>_. ?I []) h (each (endow_task P capital ?t) [0..<length ws])"
        proof (rule conforms_each [where I = ?I])
          fix k ks and g :: account
          assume I: "?I (k # ks) g"
          then have g: "g = (\<lambda>_. 0, snd g)" by (cases g) simp
          have "abides B P ws (\<lambda>_ h. square () h \<and> snd g - {issue_key (ws ! k) ?t} \<subseteq> snd h) (\<lambda>_. 0, snd g) (endow_task P capital ?t k)"
            by (rule abides_endow [OF B]) (use I in simp_all)
          with g have "abides B P ws (\<lambda>_ h. square () h \<and> snd g - {issue_key (ws ! k) ?t} \<subseteq> snd h) g (endow_task P capital ?t k)" by metis
          then show "abides B P ws (\<lambda>_. ?I ks) g (endow_task P capital ?t k)"
          proof (rule conforms_mono)
            fix u h assume h: "square () h \<and> snd g - {issue_key (ws ! k) ?t} \<subseteq> snd h"
            have "issue_key (ws ! j) ?t \<noteq> issue_key (ws ! k) ?t" if "j \<in> set ks" for j
              using that I ids by (auto simp: nth_eq_iff_index_eq)
            with h I show "?I ks h" by auto
          qed
        qed (use 2 Inr in simp)
        then show ?thesis unfolding Inr sum.case by (rule conforms_mono) simp
      qed (use 2 in simp)
    qed simp
  qed (simp add: x)
qed

lemma abides_again: "abides B P ws square (\<lambda>_. 0, keys) t \<Longrightarrow> (\<And>x keys. abides B P ws square (\<lambda>_. 0, keys) (k x)) \<Longrightarrow>
    abides B P ws square (\<lambda>_. 0, keys) (andthen t k)"
proof (erule conforms_andthen)
  fix x and h :: account
  assume k: "\<And>x keys. abides B P ws square (\<lambda>_. 0, keys) (k x)" and "square x h"
  then have "h = (\<lambda>_. 0, snd h)" by (cases h) simp
  with k [of "snd h" x] show "abides B P ws square h (k x)" by metis
qed

lemma abides_Run: "served B P \<Longrightarrow> walks_maps P \<Longrightarrow> abides B P ws square (\<lambda>_. 0, keys) (Run_task P beats)"
  by (induction beats arbitrary: keys) (auto intro: abides_again abides_cycle)

lemma abides_KeepEndowed:
  "served B P \<Longrightarrow> distinct ws \<Longrightarrow> abides B P ws square (\<lambda>_. 0, keys) (KeepEndowed_task P capital passes)"
  by (induction passes arbitrary: keys) (auto intro: abides_again abides_Endow)

lemma quietly_square: "quietly B P ws R t \<Longrightarrow> abides B P ws square (\<lambda>_. 0, keys) t"
  unfolding quietly_def by (erule allE, erule conforms_mono) simp

lemma quiet_hires: "quietly B P ws (\<lambda>_. True) (hires_task P n hires)"
  unfolding hires_task_def by (rule quietly_each) (auto intro: quiet_Fleet_OnHired split: prod.split)

text \<open>A building asked for itself by its id answers with this id.\<close>

definition introduces_itself :: "peers \<Rightarrow> bool" where
  "introduces_itself P \<longleftrightarrow> (\<forall>l addr w desc. w \<noteq> 0 \<and> wp_Describe P (l @ [CallDescribe addr w]) = Inr desc \<longrightarrow> dr_WorkplaceId desc = w)"

lemma quiet_Register:
  assumes P: "introduces_itself P" and k: "k < length ws" "ws ! k \<noteq> 0"
  shows "quietly B P ws (\<lambda>_. True) (Register_task P k)"
proof -
  have describe: "quietly B P ws (\<lambda>x. \<forall>desc. x = Inr desc \<longrightarrow> dr_WorkplaceId desc = ws ! k)
      (calls (wp_Describe P) (CallDescribe addr (ws ! k)))" for addr
    unfolding calls_def
    by (rule quietly_atomically) (use P k in \<open>auto simp: adds_def introduces_itself_def\<close>)
  have keeps: "quietly B P ws (\<lambda>_. True) (locked k (introduce_section desc))" if "dr_WorkplaceId desc = ws ! k" for desc
    unfolding locked_def introduce_section_def
    by (rule quietly_atomically) (use that k(1) in \<open>auto simp: set_driver_def map_update list_update_same_conv\<close>)
  show ?thesis
    unfolding Register_task_def
    by (rule quietly_then [OF quiet_any(2)], rule quietly_andthen [OF quiet_ID [OF k(1)]], simp, rule quietly_andthen [OF describe])
       (auto intro!: quiet_steps keeps split: sum.split option.split)
qed

lemma quiet_KeepRegistered:
  "introduces_itself P \<Longrightarrow> k < length ws \<Longrightarrow> ws ! k \<noteq> 0 \<Longrightarrow> quietly B P ws (\<lambda>_. True) (KeepRegistered_task P k rounds)"
  by (induction rounds) (auto intro!: quietly_returns quietly_then quiet_Register)

section \<open>The books under all interleavings\<close>

lemma goroutines_abide:
  assumes "served B P" "walks_maps P" "introduces_itself P" "distinct ws" "0 \<notin> set ws"
  shows "list_all2 (abides B P ws square) (replicate (length ws + 3) (\<lambda>_. 0, {}))
    (gateway_goroutines P capital beats passes rounds hires (length ws))"
  unfolding list_all2_conv_all_nth gateway_goroutines_def Fleet_KeepRegistered_tasks_def
proof (intro conjI allI impI)
  fix i assume "i < length (replicate (length ws + 3) ((\<lambda>_. 0, {}) :: account))"
  then consider "i < length ws" | "i = length ws" | "i = Suc (length ws)" | "i = Suc (Suc (length ws))" by force
  then show "abides B P ws square (replicate (length ws + 3) (\<lambda>_. 0, {}) ! i)
      ((map (\<lambda>k. KeepRegistered_task P k rounds) [0..<length ws]
        @ [KeepEndowed_task P capital passes, Run_task P beats, hires_task P (length ws) hires]) ! i)"
  proof cases
    case 1
    then have "ws ! i \<noteq> 0" using assms(5) nth_mem by metis
    with 1 show ?thesis using quietly_square [OF quiet_KeepRegistered [OF assms(3) 1]] by (simp add: nth_append)
  qed (use assms in \<open>auto simp: nth_append intro: abides_KeepEndowed abides_Run quietly_square quiet_hires\<close>)
qed simp



section \<open>A hire in the middle of a cycle\<close>

lemma sync_then_hired:
  assumes walks: "walks_maps P" and clock: "\<And>l. clock_reads P l = now"
    and sync: "syncEmployment P d employed l = (gone, d1, l1)" "set gone = {pip}"
    and hired: "hired_section P pip d l0 = ((), d2, l2)"
    and again: "syncEmployment P d2 employed l3 = (gone3, d3, l4)"
  shows "gone3 = [] \<and> pip |\<in>| d_employed d3 \<and> adds clock_call l3 l4"
proof -
  have d2: "d_employed d2 = finsert pip (d_employed d)" "d_hiredAt d2 = fmupd pip now (d_hiredAt d)"
    using hired by (auto simp: hired_section_def ask_def clock)
  have order: "distinct (map_order P l ks)" "set (map_order P l ks) = fset ks" for l ks using walks by (simp_all add: walks_maps_def)
  obtain h1 e1 m1 where g1: "grace_loop P (map_order P l (fmdom (d_hiredAt d))) (d_hiredAt d) employed l = (h1, e1, m1)" by (metis prod_cases3)
  obtain h3 e3 m3 where g3: "grace_loop P (map_order P l3 (fmdom (d_hiredAt d2))) (d_hiredAt d2) employed l3 = (h3, e3, m3)" by (metis prod_cases3)
  note spec1 = grace_loop_spec [OF clock order(1) g1]
  note spec3 = grace_loop_spec [OF clock order(1) g3]
  have gone: "set gone = fset (d_employed d) - fset e1"
    using sync(1) g1 by (auto simp: syncEmployment_def order)
  have fresh: "recent now (d_hiredAt d2) pip" by (simp add: d2 recent_def time_sub_def hireGrace_def)
  have keeps: "p |\<in>| e3" if "p |\<in>| e1 \<or> p = pip" for p
    using that spec1 spec3 fresh by (cases "p = pip") (auto simp: order d2 recent_def)
  have "p |\<in>| e3" if "p |\<in>| d_employed d2" for p
    using that keeps gone sync(2) by (cases "p = pip") (auto simp: d2)
  then have "gone3 = []" "d_employed d3 = e3"
    using again g3 by (auto simp: syncEmployment_def order filter_empty_conv)
  with keeps [of pip] syncEmployment_says(1) [OF again] show ?thesis by simp
qed

text \<open>
  C21: A hire that comes in while a cycle lets the pip go is undone. A cycle finds a pip gone from a building
  and is about to end its shift; the lock is free again, and an outcome says the building has just hired
  the pip. Then sim-core is sent the hire and after it the end of the employment, and the driver forgets the
  pip. Had the two run one after the other, in either order, the hire would have stood: the cycle ends the
  shift before the hire, or sees the hire within its grace and ends nothing.
\<close>

theorem hire_undone_midway:
  fixes P pips tick seen k pip
  assumes walks: "walks_maps P" and clock: "\<And>l. clock_reads P l = now"
    and accepts: "\<And>l. \<exists>x. sim_SubmitIntent P l = Inr x"
    and k: "k < length (f_drivers f)" and w: "w = d_id (f_drivers f ! k)" "w \<in> snd ` set seen"
    and gone: "syncEmployment P (f_drivers f ! k) (employed_by pips w) l = ([pip], d, l1)"
  defines "letting_go \<equiv> let_go_task P pips tick seen k" and "hired \<equiv> OnHired_task P k pip"
    and "ends \<equiv> [CallEndShift (d_addr (f_drivers f ! k)) w pip tick ''no longer employed here'', SubmitIntent (EndEmployment pip)]"
    and "hires \<equiv> [SubmitIntent (Hire pip w), ReadClock]"
  shows "(\<exists>f'. interleave ((f, l), [letting_go, hired]) ((f', l1 @ hires @ ends), [Returns (), Returns ()])
      \<and> pip |\<notin>| d_employed (f_drivers f' ! k))
    \<and> (\<exists>f'. alone (andthen letting_go (\<lambda>_. hired)) (f, l) = ((), (f', l1 @ ends @ hires)) \<and> pip |\<in>| d_employed (f_drivers f' ! k))
    \<and> (\<exists>f' l'. alone (andthen hired (\<lambda>_. letting_go)) (f, l) = ((), (f', l')) \<and> pip |\<in>| d_employed (f_drivers f' ! k)
        \<and> adds clock_call (l @ hires) l')"
proof (intro conjI)
  let ?d = "f_drivers f ! k" and ?f1 = "set_driver k d f"
  let ?H = "\<lambda>d. d\<lparr>d_employed := finsert pip (d_employed d), d_hiredAt := fmupd pip now (d_hiredAt d), d_pending := fmdrop pip (d_pending d)\<rparr>"
  let ?E = "\<lambda>d. d\<lparr>d_employed := d_employed d |-| {|pip|}, d_pending := fmdrop pip (d_pending d)\<rparr>"
  have same: "d_id d = w" "d_addr d = d_addr ?d" using syncEmployment_says(2) [OF gone] w(1) by (simp_all add: same_building_def)
  have hire: "alone hired (g, m) = ((), (set_driver k (?H (f_drivers g ! k)) g, m @ hires))"
    if "k < length (f_drivers g)" "d_id (f_drivers g ! k) = w" for g m
  proof -
    obtain x where "sim_SubmitIntent P (m @ [SubmitIntent (Hire pip w)]) = Inr x" using accepts by blast
    then show ?thesis
      using that by (simp add: hired_def alone_OnHired on_driver_def Driver_OnHired_def ask_def clock hires_def)
  qed
  have ending: "alone (endShift_task P k pip tick ''no longer employed here'') (g, m) = ((), (set_driver k (?E (f_drivers g ! k)) g, m @ ends))"
    if "d_id (f_drivers g ! k) = w" "d_addr (f_drivers g ! k) = d_addr ?d" for g m
    using that by (simp add: alone_endShift on_driver_def Driver_endShift_def ask_def ends_def)
  have sync: "alone (sync_task P k (employed_by pips w)) (f, l) = ([pip], (?f1, l1))"
    using gone by (simp add: alone_sync on_driver_def)
  let ?rest = "\<lambda>gone. each (\<lambda>pip. endShift_task P k pip tick ''no longer employed here'') gone"
  let ?look = "\<lambda>w. andthen (sync_task P k (if w \<in> snd ` set seen then employed_by pips w else {||})) ?rest"
  show "\<exists>f'. interleave ((f, l), [letting_go, hired]) ((f', l1 @ hires @ ends), [Returns (), Returns ()])
      \<and> pip |\<notin>| d_employed (f_drivers f' ! k)"
  proof (intro exI conjI)
    have "interleave ((f, l), [letting_go, hired]) ((f, l), [andthen (sync_task P k (employed_by pips w)) ?rest, hired])"
      using alone_first [of 0 "[letting_go, hired]" "Driver_ID k" ?look "(f, l)" w "(f, l)"] w
      by (simp add: letting_go_def let_go_task_def)
    also have "interleave \<dots> ((?f1, l1), [?rest [pip], hired])"
      using alone_first [OF _ _ sync, of 0 "[andthen (sync_task P k (employed_by pips w)) ?rest, hired]" ?rest] by simp
    also have "interleave \<dots> ((set_driver k (?H d) f, l1 @ hires), [?rest [pip], Returns ()])"
      using alone_interleaves [of 1 "[?rest [pip], hired]" hired, OF _ _ hire [of ?f1 l1]] k same by simp
    also have "interleave \<dots> ((set_driver k (?E (?H d)) f, (l1 @ hires) @ ends), [Returns (), Returns ()])"
      using alone_interleaves [of 0 "[?rest [pip], Returns ()]" "?rest [pip]" "(set_driver k (?H d) f, l1 @ hires)" "()"
          "(set_driver k (?E (?H d)) f, (l1 @ hires) @ ends)"] k same
      by (simp add: ending)
    finally show "interleave ((f, l), [letting_go, hired]) ((set_driver k (?E (?H d)) f, l1 @ hires @ ends), [Returns (), Returns ()])" by simp
    show "pip |\<notin>| d_employed (f_drivers (set_driver k (?E (?H d)) f) ! k)" using k by simp
  qed
  have go: "alone letting_go (f, l) = ((), (set_driver k (?E d) f, l1 @ ends))"
    by (simp add: letting_go_def let_go_task_def w(1) [symmetric] w(2) sync ending same k)
  show "\<exists>f'. alone (andthen letting_go (\<lambda>_. hired)) (f, l) = ((), (f', l1 @ ends @ hires)) \<and> pip |\<in>| d_employed (f_drivers f' ! k)"
    using k same by (simp add: go hire)
  obtain gone3 d3 l3 where again: "syncEmployment P (?H ?d) (employed_by pips w) (l @ hires) = (gone3, d3, l3)" by (metis prod_cases3)
  have "hired_section P pip ?d l = ((), ?H ?d, l @ [ReadClock])" by (simp add: hired_section_def ask_def clock)
  from sync_then_hired [OF walks clock gone _ this again] have stands: "gone3 = []" "pip |\<in>| d_employed d3" "adds clock_call (l @ hires) l3"
    by simp_all
  have "alone (andthen hired (\<lambda>_. letting_go)) (f, l) = ((), (set_driver k d3 f, l3))"
    using w k again stands(1) by (simp add: hire letting_go_def let_go_task_def alone_sync on_driver_def)
  then show "\<exists>f' l'. alone (andthen hired (\<lambda>_. letting_go)) (f, l) = ((), (f', l')) \<and> pip |\<in>| d_employed (f_drivers f' ! k)
      \<and> adds clock_call (l @ hires) l'"
    using k stands(2,3) by (intro exI [of _ "set_driver k d3 f"] exI [of _ l3] conjI) simp_all
qed

text \<open>A farm that employed pip seven, which the snapshot shows without work.\<close>

definition leaving_fleet :: Fleet where
  "leaving_fleet = set_driver 0 ((f_drivers one_farm_fleet ! 0)\<lparr>d_employed := {|7|}\<rparr>) one_farm_fleet"

theorem hire_undone_midway_witness:
  "\<exists>f'. interleave ((leaving_fleet, []), [let_go_task (calm []) [pip_idle 7] 5 [(0, 1)] 0, OnHired_task (calm []) 0 7])
      ((f', [SubmitIntent (Hire 7 1), ReadClock, CallEndShift ''farm:8090'' 1 7 5 ''no longer employed here'', SubmitIntent (EndEmployment 7)]),
       [Returns (), Returns ()])
    \<and> 7 |\<notin>| d_employed (f_drivers f' ! 0)"
proof -
  let ?d = "f_drivers leaving_fleet ! 0"
  have d: "d_id ?d = 1" "d_addr ?d = ''farm:8090''" "d_employed ?d = {|7|}" "d_hiredAt ?d = fmempty" "length (f_drivers leaving_fleet) = 1"
    by (simp_all add: leaving_fleet_def one_farm_fleet_def NewFleet_def NewDriverFor_def NewDriver_def set_driver_def)
  have none: "employed_by [pip_idle 7] 1 = {||}" by (simp add: employed_by_def pip_idle_def get_optional_def)
  have gone: "syncEmployment (calm []) ?d (employed_by [pip_idle 7] (d_id ?d)) [] = ([7], ?d\<lparr>d_employed := {||}\<rparr>, [])"
    by (simp add: syncEmployment_def d none calm_def)
  have "\<exists>f'. interleave ((leaving_fleet, []), [let_go_task (calm []) [pip_idle 7] 5 [(0, 1)] 0, OnHired_task (calm []) 0 7])
      ((f', [] @ [SubmitIntent (Hire 7 1), ReadClock] @ [CallEndShift (d_addr ?d) 1 7 5 ''no longer employed here'', SubmitIntent (EndEmployment 7)]),
       [Returns (), Returns ()]) \<and> 7 |\<notin>| d_employed (f_drivers f' ! 0)"
    by (rule conjunct1 [OF hire_undone_midway [where now = 0 and d = "?d\<lparr>d_employed := {||}\<rparr>"]])
       (use gone in \<open>auto simp: calm_walks d\<close>)
  then show ?thesis by (simp add: d)
qed

end
