(* ===== verification/PostgresLocks.thy ===== *)
theory PostgresLocks
  imports LedgerPostgres FleetFacts
begin

text \<open>
  The row locks of the database ledger (\<^verbatim>\<open>services/bank/internal/ledger/postgres.go\<close>). A transaction
  takes its locks one by one, in the order of its statements, and holds them until it ends:
  \<^verbatim>\<open>SELECT ... FOR UPDATE\<close> and \<^verbatim>\<open>UPDATE\<close> lock the row of an account, an \<^verbatim>\<open>INSERT\<close> of a primary key waits
  for a transaction that has inserted the same key. A lock held by another is waited for. The
  statements between two locks do not matter here: a state is what each transaction holds and what it
  still has to take. Transactions that take their locks in one order cannot block each other for good
  (locale \<open>lock_order\<close>); transfers and posts do, payroll batches do not.
\<close>

section \<open>The locks of each transaction\<close>

datatype row = AccountRow string | KeyRow string string u64 Kind

text \<open>
  What a transaction may lock, in order. The row of \<^verbatim>\<open>ensureAccount\<close> is the row of the statement that
  follows it; the journal has a fresh key for every row, so nobody waits for it.
\<close>

definition Transfer_locks :: "string \<Rightarrow> string \<Rightarrow> Kind \<Rightarrow> u64 \<Rightarrow> row list" where
  "Transfer_locks payer payee kind tick = map AccountRow (lockOrder payer payee) @ [KeyRow payer payee tick kind]"

definition Post_locks :: "string \<Rightarrow> string \<Rightarrow> row list" where
  "Post_locks payer payee = map AccountRow (lockOrder payer payee)"

definition BatchTransfer_locks :: "string \<Rightarrow> Credit list \<Rightarrow> Kind \<Rightarrow> u64 \<Rightarrow> row list" where
  "BatchTransfer_locks payer credits kind tick =
     AccountRow payer # map (\<lambda>c. AccountRow (cr_Payee c)) credits @ [KeyRow payer ''batch'' tick kind]"

section \<open>Waiting for locks\<close>

datatype 'l txn = Running "'l list" "'l list" | Ended

fun held :: "'l txn \<Rightarrow> 'l list" where
  "held (Running hs ls) = hs"
| "held Ended = []"

text \<open>A transaction takes its next lock unless another holds it; with all of them it ends, and lets go.\<close>

inductive lock_step :: "'l txn list \<Rightarrow> 'l txn list \<Rightarrow> bool" where
  takes: "i < length s \<Longrightarrow> s ! i = Running hs (l # ls) \<Longrightarrow> (\<forall>j < length s. j \<noteq> i \<longrightarrow> l \<notin> set (held (s ! j))) \<Longrightarrow>
    lock_step s (s[i := Running (l # hs) ls])"
| ends: "i < length s \<Longrightarrow> s ! i = Running hs [] \<Longrightarrow> lock_step s (s[i := Ended])"

text \<open>It may end before that, refused or failed, at any point.\<close>

inductive gives_up :: "'l txn list \<Rightarrow> 'l txn list \<Rightarrow> bool" where
  "i < length s \<Longrightarrow> s ! i = Running hs ls \<Longrightarrow> gives_up s (s[i := Ended])"

inductive_cases lock_stepE: "lock_step s s'"
inductive_cases gives_upE: "gives_up s s'"

definition lock_run :: "'l list list \<Rightarrow> 'l txn list \<Rightarrow> bool" where
  "lock_run lss s \<longleftrightarrow> (sup lock_step gives_up)\<^sup>*\<^sup>* (map (Running []) lss) s"

definition deadlocked :: "'l txn list \<Rightarrow> bool" where
  "deadlocked s \<longleftrightarrow> (\<exists>t \<in> set s. t \<noteq> Ended) \<and> (\<forall>s'. \<not> lock_step s s')"

fun txn_left :: "'l txn \<Rightarrow> nat" where
  "txn_left (Running hs ls) = Suc (length ls)"
| "txn_left Ended = 0"

definition steps_left :: "'l txn list \<Rightarrow> nat" where
  "steps_left s = sum_list (map txn_left s)"

lemma steps_left_update:
  "i < length s \<Longrightarrow> steps_left (s[i := t]) + txn_left (s ! i) = steps_left s + txn_left t"
  unfolding steps_left_def
  by (induction s arbitrary: i) (auto simp: nth_Cons split: nat.splits)

lemma lock_step_left: "lock_step s s' \<Longrightarrow> steps_left s = Suc (steps_left s')"
proof (erule lock_stepE)
  fix i hs l ls
  assume "s' = s[i := Running (l # hs) ls]" "i < length s" "s ! i = Running hs (l # ls)"
  with steps_left_update [of i s "Running (l # hs) ls"] show ?thesis by simp
next
  fix i hs
  assume "s' = s[i := Ended]" "i < length s" "s ! i = Running hs []"
  with steps_left_update [of i s Ended] show ?thesis by simp
qed

lemma steps_left_ended: "steps_left s = 0 \<longleftrightarrow> set s \<subseteq> {Ended}"
proof -
  have "txn_left t = 0 \<longleftrightarrow> t = Ended" for t :: "'a txn" by (cases t) auto
  then show ?thesis by (auto simp: steps_left_def)
qed

section \<open>One order for all\<close>

fun in_order :: "('l \<Rightarrow> 'l \<Rightarrow> bool) \<Rightarrow> 'l txn \<Rightarrow> bool" where
  "in_order before (Running hs ls) \<longleftrightarrow> sorted_wrt before (rev hs @ ls)"
| "in_order before Ended \<longleftrightarrow> True"

locale lock_order =
  fixes before :: "'l \<Rightarrow> 'l \<Rightarrow> bool"
  assumes irreflexive: "\<not> before l l"
    and transitive: "before l m \<Longrightarrow> before m n \<Longrightarrow> before l n"
begin

lemma last_one:
  assumes "finite L" and "L \<noteq> {}"
  shows "\<exists>m \<in> L. \<forall>l \<in> L. \<not> before m l"
  using assms
proof (induction rule: finite_ne_induct)
  case (singleton x)
  then show ?case by (simp add: irreflexive)
next
  case (insert x L)
  then obtain m where "m \<in> L" "\<forall>l \<in> L. \<not> before m l" by blast
  then show ?case by (cases "before m x") (use irreflexive transitive in blast)+
qed

lemma lock_step_in_order:
  "lock_step s s' \<or> gives_up s s' \<Longrightarrow> \<forall>t \<in> set s. in_order before t \<Longrightarrow> \<forall>t \<in> set s'. in_order before t"
proof (erule disjE)
  assume "lock_step s s'" and all: "\<forall>t \<in> set s. in_order before t"
  from this(1) show "\<forall>t \<in> set s'. in_order before t"
  proof (cases rule: lock_step.cases)
    case (takes i hs l ls)
    from all takes(2,3) have "in_order before (Running hs (l # ls))" by (metis nth_mem)
    then have "in_order before (Running (l # hs) ls)" by simp
    with all takes(1) show ?thesis by (auto dest!: set_update_subset_insert [THEN subsetD])
  next
    case (ends i hs)
    with all show ?thesis by (auto dest!: set_update_subset_insert [THEN subsetD])
  qed
next
  assume "gives_up s s'" and "\<forall>t \<in> set s. in_order before t"
  then show "\<forall>t \<in> set s'. in_order before t"
    by (auto elim!: gives_upE dest!: set_update_subset_insert [THEN subsetD])
qed

text \<open>
  Of the locks waited for take a last one. Its holder waits for nothing later, so it waits for nothing.
\<close>

lemma someone_moves:
  assumes all: "\<forall>t \<in> set s. in_order before t" and run: "\<exists>t \<in> set s. t \<noteq> Ended"
  shows "\<exists>s'. lock_step s s'"
proof (rule ccontr)
  assume stuck: "\<nexists>s'. lock_step s s'"
  define W where "W = {l. \<exists>hs ls. Running hs (l # ls) \<in> set s}"
  have waits: "\<exists>l ls. t = Running hs (l # ls)" if "t \<in> set s" "t = Running hs ls'" for t hs ls'
    using that stuck ends by (metis in_set_conv_nth neq_Nil_conv)
  have "W \<subseteq> (\<lambda>t. case t of Running hs ls \<Rightarrow> hd ls | Ended \<Rightarrow> undefined) ` set s"
    by (force simp: W_def image_iff)
  then have "finite W" by (rule finite_subset) simp
  moreover have "W \<noteq> {}"
    using run waits by (metis (mono_tags, lifting) W_def empty_iff mem_Collect_eq txn.exhaust)
  ultimately obtain m where m: "m \<in> W" and last: "\<forall>l \<in> W. \<not> before m l" using last_one by blast
  from m obtain i hs ls where i: "i < length s" "s ! i = Running hs (m # ls)" by (auto simp: W_def in_set_conv_nth)
  with stuck takes obtain j where j: "j < length s" "m \<in> set (held (s ! j))" by metis
  then obtain hs' ls' where h: "s ! j = Running hs' ls'" "m \<in> set hs'" by (cases "s ! j") auto
  with waits [OF nth_mem [OF j(1)]] obtain l' ls'' where l': "s ! j = Running hs' (l' # ls'')" by fastforce
  then have "l' \<in> W" using j(1) by (auto simp: W_def in_set_conv_nth)
  moreover have "before m l'"
    using all nth_mem [OF j(1)] h(2) l' by (auto simp: sorted_wrt_append)
  ultimately show False using last by blast
qed

lemma all_come_to_end:
  "\<forall>t \<in> set s. in_order before t \<Longrightarrow> \<exists>s'. (lock_step ^^ steps_left s) s s' \<and> set s' \<subseteq> {Ended}"
proof (induction "steps_left s" arbitrary: s)
  case 0
  then show ?case by (auto simp: steps_left_ended [symmetric])
next
  case (Suc n)
  then obtain s1 where s1: "lock_step s s1"
    using someone_moves [OF Suc.prems] steps_left_ended [of s] by fastforce
  with Suc.hyps(2) have n: "n = steps_left s1" by (simp add: lock_step_left)
  obtain s' where "(lock_step ^^ n) s1 s'" "set s' \<subseteq> {Ended}"
    using Suc.hyps(1) [OF n] lock_step_in_order Suc.prems s1 n by blast
  with s1 Suc.hyps(2) show ?case by (metis relpowp_Suc_I2)
qed

lemma no_deadlock:
  assumes "\<forall>ls \<in> set lss. sorted_wrt before ls" and "lock_run lss s"
  shows "\<not> deadlocked s \<and> (\<exists>s'. (lock_step ^^ steps_left s) s s' \<and> set s' \<subseteq> {Ended})"
proof -
  have "\<forall>t \<in> set s. in_order before t"
    using assms(2) unfolding lock_run_def
  proof (induction rule: rtranclp_induct)
    case base
    with assms(1) show ?case by auto
  qed (use lock_step_in_order in auto)
  then show ?thesis using someone_moves all_come_to_end by (auto simp: deadlocked_def)
qed

end

section \<open>The order of the rows\<close>

text \<open>Accounts by name, as \<^verbatim>\<open>lockOrder\<close> sorts them, then keys.\<close>

fun row_before :: "row \<Rightarrow> row \<Rightarrow> bool" where
  "row_before (AccountRow a) (AccountRow b) \<longleftrightarrow> a \<noteq> b \<and> string_le a b"
| "row_before (AccountRow a) (KeyRow p q t k) \<longleftrightarrow> True"
| "row_before (KeyRow p q t k) r \<longleftrightarrow> False"

lemma string_le_trans: "string_le a b \<Longrightarrow> string_le b c \<Longrightarrow> string_le a c"
proof (induction a b arbitrary: c rule: string_le.induct)
  case (3 x xs y ys)
  then show ?case by (cases c) (auto split: if_splits)
qed auto

lemma string_le_antisym: "string_le a b \<Longrightarrow> string_le b a \<Longrightarrow> a = b"
  by (induction a b rule: string_le.induct) (auto split: if_splits elim: string_le.elims)

lemma string_le_total: "string_le a b \<or> string_le b a"
proof (induction a b rule: string_le.induct)
  case (3 x xs y ys)
  then show ?case by (auto simp: not_less order.order_iff_strict)
qed auto

interpretation rows: lock_order row_before
proof
  show "\<not> row_before l l" for l by (cases l) auto
  show "row_before l n" if "row_before l m" "row_before m n" for l m n
    using that by (cases l; cases m; cases n) (auto dest: string_le_trans string_le_antisym)
qed

lemma lockOrder_sorted: "sorted_wrt row_before (map AccountRow (lockOrder p q))"
  using string_le_total [of p q] by (auto simp: lockOrder_def)

lemma transfers_and_posts_in_order:
  "sorted_wrt row_before (Transfer_locks p q k t)" "sorted_wrt row_before (Post_locks p q)"
  using lockOrder_sorted [of p q] by (auto simp: Transfer_locks_def Post_locks_def sorted_wrt_append)
section \<open>Who can block whom\<close>

text \<open>
  C14: Transfers and posts never block each other for good. Whatever accounts they name, in whichever
  direction, however many run at once, whoever gives up on the way: some transaction can always go on, and
  when each takes its locks as they come free all have ended after as many steps as there are locks and
  transactions left.
\<close>

theorem transfers_and_posts_never_deadlock:
  assumes "\<forall>ls \<in> set lss. (\<exists>p q k t. ls = Transfer_locks p q k t) \<or> (\<exists>p q. ls = Post_locks p q)"
    and "lock_run lss s"
  shows "\<not> deadlocked s \<and> (\<exists>s'. (lock_step ^^ steps_left s) s s' \<and> set s' \<subseteq> {Ended})"
  using assms transfers_and_posts_in_order by (intro rows.no_deadlock [of lss]) auto

text \<open>Two transfers between the same pair in opposite directions, the first of which holds a row.\<close>

theorem transfers_and_posts_never_deadlock_witness:
  "\<exists>s'. (lock_step ^^ 7) [Running [AccountRow ''a''] [AccountRow ''b'', KeyRow ''a'' ''b'' 1 ''WAGE''],
      Running [] [AccountRow ''a'', AccountRow ''b'', KeyRow ''b'' ''a'' 1 ''WAGE'']] s' \<and> set s' \<subseteq> {Ended}"
proof -
  let ?ls = "Transfer_locks ''a'' ''b'' ''WAGE'' 1" and ?ls' = "Transfer_locks ''b'' ''a'' ''WAGE'' 1"
  let ?s = "[Running [AccountRow ''a''] [AccountRow ''b'', KeyRow ''a'' ''b'' 1 ''WAGE''],
      Running [] [AccountRow ''a'', AccountRow ''b'', KeyRow ''b'' ''a'' 1 ''WAGE'']]"
  have ls: "?ls = [AccountRow ''a'', AccountRow ''b'', KeyRow ''a'' ''b'' 1 ''WAGE'']"
    "?ls' = [AccountRow ''a'', AccountRow ''b'', KeyRow ''b'' ''a'' 1 ''WAGE'']"
    by (simp_all add: Transfer_locks_def lockOrder_def)
  have "lock_step (map (Running []) [?ls, ?ls']) ?s"
    using takes [of 0 "map (Running []) [?ls, ?ls']"] by (auto simp: ls less_Suc_eq)
  then have "lock_run [?ls, ?ls'] ?s"
    unfolding lock_run_def by (intro r_into_rtranclp) simp
  from transfers_and_posts_never_deadlock [OF _ this] have "\<exists>s'. (lock_step ^^ steps_left ?s) ?s s' \<and> set s' \<subseteq> {Ended}"
    by auto
  moreover have "steps_left ?s = 7" by (simp add: steps_left_def)
  ultimately show ?thesis by (simp only:)
qed

text \<open>One of two transactions takes locks the other does not hold.\<close>

lemma takes_many:
  "set ls \<inter> set (held t) = {} \<Longrightarrow> lock_step\<^sup>*\<^sup>* [Running hs (ls @ ms), t] [Running (rev ls @ hs) ms, t]"
proof (induction ls arbitrary: hs)
  case (Cons l ls)
  have "lock_step [Running hs (l # ls @ ms), t] [Running (l # hs) (ls @ ms), t]"
    using takes [of 0 "[Running hs (l # ls @ ms), t]"] Cons.prems by (auto simp: less_Suc_eq)
  moreover have "lock_step\<^sup>*\<^sup>* [Running (l # hs) (ls @ ms), t] [Running (rev ls @ l # hs) ms, t]"
    using Cons by simp
  ultimately show ?case by (simp add: converse_rtranclp_into_rtranclp)
qed simp

lemma each_holds_what_the_other_wants:
  "l \<in> set hs' \<Longrightarrow> l' \<in> set hs \<Longrightarrow> deadlocked [Running hs (l # ls), Running hs' (l' # ls')]"
  by (auto simp: deadlocked_def less_Suc_eq nth_Cons' elim!: lock_stepE split: if_splits)

lemma payroll_locks:
  "BatchTransfer_locks (bq_Payer (payroll w t pays)) (bq_Credits (payroll w t pays)) k t' =
    AccountRow (workplaceAccount w) # map (\<lambda>pay. AccountRow (pipAccount (fst pay))) pays
      @ [KeyRow (workplaceAccount w) ''batch'' t' k]"
  by (simp add: BatchTransfer_locks_def payroll_def split_beta comp_def)

lemma purchase_locks:
  "Post_locks (pipAccount p) (workplaceAccount w) = [AccountRow (pipAccount p), AccountRow (workplaceAccount w)]"
  by (simp add: Post_locks_def lockOrder_def pipAccount_def workplaceAccount_def)

text \<open>
  C34: A payroll batch locks its workplace first and its pips after, in the order of the request, while
  the posting of a purchase locks the pip before the workplace. So a payroll that pays a pip and the
  posting of what that pip bought at the same workplace can reach a state in which each holds the row the
  other waits for, and neither can go on.
\<close>

theorem payroll_and_purchase_deadlock:
  assumes "p \<in> fst ` set pays"
  shows "\<exists>s. lock_run [BatchTransfer_locks (bq_Payer (payroll w t pays)) (bq_Credits (payroll w t pays)) KindWage t,
      Post_locks (pipAccount p) (workplaceAccount w)] s \<and> deadlocked s"
proof -
  let ?w = "AccountRow (workplaceAccount w)" and ?p = "AccountRow (pipAccount p)"
  let ?rows = "map (\<lambda>pay. AccountRow (pipAccount (fst pay))) pays" and ?key = "KeyRow (workplaceAccount w) ''batch'' t KindWage"
  have "?p \<in> set ?rows" using assms by force
  then obtain pre post where rows: "?rows = pre @ ?p # post" "?p \<notin> set pre" by (metis split_list_first)
  let ?s0 = "[Running [] (?w # ?rows @ [?key]), Running [] [?p, ?w]]"
  let ?s1 = "[Running [?w] (?rows @ [?key]), Running [] [?p, ?w]]"
  let ?s2 = "[Running [?w] (?rows @ [?key]), Running [?p] [?w]]"
  let ?s3 = "[Running (rev pre @ [?w]) (?p # post @ [?key]), Running [?p] [?w]]"
  have "lock_step ?s0 ?s1"
    using takes [of 0 ?s0] by (auto simp: less_Suc_eq)
  moreover have "lock_step ?s1 ?s2"
    using takes [of 1 ?s1] by (auto simp: less_Suc_eq pipAccount_def workplaceAccount_def)
  moreover have "lock_step\<^sup>*\<^sup>* ?s2 ?s3"
    using takes_many [of pre "Running [?p] [?w]" "[?w]" "?p # post @ [?key]"] rows by simp
  ultimately have "lock_step\<^sup>*\<^sup>* ?s0 ?s3" by (meson converse_rtranclp_into_rtranclp)
  then have "(sup lock_step gives_up)\<^sup>*\<^sup>* ?s0 ?s3" by (rule rtranclp_mono [THEN predicate2D, rotated]) simp
  then have "lock_run [BatchTransfer_locks (bq_Payer (payroll w t pays)) (bq_Credits (payroll w t pays)) KindWage t,
      Post_locks (pipAccount p) (workplaceAccount w)] ?s3"
    by (simp only: lock_run_def payroll_locks purchase_locks list.map)
  moreover have "deadlocked ?s3" by (rule each_holds_what_the_other_wants) simp_all
  ultimately show ?thesis by blast
qed

theorem payroll_and_purchase_deadlock_witness:
  "\<exists>s. lock_run [BatchTransfer_locks (bq_Payer (payroll 7 5 [(2, 30), (3, 30)])) (bq_Credits (payroll 7 5 [(2, 30), (3, 30)])) KindWage 5,
      Post_locks (pipAccount 3) (workplaceAccount 7)] s \<and> deadlocked s"
  by (rule payroll_and_purchase_deadlock) simp

end
