(* ===== verification/PostgresOverlaps.thy ===== *)
theory PostgresOverlaps
  imports PostgresProps
begin

text \<open>
  Movements of the database ledger that overlap (\<^verbatim>\<open>services/bank/internal/ledger/postgres.go\<close>).
  \<^verbatim>\<open>Transfer\<close> and \<^verbatim>\<open>BatchTransfer\<close> look their key up before they lock a row, so what they saw may be
  out of date when they have their locks: two deliveries of one movement can both have found nothing.
  A transaction is therefore cut in two, the look-up and all that happens under the row locks; any others may
  come between. The second part is one step: it reads and writes only rows it has locked, keys that
  nobody else inserts before it ends, and journal rows of its own.
\<close>

section \<open>Movements in two parts\<close>

datatype movement =
  Transfers string string i64 Kind u64
| Batches string "Credit list" Kind u64
| Posts string string string i64 Kind u64

text \<open>A movement with no other beside it; a post answers nothing.\<close>

fun movement_run :: "pg_env \<Rightarrow> pgdb \<Rightarrow> movement \<Rightarrow> Result option fallible \<times> pgdb" where
  "movement_run e d (Transfers p q n k t) = map_prod (map_sum id Some) id (Postgres_Transfer e d p q n k t)"
| "movement_run e d (Batches p cs k t) = map_prod (map_sum id Some) id (Postgres_BatchTransfer e d p cs k t)"
| "movement_run e d (Posts i p q n k t) = map_prod (map_sum id (\<lambda>_. None)) id (Postgres_Post e d i p q n k t)"

fun looks_up :: "movement \<Rightarrow> Result option tx" where
  "looks_up (Transfers p q n k t) = lookupIdempotent p q t k"
| "looks_up (Batches p cs k t) = lookupIdempotent p ''batch'' t k"
| "looks_up (Posts i p q n k t) = tx_return None"

text \<open>The rest of a transaction that has begun and made \<open>i\<close> statements.\<close>

definition run_from :: "pg_env \<Rightarrow> nat \<Rightarrow> pgdb \<Rightarrow> ('a \<times> bool) tx \<Rightarrow> 'a fallible \<times> pgdb" where
  "run_from e i d body = run_tx e d (\<lambda>f _. body f i)"

fun under_locks :: "pg_env \<Rightarrow> nat \<Rightarrow> pgdb \<Rightarrow> movement \<Rightarrow> Result option fallible \<times> pgdb" where
  "under_locks e i d (Transfers p q n k t) =
     map_prod (map_sum id Some) id (run_from e i d (transfer_locked_tx (new_uuid e) p q n k t))"
| "under_locks e i d (Batches p cs k t) =
     map_prod (map_sum id Some) id (run_from e i d (batch_locked_tx (new_uuid e) p cs k t))"
| "under_locks e i d (Posts tid p q n k t) =
     map_prod (map_sum id (\<lambda>_. None)) id (run_from e i d (post_tx tid p q n k t))"

section \<open>Overlapping\<close>

text \<open>A movement has been asked for, has found its key unused, or is answered.\<close>

datatype flight = Asked pg_env movement | Looked pg_env nat movement | Answered "Result option fallible"

inductive overlap_step :: "pgdb \<times> flight list \<Rightarrow> pgdb \<times> flight list \<Rightarrow> bool" where
  not_begun: "i < length fs \<Longrightarrow> fs ! i = Asked e m \<Longrightarrow> begin_error e = Some er \<Longrightarrow>
    overlap_step (d, fs) (d, fs[i := Answered (Inl er)])"
| look_failed: "i < length fs \<Longrightarrow> fs ! i = Asked e m \<Longrightarrow> begin_error e = None \<Longrightarrow>
    looks_up m (stmt_errors e) 0 d = Inl er \<Longrightarrow> overlap_step (d, fs) (d, fs[i := Answered (Inl er)])"
| found: "i < length fs \<Longrightarrow> fs ! i = Asked e m \<Longrightarrow> begin_error e = None \<Longrightarrow>
    looks_up m (stmt_errors e) 0 d = Inr (Some r, j, d1) \<Longrightarrow> overlap_step (d, fs) (d, fs[i := Answered (Inr (Some r))])"
| not_found: "i < length fs \<Longrightarrow> fs ! i = Asked e m \<Longrightarrow> begin_error e = None \<Longrightarrow>
    looks_up m (stmt_errors e) 0 d = Inr (None, j, d1) \<Longrightarrow> overlap_step (d, fs) (d, fs[i := Looked e j m])"
| finished: "i < length fs \<Longrightarrow> fs ! i = Looked e j m \<Longrightarrow> under_locks e j d m = (a, d') \<Longrightarrow>
    overlap_step (d, fs) (d', fs[i := Answered a])"

inductive_cases overlap_stepE: "overlap_step (d, fs) x"

text \<open>The movements one after another, with their answers.\<close>

fun serially :: "pgdb \<Rightarrow> (pg_env \<times> movement) list \<Rightarrow> Result option fallible list \<times> pgdb" where
  "serially d [] = ([], d)"
| "serially d ((e, m) # ms) =
     (let (a, d1) = movement_run e d m; (as, d2) = serially d1 ms in (a # as, d2))"

lemma serially_snoc:
  "serially d ms = (as, d1) \<Longrightarrow> movement_run e d1 m = (a, d2) \<Longrightarrow> serially d (ms @ [(e, m)]) = (as @ [a], d2)"
  by (induction d ms arbitrary: as rule: serially.induct) (auto split: prod.splits)

lemma serially_length: "serially d ms = (as, d1) \<Longrightarrow> length as = length ms"
  by (induction d ms arbitrary: as rule: serially.induct) (auto split: prod.splits)

section \<open>What a transaction does to the keys\<close>

text \<open>
  \<open>leaves_keys\<close>: the statements touch no recorded key. \<open>claims_key\<close>: a body that reaches its commit found
  the key free, a body that returns without commit refuses.
\<close>

definition leaves_keys :: "'a tx \<Rightarrow> bool" where
  "leaves_keys m \<longleftrightarrow> (\<forall>f i d x j d'. m f i d = Inr (x, j, d') \<longrightarrow> idempotency d' = idempotency d)"

definition claims_key :: "string \<times> string \<times> u64 \<times> Kind \<Rightarrow> (Result \<times> bool) tx \<Rightarrow> bool" where
  "claims_key key m \<longleftrightarrow> (\<forall>f i d r c j d'. m f i d = Inr ((r, c), j, d') \<longrightarrow>
     (if c then fmlookup (idempotency d) key = None else \<not> OK r))"

named_theorems keys \<open>what the pieces of a transaction do to the keys\<close>

lemma leaves_keysD: "leaves_keys m \<Longrightarrow> m f i d = Inr (x, j, d') \<Longrightarrow> idempotency d' = idempotency d"
  by (auto simp: leaves_keys_def)

lemma leaves_return [keys]: "leaves_keys (tx_return x)"
  by (simp add: leaves_keys_def tx_return_def)

lemma leaves_bind [keys]: "leaves_keys m \<Longrightarrow> (\<And>x. leaves_keys (g x)) \<Longrightarrow> leaves_keys (tx_bind m g)"
  unfolding leaves_keys_def tx_bind_def by (fastforce split: sum.splits prod.splits)

lemma leaves_stmt:
  "(\<And>d x d'. q d = Inr (x, d') \<Longrightarrow> idempotency d' = idempotency d) \<Longrightarrow> leaves_keys (stmt q)"
  by (auto simp: leaves_keys_def stmt_def split: option.splits sum.splits)

lemma sql_journal_keys: "sql_journal skip rs c d = Inr (x, d') \<Longrightarrow> idempotency d' = idempotency d"
  by (induction skip rs c d rule: sql_journal.induct) (auto split: if_splits)

lemma leaves_stmts [keys]:
  "leaves_keys (ensureAccount a)" "leaves_keys (lockAccount a)" "leaves_keys (stmt (sql_add n a))"
  "leaves_keys (stmt (sql_sub n a))" "leaves_keys (stmt (sql_journal skip rs c))"
  by (auto simp: ensureAccount_def lockAccount_def sql_ensure_def sql_lock_def sql_add_def sql_sub_def
      intro!: leaves_stmt elim: sql_journal_keys split: option.splits if_splits)

lemma leaves_lock_all [keys]: "leaves_keys (lock_all as bs)"
  by (induction as bs rule: lock_all.induct) (simp_all add: keys)

lemma leaves_credit_all [keys]: "leaves_keys (credit_all i k t cs)"
  by (induction cs) (simp_all add: keys)

lemma leaves_post [keys]: "leaves_keys (post_tx i p q n k t)"
  by (simp add: post_tx_def keys)

lemma claims_bind [keys]: "leaves_keys m \<Longrightarrow> (\<And>x. claims_key key (g x)) \<Longrightarrow> claims_key key (tx_bind m g)"
  unfolding leaves_keys_def claims_key_def tx_bind_def by (fastforce split: sum.splits prod.splits)

lemma claims_refused [keys]: "claims_key key (tx_return (insufficient b, False))"
  by (auto simp: claims_key_def tx_return_def insufficient_def)

lemma claims_recorded [keys]:
  "claims_key (p, q, t, k) (tx_bind (recordIdempotent p q t k r) (\<lambda>_. tx_return (r', True)))"
  by (auto simp: claims_key_def tx_bind_def tx_return_def recordIdempotent_def stmt_def sql_record_idempotent_def
      split: option.splits sum.splits if_splits)

lemma claims_transfer: "claims_key (p, q, t, k) (transfer_locked_tx i p q n k t)"
  by (simp add: transfer_locked_tx_def Let_def keys)

lemma claims_batch: "claims_key (p, ''batch'', t, k) (batch_locked_tx i p cs k t)"
  by (simp add: batch_locked_tx_def Let_def keys)

text \<open>A second delivery that looked too early.\<close>

lemma claims_too_late:
  assumes "claims_key key m" and "fmlookup (idempotency d) key \<noteq> None" and "run_from e i d m = (a, d')"
  shows "d' = d \<and> (\<forall>r. a = Inr r \<longrightarrow> \<not> OK r)"
  using assms unfolding claims_key_def run_from_def run_tx_def
  by (auto split: option.splits sum.splits prod.splits if_splits commit_outcome.splits) (metis option.distinct(1))+
section \<open>The two parts put together\<close>

fun movement_key :: "movement \<Rightarrow> (string \<times> string \<times> u64 \<times> Kind) option" where
  "movement_key (Transfers p q n k t) = Some (p, q, t, k)"
| "movement_key (Batches p cs k t) = Some (p, ''batch'', t, k)"
| "movement_key (Posts i p q n k t) = None"

definition recorded :: "pgdb \<Rightarrow> movement \<Rightarrow> Result option" where
  "recorded d m = Option.bind (movement_key m) (fmlookup (idempotency d))"

lemmas looks = lookupIdempotent_def stmt_def sql_lookup_idempotent_def tx_return_def

lemma looks_up_found: "looks_up m f i d = Inr (Some r, j, d1) \<Longrightarrow> recorded d m = Some r"
  by (cases m) (auto simp: looks recorded_def split: option.splits sum.splits if_splits)

text \<open>Who found nothing once finds nothing wherever nothing is recorded.\<close>

lemma looks_up_again:
  "looks_up m f i d0 = Inr (None, j, d1) \<Longrightarrow> recorded d m = None \<Longrightarrow> looks_up m f i d = Inr (None, j, d)"
  by (cases m) (auto simp: looks recorded_def split: option.splits sum.splits if_splits)

lemma run_from_look:
  "begin_error e = None \<Longrightarrow> m (stmt_errors e) 0 d = Inr (x, j, d) \<Longrightarrow>
    run_tx e d (tx_bind m g) = run_from e j d (g x)"
  by (simp add: run_from_def run_tx_def tx_bind_def)

lemma run_from_start: "run_from e 0 d body = run_tx e d body"
  by (simp add: run_from_def run_tx_def)

lemma under_locks_in_time:
  assumes "begin_error e = None" and "looks_up m (stmt_errors e) 0 d0 = Inr (None, j, d1)" and "recorded d m = None"
  shows "under_locks e j d m = movement_run e d m"
  using assms(1) looks_up_again [OF assms(2,3)]
  by (cases m)
     (simp_all add: Postgres_Transfer_def Postgres_BatchTransfer_def Postgres_Post_def transfer_tx_def batch_tx_def
       run_from_look run_from_start tx_return_def)

lemma under_locks_too_late:
  assumes "recorded d m \<noteq> None" and "under_locks e j d m = (a, d')"
  shows "d' = d \<and> (\<forall>r. a = Inr r \<longrightarrow> (\<exists>res. r = Some res \<and> \<not> OK res))"
proof (cases m)
  case (Transfers p q n k t)
  with assms obtain a0 where a0: "run_from e j d (transfer_locked_tx (new_uuid e) p q n k t) = (a0, d')" "a = map_sum id Some a0"
    by (auto simp: map_prod_def split: prod.splits)
  from claims_too_late [OF claims_transfer _ a0(1)] assms(1) Transfers a0(2) show ?thesis
    by (cases a0) (auto simp: recorded_def)
next
  case (Batches p cs k t)
  with assms obtain a0 where a0: "run_from e j d (batch_locked_tx (new_uuid e) p cs k t) = (a0, d')" "a = map_sum id Some a0"
    by (auto simp: map_prod_def split: prod.splits)
  from claims_too_late [OF claims_batch _ a0(1)] assms(1) Batches a0(2) show ?thesis
    by (cases a0) (auto simp: recorded_def)
qed (use assms(1) in \<open>simp add: recorded_def\<close>)

text \<open>A movement keeps what is recorded, and what it accepts it has recorded.\<close>

definition records :: "pgdb \<Rightarrow> pgdb \<Rightarrow> bool" where
  "records d d' \<longleftrightarrow> (\<forall>key r. fmlookup (idempotency d) key = Some r \<longrightarrow> fmlookup (idempotency d') key = Some r)"

lemma recorded_stays: "records d d' \<Longrightarrow> recorded d m = Some r \<Longrightarrow> recorded d' m = Some r"
  by (auto simp: records_def recorded_def split: option.splits Option.bind_splits)

lemma records_update:
  "fmlookup (idempotency d) key = None \<Longrightarrow> idempotency d' = fmupd key r (idempotency d) \<Longrightarrow> records d d'"
  by (auto simp: records_def)

lemma Postgres_Post_keys: "Postgres_Post e d i p q n k t = (a, d') \<Longrightarrow> idempotency d' = idempotency d"
  unfolding Postgres_Post_def run_tx_def
  by (auto split: option.splits sum.splits prod.splits if_splits commit_outcome.splits
      dest!: leaves_keysD [OF leaves_post])

lemma movement_run_records:
  assumes keep: "keep_pg d" and run: "movement_run e d m = (a, d')"
  shows "keep_pg d' \<and> records d d' \<and> (\<forall>res. a = Inr (Some res) \<longrightarrow> OK res \<longrightarrow> recorded d' m = Some res)"
proof (cases m)
  case (Transfers p q n k t)
  with run obtain a0 where a0: "Postgres_Transfer e d p q n k t = (a0, d')" "a = map_sum id Some a0"
    by (auto simp: map_prod_def split: prod.splits)
  from keep a0(1) show ?thesis
  proof (cases rule: Postgres_Transfer_outcome)
    case unchanged
    with keep a0(2) Transfers show ?thesis by (cases a0) (auto simp: records_def recorded_def)
  next
    case booked
    with a0(2) Transfers show ?thesis by (auto simp: recorded_def intro: records_update)
  qed
next
  case (Batches p cs k t)
  with run obtain a0 where a0: "Postgres_BatchTransfer e d p cs k t = (a0, d')" "a = map_sum id Some a0"
    by (auto simp: map_prod_def split: prod.splits)
  show ?thesis
  proof (cases a0)
    case (Inl er)
    from keep a0(1) show ?thesis
      by (cases rule: Postgres_BatchTransfer_outcome)
         (use keep a0(2) Inl in \<open>auto simp: records_def intro: records_update [unfolded records_def]\<close>)
  next
    case (Inr res)
    from keep a0(1) [unfolded Inr] show ?thesis
      by (cases rule: Postgres_BatchTransfer_answered)
         (use keep a0(2) Inr Batches in \<open>auto simp: records_def recorded_def insufficient_def\<close>)
  qed
next
  case (Posts i p q n k t)
  with run obtain a0 where a0: "Postgres_Post e d i p q n k t = (a0, d')" "a = map_sum id (\<lambda>_. None) a0"
    by (auto simp: map_prod_def split: prod.splits)
  from Postgres_Post_keys [OF a0(1)] Postgres_Post_outcome [OF keep a0(1)] keep a0(2) show ?thesis
    by (cases a0) (auto simp: records_def)
qed
section \<open>One after another after all\<close>

text \<open>
  The account of an overlapping run: the flights \<open>js\<close> took effect in this order, as if with no other beside
  them; every other flight has changed nothing.
\<close>

definition account ::
  "pgdb \<Rightarrow> (pg_env \<times> movement) list \<Rightarrow> nat list \<Rightarrow> Result option fallible list \<Rightarrow> pgdb \<Rightarrow> flight list \<Rightarrow> bool"
where
  "account d0 ms js as d fs \<longleftrightarrow> distinct js \<and> set js \<subseteq> {..<length ms} \<and> length fs = length ms
     \<and> serially d0 (map ((!) ms) js) = (as, d) \<and> map ((!) fs) js = map Answered as"

fun sound_flight :: "pgdb \<Rightarrow> pg_env \<times> movement \<Rightarrow> flight \<Rightarrow> bool" where
  "sound_flight d em (Asked e m) \<longleftrightarrow> em = (e, m)"
| "sound_flight d em (Looked e j m) \<longleftrightarrow> em = (e, m) \<and> begin_error e = None
     \<and> (\<exists>d0 d1. looks_up m (stmt_errors e) 0 d0 = Inr (None, j, d1))"
| "sound_flight d em (Answered a) \<longleftrightarrow> (\<forall>res. a = Inr (Some res) \<longrightarrow> OK res \<longrightarrow> recorded d (snd em) = Some res)"

text \<open>A flight that is not answered, or answered without a post's silence, need not be in the account.\<close>

definition overlap_inv :: "pgdb \<Rightarrow> (pg_env \<times> movement) list \<Rightarrow> pgdb \<times> flight list \<Rightarrow> bool" where
  "overlap_inv d0 ms = (\<lambda>(d, fs). keep_pg d \<and> length fs = length ms
     \<and> (\<forall>i < length ms. sound_flight d (ms ! i) (fs ! i))
     \<and> (\<exists>js as. account d0 ms js as d fs \<and> (\<forall>i < length ms. fs ! i = Answered (Inr None) \<longrightarrow> i \<in> set js)))"

lemma sound_flight_stays: "records d d' \<Longrightarrow> sound_flight d em f \<Longrightarrow> sound_flight d' em f"
  by (cases f) (auto dest: recorded_stays)

lemma account_answers:
  assumes "account d0 ms js as d fs" and "i < length fs" and "\<forall>a. fs ! i \<noteq> Answered a"
  shows "i \<notin> set js"
proof
  assume "i \<in> set js"
  then have "fs ! i \<in> set (map ((!) fs) js)" by simp
  with assms(1,3) show False unfolding account_def by auto
qed

lemma account_update:
  "account d0 ms js as d fs \<Longrightarrow> i \<notin> set js \<Longrightarrow> account d0 ms js as d (fs[i := f])"
proof -
  assume acc: "account d0 ms js as d fs" and new: "i \<notin> set js"
  from new have "map ((!) (fs[i := f])) js = map ((!) fs) js" by (auto intro!: nth_list_update_neq)
  with acc show ?thesis by (simp add: account_def)
qed

lemma post_answers_update:
  "\<forall>i < n. fs ! i = Answered (Inr None) \<longrightarrow> i \<in> A \<Longrightarrow> f \<noteq> Answered (Inr None) \<or> i \<in> A \<Longrightarrow> i < length fs \<Longrightarrow>
    \<forall>k < n. fs[i := f] ! k = Answered (Inr None) \<longrightarrow> k \<in> A"
  by (metis nth_list_update)

text \<open>A flight that changes nothing now leaves the account as it is.\<close>

lemma overlap_inv_quiet:
  assumes inv: "overlap_inv d0 ms (d, fs)" and i: "i < length fs" "\<forall>a. fs ! i \<noteq> Answered a"
    and f: "sound_flight d (ms ! i) f" "f \<noteq> Answered (Inr None)"
  shows "overlap_inv d0 ms (d, fs[i := f])"
proof -
  from inv obtain js as where acc: "account d0 ms js as d fs"
    and posts: "\<forall>i < length ms. fs ! i = Answered (Inr None) \<longrightarrow> i \<in> set js"
    by (auto simp: overlap_inv_def)
  from account_update [OF acc account_answers [OF acc i]] have "account d0 ms js as d (fs[i := f])" .
  moreover have "\<forall>k < length ms. fs[i := f] ! k = Answered (Inr None) \<longrightarrow> k \<in> set js"
    using posts f(2) i(1) by (intro post_answers_update) auto
  moreover have "\<forall>k < length ms. sound_flight d (ms ! k) (fs[i := f] ! k)"
    using inv f(1) i(1) by (simp add: overlap_inv_def nth_list_update)
  ultimately show ?thesis
    using inv unfolding overlap_inv_def by auto
qed

text \<open>A flight that finishes in time is the next of the account.\<close>

lemma overlap_inv_run:
  assumes inv: "overlap_inv d0 ms (d, fs)" and i: "i < length fs" "\<forall>a. fs ! i \<noteq> Answered a"
    and run: "movement_run e d m = (a, d')" and em: "ms ! i = (e, m)"
  shows "overlap_inv d0 ms (d', fs[i := Answered a])"
proof -
  from inv obtain js as where acc: "account d0 ms js as d fs"
    and posts: "\<forall>i < length ms. fs ! i = Answered (Inr None) \<longrightarrow> i \<in> set js"
    and keep: "keep_pg d" and len: "length fs = length ms"
    by (auto simp: overlap_inv_def)
  note new = account_answers [OF acc i]
  note rec = movement_run_records [OF keep run]
  from account_update [OF acc new, of "Answered a"] have "account d0 ms js as d (fs[i := Answered a])" .
  then have "account d0 ms (js @ [i]) (as @ [a]) d' (fs[i := Answered a])"
    using new i(1) len run em by (auto simp: account_def intro: serially_snoc)
  moreover have "\<forall>k < length ms. fs[i := Answered a] ! k = Answered (Inr None) \<longrightarrow> k \<in> set (js @ [i])"
    using posts i(1) by (intro post_answers_update) auto
  moreover have "\<forall>k < length ms. sound_flight d' (ms ! k) (fs[i := Answered a] ! k)"
    using inv rec em i(1) by (auto simp: overlap_inv_def nth_list_update intro: sound_flight_stays)
  ultimately show ?thesis
    using rec len unfolding overlap_inv_def by auto
qed

lemma overlap_inv_sound: "overlap_inv d0 ms (d, fs) \<Longrightarrow> i < length fs \<Longrightarrow> sound_flight d (ms ! i) (fs ! i)"
  by (simp add: overlap_inv_def)

lemma asked_flight: "overlap_inv d0 ms (d, fs) \<Longrightarrow> i < length fs \<Longrightarrow> fs ! i = Asked e m \<Longrightarrow> ms ! i = (e, m)"
  by (drule (1) overlap_inv_sound) simp

lemma overlap_inv_step: "overlap_step x y \<Longrightarrow> overlap_inv d0 ms x \<Longrightarrow> overlap_inv d0 ms y"
proof (induction rule: overlap_step.induct)
  case (not_begun i fs e m er d)
  then show ?case by (intro overlap_inv_quiet) auto
next
  case (look_failed i fs e m d er)
  then show ?case by (intro overlap_inv_quiet) auto
next
  case (found i fs e m d r j d1)
  have "ms ! i = (e, m)" by (rule asked_flight [OF found(5,1,2)])
  with found looks_up_found [OF found(4)] show ?case by (intro overlap_inv_quiet) auto
next
  case (not_found i fs e m d j d1)
  have "ms ! i = (e, m)" by (rule asked_flight [OF not_found(5,1,2)])
  with not_found show ?case by (intro overlap_inv_quiet) auto
next
  case (finished i fs e j m d a d')
  have "sound_flight d (ms ! i) (Looked e j m)" using overlap_inv_sound [OF finished(4,1)] finished(2) by simp
  then obtain d0' d1 where em: "ms ! i = (e, m)" "begin_error e = None"
    "looks_up m (stmt_errors e) 0 d0' = Inr (None, j, d1)" by auto
  show ?case
  proof (cases "recorded d m = None")
    case True
    from under_locks_in_time [OF em(2,3) True] finished(3) have "movement_run e d m = (a, d')" by simp
    with finished em(1) show ?thesis by (intro overlap_inv_run) auto
  next
    case False
    from under_locks_too_late [OF False finished(3)]
    have d': "d' = d" and a: "\<And>r. a = Inr r \<Longrightarrow> \<exists>res. r = Some res \<and> \<not> OK res" by auto
    have "overlap_inv d0 ms (d, fs[i := Answered a])"
    proof (rule overlap_inv_quiet [OF finished(4,1)])
      show "sound_flight d (ms ! i) (Answered a)" using a by auto
      show "Answered a \<noteq> Answered (Inr None)" using a by auto
    qed (simp add: finished(2))
    with d' show ?thesis by simp
  qed
qed

lemma overlap_inv_reached:
  assumes "keep_pg d" and "overlap_step\<^sup>*\<^sup>* (d, map (\<lambda>(e, m). Asked e m) ms) x"
  shows "overlap_inv d ms x"
  using assms(2)
proof (induction rule: rtranclp_induct)
  case base
  have "account d ms [] [] d (map (\<lambda>(e, m). Asked e m) ms)" by (simp add: account_def)
  with assms(1) show ?case by (auto simp: overlap_inv_def split: prod.splits)
qed (rule overlap_inv_step)

text \<open>Two deliveries that have both looked before the first is booked.\<close>

lemma both_look_first:
  assumes "begin_error e = None" "looks_up m (stmt_errors e) 0 d = Inr (None, i, d)" "under_locks e i d m = (a, d1)"
    and "begin_error e' = None" "looks_up m' (stmt_errors e') 0 d = Inr (None, j, d)" "under_locks e' j d1 m' = (a', d2)"
  shows "overlap_step\<^sup>*\<^sup>* (d, [Asked e m, Asked e' m']) (d2, [Answered a, Answered a'])"
proof -
  have "overlap_step (d, [Asked e m, Asked e' m']) (d, [Looked e i m, Asked e' m'])"
    using not_found [of 0 "[Asked e m, Asked e' m']" e m d i d] assms(1,2) by simp
  moreover have "overlap_step (d, [Looked e i m, Asked e' m']) (d, [Looked e i m, Looked e' j m'])"
    using not_found [of 1 "[Looked e i m, Asked e' m']" e' m' d j d] assms(4,5) by simp
  moreover have "overlap_step (d, [Looked e i m, Looked e' j m']) (d1, [Answered a, Looked e' j m'])"
    using finished [of 0 "[Looked e i m, Looked e' j m']" e i m d a d1] assms(3) by simp
  moreover have "overlap_step (d1, [Answered a, Looked e' j m']) (d2, [Answered a, Answered a'])"
    using finished [of 1 "[Answered a, Looked e' j m']" e' j m' d1 a' d2] assms(6) by simp
  ultimately show ?thesis by (meson converse_rtranclp_into_rtranclp rtranclp.rtrancl_refl)
qed

definition issued :: movement where
  "issued = Transfers TreasuryAccount ''pip:1'' 100 KindIssuance 1"

lemma issued_looks_up:
  "looks_up issued (stmt_errors (clean_env i)) 0 emptyDB = Inr (None, 1, emptyDB)" "begin_error (clean_env i) = None"
  by (simp_all add: issued_def looks clean_env_def tick_ok_def) (simp add: emptyDB_def)

text \<open>The second delivery meets the key of the first.\<close>

lemma issued_twice:
  obtains d1 where "under_locks (clean_env ''u1'') 1 emptyDB issued = (Inr (Some (accepted (- 100))), d1)"
    "under_locks (clean_env ''u2'') 1 d1 issued = (Inl ''duplicate key value violates unique constraint'', d1)"
    "d1 = snd (Postgres_Transfer (clean_env ''u1'') emptyDB TreasuryAccount ''pip:1'' 100 KindIssuance 1)"
proof -
  let ?d1 = "snd (under_locks (clean_env ''u1'') 1 emptyDB issued)"
  have "under_locks (clean_env ''u1'') 1 emptyDB issued = (Inr (Some (accepted (- 100))), ?d1)"
    by (simp add: issued_def run_from_def transfer_locked_tx_def tx_eval
        clean_env_def TreasuryAccount_def emptyDB_def KindIssuance_def getz_def entry_def)
  moreover have "under_locks (clean_env ''u2'') 1 ?d1 issued = (Inl ''duplicate key value violates unique constraint'', ?d1)"
    by (simp add: issued_def run_from_def transfer_locked_tx_def tx_eval
        clean_env_def TreasuryAccount_def emptyDB_def KindIssuance_def getz_def entry_def)
  moreover have "?d1 = snd (Postgres_Transfer (clean_env ''u1'') emptyDB TreasuryAccount ''pip:1'' 100 KindIssuance 1)"
  proof -
    have "recorded emptyDB issued = None" by (simp add: recorded_def issued_def) (simp add: emptyDB_def)
    from under_locks_in_time [OF issued_looks_up(2,1) this] show ?thesis by (simp add: issued_def)
  qed
  ultimately show ?thesis by (rule that)
qed

lemma issued_overlap:
  "overlap_step\<^sup>*\<^sup>* (emptyDB, [Asked (clean_env ''u1'') issued, Asked (clean_env ''u2'') issued])
    (snd (Postgres_Transfer (clean_env ''u1'') emptyDB TreasuryAccount ''pip:1'' 100 KindIssuance 1),
     [Answered (Inr (Some (accepted (- 100)))), Answered (Inl ''duplicate key value violates unique constraint'')])"
  by (rule issued_twice) (use both_look_first [OF issued_looks_up(2,1) _ issued_looks_up(2,1)] in blast)

text \<open>
  C8: Overlapping is harmless. However many transfers, batches and posts of the database ledger overlap,
  whatever fails in them, there is an order of some of them such that the tables are what these movements leave
  one after another and each of these got the answer it gets there. Of the others none has changed anything: one
  that was answered with an acceptance was answered the result recorded for its key. No post is left out
  that was answered without an error.
\<close>

theorem overlapping_movements_serialise:
  assumes "keep_pg d" and "overlap_step\<^sup>*\<^sup>* (d, map (\<lambda>(e, m). Asked e m) ms) (d', fs)"
  shows "\<exists>js as. distinct js \<and> set js \<subseteq> {..<length ms} \<and> serially d (map ((!) ms) js) = (as, d')
    \<and> map ((!) fs) js = map Answered as
    \<and> (\<forall>i < length ms. \<forall>res. fs ! i = Answered (Inr (Some res)) \<and> OK res \<longrightarrow> recorded d' (snd (ms ! i)) = Some res)
    \<and> (\<forall>i < length ms. fs ! i = Answered (Inr None) \<longrightarrow> i \<in> set js)"
proof -
  from overlap_inv_reached [OF assms] have inv: "overlap_inv d ms (d', fs)" .
  then obtain js as where "account d ms js as d' fs" "\<forall>i < length ms. fs ! i = Answered (Inr None) \<longrightarrow> i \<in> set js"
    by (auto simp: overlap_inv_def)
  moreover have "recorded d' (snd (ms ! i)) = Some res"
    if "i < length ms" "fs ! i = Answered (Inr (Some res))" "OK res" for i res
    using overlap_inv_sound [OF inv, of i] that inv by (simp add: overlap_inv_def)
  ultimately show ?thesis unfolding account_def by blast
qed

theorem overlapping_movements_serialise_witness:
  "\<exists>js as. set js \<subseteq> {..<2} \<and> serially emptyDB (map ((!) [(clean_env ''u1'', issued), (clean_env ''u2'', issued)]) js) =
    (as, snd (Postgres_Transfer (clean_env ''u1'') emptyDB TreasuryAccount ''pip:1'' 100 KindIssuance 1))"
proof -
  have "overlap_step\<^sup>*\<^sup>* (emptyDB, map (\<lambda>(e, m). Asked e m) [(clean_env ''u1'', issued), (clean_env ''u2'', issued)])
    (snd (Postgres_Transfer (clean_env ''u1'') emptyDB TreasuryAccount ''pip:1'' 100 KindIssuance 1),
     [Answered (Inr (Some (accepted (- 100)))), Answered (Inl ''duplicate key value violates unique constraint'')])"
    using issued_overlap by simp
  from overlapping_movements_serialise [OF keep_pg_emptyDB this] show ?thesis by (auto simp: numeral_2_eq_2)
qed

text \<open>Deliveries of one transfer, one after another, are the attempts of a caller that retries.\<close>

lemma serially_attempts:
  "snd (serially d (map (\<lambda>e. (e, Transfers p q n k t)) es)) = attempts PostgresLedger es p q n k t d"
  by (induction es arbitrary: d) (simp_all add: attempts_def PostgresLedger_def split_beta)

text \<open>
  C5: A transfer delivered several times at once pays once. Even when all deliveries have looked before any
  has booked, and each may fail or lose its answer anywhere, the money has moved not at all, and nobody was
  told that it has, or exactly once, under one transfer id, and every acceptance is the one of that booking.
\<close>

theorem overlapping_deliveries_pay_once:
  assumes "keep_pg d" and "fmlookup (idempotency d) (p, q, t, k) = None"
    and run: "overlap_step\<^sup>*\<^sup>* (d, map (\<lambda>e. Asked e (Transfers p q n k t)) es) (d', fs)"
  shows "d' = d \<and> (\<forall>res. Answered (Inr (Some res)) \<in> set fs \<longrightarrow> \<not> OK res)
    \<or> (\<exists>i \<in> new_uuid ` set es. books (getz (accounts d)) (journal_of d) (transfer_rows i p q n k t)
          (getz (accounts d')) (journal_of d'))
      \<and> (\<forall>res. Answered (Inr (Some res)) \<in> set fs \<longrightarrow> OK res \<longrightarrow> res = accepted (getz (accounts d) p - n))"
proof -
  let ?m = "Transfers p q n k t"
  let ?ms = "map (\<lambda>e. (e, ?m)) es"
  from run have "overlap_step\<^sup>*\<^sup>* (d, map (\<lambda>(e, m). Asked e m) ?ms) (d', fs)" by (simp add: comp_def)
  from overlap_inv_reached [OF assms(1) this] have inv: "overlap_inv d ?ms (d', fs)" .
  then obtain js as where js: "set js \<subseteq> {..<length es}" "serially d (map ((!) ?ms) js) = (as, d')"
    by (auto simp: overlap_inv_def account_def)
  have "map ((!) ?ms) js = map (\<lambda>e. (e, ?m)) (map ((!) es) js)" using js(1) by auto
  with js(2) have d': "d' = attempts PostgresLedger (map ((!) es) js) p q n k t d"
    by (metis serially_attempts snd_conv)
  have ids: "new_uuid ` set (map ((!) es) js) \<subseteq> new_uuid ` set es" using js(1) by auto
  have told: "fmlookup (idempotency d') (p, q, t, k) = Some res" if answered: "Answered (Inr (Some res)) \<in> set fs" "OK res" for res
  proof -
    from answered(1) obtain i where i: "i < length fs" "fs ! i = Answered (Inr (Some res))" by (auto simp: in_set_conv_nth)
    with overlap_inv_sound [OF inv, of i] answered(2) inv show ?thesis by (simp add: overlap_inv_def recorded_def)
  qed
  from attempts_once [OF assms(1,2), of "map ((!) es) js" n, folded d'] show ?thesis
    using ids told assms(2) by fastforce
qed

theorem overlapping_deliveries_pay_once_witness:
  "\<exists>i \<in> {''u1'', ''u2''}. books (\<lambda>_. 0) [] (transfer_rows i TreasuryAccount ''pip:1'' 100 KindIssuance 1)
    (getz (accounts (snd (Postgres_Transfer (clean_env ''u1'') emptyDB TreasuryAccount ''pip:1'' 100 KindIssuance 1))))
    (journal_of (snd (Postgres_Transfer (clean_env ''u1'') emptyDB TreasuryAccount ''pip:1'' 100 KindIssuance 1)))"
proof -
  have fresh: "fmlookup (idempotency emptyDB) (TreasuryAccount, ''pip:1'', 1, KindIssuance) = None"
    by (simp add: emptyDB_def)
  have reads: "getz (accounts emptyDB) = (\<lambda>_. 0)" "journal_of emptyDB = []"
    by (simp_all add: emptyDB_def journal_of_def fun_eq_iff)
  have run: "overlap_step\<^sup>*\<^sup>* (emptyDB, map (\<lambda>e. Asked e (Transfers TreasuryAccount ''pip:1'' 100 KindIssuance 1)) [clean_env ''u1'', clean_env ''u2''])
    (snd (Postgres_Transfer (clean_env ''u1'') emptyDB TreasuryAccount ''pip:1'' 100 KindIssuance 1),
     [Answered (Inr (Some (accepted (- 100)))), Answered (Inl ''duplicate key value violates unique constraint'')])"
    using issued_overlap by (simp add: issued_def)
  show ?thesis
    using overlapping_deliveries_pay_once [OF keep_pg_emptyDB fresh run] by (auto simp: reads accepted_def)
qed

end
