(* ===== verification/Spec2Isabelle.thy ===== *)
theory Spec2Isabelle
  imports LedgerProps BankProps FarmOffers StoreAgreement WorldBooks WorkExchange GatewayProps Commands WagesOverTime GatewayRaces PostgresLocks PostgresOverlaps
begin

text \<open>
  A verification library of pipsim, the server side of a world of small people (pips) who join a
  simulation, are hired by workplaces, are paid by a bank and buy food. It covers the Go code under
  \<^verbatim>\<open>src/services\<close>: the bank, the farm (the workplace written in Go), the world-gateway that runs the
  economy between them, and the generated Connect code that ties them together.

  \<^bold>\<open>How the parts interact.\<close> sim-core (Rust, outside) owns the world. The gateway takes a snapshot once a
  second and runs one cycle (\<open>Fleet_cycle\<close>): pips without work are offered to a workplace over a
  message queue, pips at work have their shift worked by a call to the workplace, what was earned is
  paid by one batch per building at the bank, and sim-core is sent the outcome as intents. The farm
  answers offers and calls out of a store of shifts, of which there are three. The bank keeps the
  accounts, in memory or in Postgres, and is told of deaths and purchases by event streams.

  \<^bold>\<open>Theories and code.\<close>
    \<^item> \<open>GoBase\<close>, \<open>GoStrings\<close>: Go's integers (words, wrap-around), maps with zero values, decimal
      formatting and parsing, \<^verbatim>\<open>strings.Split\<close> and \<^verbatim>\<open>strings.TrimSpace\<close>; shared lemmas.
    \<^item> \<open>Ledger\<close>: \<^verbatim>\<open>bank/internal/ledger/ledger.go\<close>, the interface and its contract as the
      locale \<open>ledger_contract\<close>. \<open>LedgerMemory\<close>: \<^verbatim>\<open>memory.go\<close>. \<open>LedgerPostgres\<close>, \<open>PostgresEffects\<close>,
      \<open>PostgresCorrect\<close>: \<^verbatim>\<open>postgres.go\<close>, transactions over an explicit database state whose statements
      and commit may fail. \<open>LedgerCalls\<close>: sequences of calls, and the simulation between the two
      ledgers. \<open>LedgerProps\<close>, \<open>PostgresProps\<close>: their properties. \<open>PostgresLocks\<close>: the row locks that
      transactions take and wait for, over the locale \<open>lock_order\<close>. \<open>PostgresOverlaps\<close>: transactions that
      overlap, between their look-ups and their locks.
    \<^item> \<open>BankApi\<close>: \<^verbatim>\<open>bank/internal/bankapi\<close>, handler, facts, escheat, purchases, consumers. \<open>BankProps\<close>:
      the properties of the bank service.
    \<^item> \<open>ShiftStore\<close>: the rules of shifts and the store interface of
      \<^verbatim>\<open>workplaces/farm/internal/farm/store.go\<close>, as the locale \<open>shift_store\<close>, with the in-memory store.
      \<open>RedisStore\<close>: the Lua scripts and the Redis store. \<open>DaprStore\<close>: the store of \<^verbatim>\<open>dapr.go\<close>.
      \<open>StoreAgreement\<close>: the scripts against the rules, and the well-formedness of the hash.
    \<^item> \<open>FarmService\<close>, \<open>FarmHost\<close>, \<open>FarmActor\<close>: \<^verbatim>\<open>farm.go\<close>, \<^verbatim>\<open>host.go\<close>, \<^verbatim>\<open>dapr.go\<close>; the locale \<open>hosted\<close> is a
      host over any store. \<open>FarmQueue\<close>: \<^verbatim>\<open>internal/queue/queue.go\<close>. \<open>FarmProps\<close>, \<open>FarmOffers\<close>: the
      properties of the farm.
    \<^item> \<open>GatewayPeers\<close>: what the gateway talks to, and \<^verbatim>\<open>world-gateway/internal/economy/queue.go\<close>. \<open>Driver\<close>:
      \<^verbatim>\<open>driver.go\<close>. \<open>Fleet\<close>: \<^verbatim>\<open>economy.go\<close> and \<^verbatim>\<open>payroll.go\<close>. \<open>FleetFacts\<close>: what each step adds to the
      log and leaves alone. \<open>FleetProps\<close>, \<open>EconomyProps\<close>: the properties of the economy. \<open>CycleProgress\<close>: how
      many calls a cycle makes, and that it offers every pip without work.
    \<^item> \<open>Gateway\<close>: \<^verbatim>\<open>world-gateway/internal/gateway\<close>. \<open>Startup\<close>: the three commands' configuration and
      \<^verbatim>\<open>shared/gotel\<close>. \<open>GatewayProps\<close>: their properties. \<open>Commands\<close>: the lives of the three processes, what each
      \<^verbatim>\<open>main\<close> opens, starts and defers and how it ends.
    \<^item> \<open>WorldBooks\<close>: the gateway with the bank behind it. \<open>WorkExchange\<close>: an offer from the gateway through
      the farm and back, over the locale \<open>hiring\<close>. \<open>WagesOverTime\<close>: a building and the gateway over any stretch of
      time, over the locale \<open>timed_store\<close>. \<open>Goroutines\<close>, \<open>GatewayThreads\<close>, \<open>GatewayRaces\<close>: the gateway's methods cut
      where a lock is released or a call is out, their interleavings, and what holds of all of these, by
      the locale \<open>audit\<close>. \<open>Connect\<close>: the generated clients and handlers and
      what the commands mount.

  \<^bold>\<open>How state and surroundings are modelled.\<close> An operation is a function of its state. What a call gets
  from outside is an argument: the transfer id of the ledger, the clock, the failures of a database or
  of a Redis command, the order in which a map or a hash is walked, the codec. A mutex makes an operation one step; so do the
  row locks of a transaction for the part that runs under all of them. For the gateway, which does little but call others, the state
  carries a log of the calls made so far, and \<open>peers\<close> answers each call by any function of the log:
  the properties hold for all behaviours of the peers, unless a hypothesis narrows them
  (\<open>walks_maps\<close>: Go walks a map over all its keys, each once; \<open>served\<close>: the bank is the modelled
  one). Errors are the left summand of a sum, with the Connect code where the code sets one.

  \<^bold>\<open>What the lemmas show.\<close> Money: the books balance in every reachable state, an accepted transfer is
  made once under any retries, the two ledgers agree, sim-core is sent exactly what the bank booked.
  Workplaces: no building holds more pips than it has positions, on any store; the Lua scripts answer
  what the Go rules answer; shifts are paid for ticks that passed, once, and over any history what is
  told of a pip's wages follows the time it worked. The economy: a cycle ends within a bound the world sets,
  only earned wages are paid, offers are bounded and no pip without work is passed over, an accepted offer
  comes back as the right hire, purchases happen inside and within the balance. The commands: a signal ends
  the bank and the gateway with everything released. Concurrency: the books agree under every interleaving
  of the gateway's goroutines; overlapping transactions of the database ledger leave what some order of them
  leaves, and transfers and posts never deadlock. Where the code does something else than it says, the property states what it
  does: a redelivered purchase booked twice by Postgres, an offer hired twice
  by the buildings of one host, a moved pip let go by its old building, a payroll of a restarted world
  answered from an old record, a farm whose telemetry no end flushes, a
  hire that is undone by the cycle it falls into, a payroll and a purchase that deadlock.

  \<^bold>\<open>Bounds and fuel.\<close> Loops over a list are structural recursion. A loop that runs until its context is
  done takes the number of its rounds (\<open>Fleet_Run\<close>, \<open>Driver_KeepRegistered\<close>) or the list of what it
  is given (\<open>Fleet_KeepEndowed\<close>, \<open>RunOutcomes\<close> and \<open>Consumer_Run_farm\<close> with the sessions they get, the
  bank's consumers, \<open>stream_loop\<close>); the
  properties hold for every such argument, so no bound is chosen. Amounts, ticks and ids are words of
  their width; Go's \<^verbatim>\<open>int\<close> counters of cycles and offers are natural numbers; durations are integers
  with the saturation of \<^verbatim>\<open>time.Sub\<close>. Lua's numbers are integers, exact below \<open>2 ^ 53\<close>.

  \<^bold>\<open>Not modelled.\<close> The services in other languages (sim-core, tavern, broadcast, bff, workshop,
  pathfinder), the protobuf messages beyond records of their fields, the inside of the libraries (HTTP servers and
  transports, the telemetry exporters, encoding and streaming), timeouts, the pauses between retries, log lines
  and metrics other than the queue depth. A process ends by a server error, a signal or a return; a crash
  is not among its ends. A message
  that quotes its input with \<^verbatim>\<open>%q\<close> holds the input unquoted. Two drivers with the same id, which the
  code would let share map entries by pointer, are kept apart by their index. In the
  functions of \<open>Fleet\<close> a cycle, an endowment pass and an outcome are each one step; \<open>GatewayThreads\<close> takes
  them apart and shows that these functions are the goroutines left alone. Not among the interleaved
  goroutines are those of the HTTP handlers: \<open>Buy\<close> tells sim-core of purchases the bank books only later.
\<close>

end
